(* ===== verification/Prelude.thy ===== *)
theory Prelude
  imports Main "HOL-Library.Word" "HOL-Library.AList" "HOL-Library.List_Lexorder"
    "HOL-Library.Sublist" "HOL-Library.Multiset" "HOL-Library.Code_Target_Numeral"
begin

text \<open>
  What the component theories share: the types of the model (strings as lists of Unicode
  scalar values, byte strings), the part of Rust's \<open>str\<close> API the sources use, decimal
  numerals, hash maps as association lists, and the two interfaces that several components
  implement (a machine with an invariant, and a log bounded by a capacity).
\<close>

named_theorems lit_eval \<open>evaluation of string literals and constants\<close>
named_theorems model_defs \<open>definitions unfolded when a concrete run is evaluated\<close>

section \<open>Strings and bytes\<close>

text \<open>
  A Rust \<open>char\<close> is a Unicode scalar value and a Rust \<open>String\<close> a sequence of them, so a
  string is a list of numbers; \<open>lit\<close> turns an ASCII literal into one. The order of
  \<open>HOL-Library.List_Lexorder\<close> on these lists is Rust's order on \<open>str\<close> (UTF-8 preserves
  the order of scalar values).
\<close>

type_synonym str = "nat list"
type_synonym byte = "8 word"
type_synonym bytes = "8 word list"

definition lit :: "string \<Rightarrow> str" where
  "lit s = map of_char s"

lemma lit_Nil [lit_eval]: "lit [] = []"
  and lit_Cons [lit_eval]: "lit (c # cs) = of_char c # lit cs"
  by (simp_all add: lit_def)

lemma length_lit [simp]: "length (lit s) = length s"
  by (simp add: lit_def)

fun utf8_char :: "nat \<Rightarrow> nat list" where
  "utf8_char c =
     (if c < 128 then [c]
      else if c < 2048 then [192 + c div 64, 128 + c mod 64]
      else if c < 65536 then [224 + c div 4096, 128 + (c div 64) mod 64, 128 + c mod 64]
      else [240 + c div 262144, 128 + (c div 4096) mod 64, 128 + (c div 64) mod 64,
            128 + c mod 64])"

declare utf8_char.simps [simp del]

definition utf8 :: "str \<Rightarrow> nat list" where
  "utf8 s = concat (map utf8_char s)"

definition as_bytes :: "str \<Rightarrow> bytes" where
  "as_bytes s = map word_of_nat (utf8 s)"

lemma utf8_Nil [simp]: "utf8 [] = []"
  by (simp add: utf8_def)

lemma utf8_Cons: "utf8 (c # cs) = utf8_char c @ utf8 cs"
  by (simp add: utf8_def)

lemma utf8_char_ascii: "c < 128 \<Longrightarrow> utf8_char c = [c]"
  by (simp add: utf8_char.simps)

lemma utf8_char_nonempty: "utf8_char c \<noteq> []"
  by (simp add: utf8_char.simps)

lemma utf8_char_lead: "\<not> c < 128 \<Longrightarrow> \<exists>b bs. utf8_char c = b # bs \<and> 128 \<le> b"
  by (simp add: utf8_char.simps)

lemma utf8_ascii: "list_all (\<lambda>c. c < 128) s \<Longrightarrow> utf8 s = s"
  by (induction s) (auto simp: utf8_Cons utf8_char_ascii)

text \<open>A string whose UTF-8 bytes are all below 128 is its own encoding.\<close>

lemma utf8_all_ascii: "list_all (\<lambda>b. b < 128) (utf8 s) \<Longrightarrow> utf8 s = s"
proof (induction s)
  case (Cons c cs)
  have "c < 128"
  proof (rule ccontr)
    assume "\<not> c < 128"
    then obtain b bs where "utf8_char c = b # bs" "128 \<le> b"
      using utf8_char_lead by blast
    with Cons.prems show False by (simp add: utf8_Cons)
  qed
  with Cons show ?case by (simp add: utf8_Cons utf8_char_ascii)
qed simp

subsection \<open>Character classes\<close>

text \<open>\<open>char::is_whitespace\<close> is the Unicode property \<open>White_Space\<close>, \<open>char::is_control\<close>
  the general category \<open>Cc\<close>.\<close>

definition is_whitespace :: "nat \<Rightarrow> bool" where
  "is_whitespace c \<longleftrightarrow>
     (9 \<le> c \<and> c \<le> 13) \<or> c = 32 \<or> c = 133 \<or> c = 160 \<or> c = 5760 \<or> (8192 \<le> c \<and> c \<le> 8202)
     \<or> c = 8232 \<or> c = 8233 \<or> c = 8239 \<or> c = 8287 \<or> c = 12288"

definition is_control :: "nat \<Rightarrow> bool" where
  "is_control c \<longleftrightarrow> c < 32 \<or> (127 \<le> c \<and> c \<le> 159)"

definition is_ascii_digit :: "nat \<Rightarrow> bool" where
  "is_ascii_digit c \<longleftrightarrow> 48 \<le> c \<and> c \<le> 57"

definition is_ascii_alphanumeric :: "nat \<Rightarrow> bool" where
  "is_ascii_alphanumeric c \<longleftrightarrow> is_ascii_digit c \<or> (65 \<le> c \<and> c \<le> 90) \<or> (97 \<le> c \<and> c \<le> 122)"

definition is_ascii_hexdigit :: "nat \<Rightarrow> bool" where
  "is_ascii_hexdigit c \<longleftrightarrow> is_ascii_digit c \<or> (65 \<le> c \<and> c \<le> 70) \<or> (97 \<le> c \<and> c \<le> 102)"

definition ascii_upper :: "nat \<Rightarrow> nat" where
  "ascii_upper c = (if 97 \<le> c \<and> c \<le> 122 then c - 32 else c)"

definition ascii_lower :: "nat \<Rightarrow> nat" where
  "ascii_lower c = (if 65 \<le> c \<and> c \<le> 90 then c + 32 else c)"

lemmas char_class_defs =
  is_whitespace_def is_control_def is_ascii_digit_def is_ascii_alphanumeric_def
  is_ascii_hexdigit_def ascii_upper_def ascii_lower_def

subsection \<open>Trimming, prefixes, splitting\<close>

definition trim_where :: "(nat \<Rightarrow> bool) \<Rightarrow> str \<Rightarrow> str" where
  "trim_where P s = rev (dropWhile P (rev (dropWhile P s)))"

definition trim :: "str \<Rightarrow> str" where
  "trim s = trim_where is_whitespace s"

definition trim_end_where :: "(nat \<Rightarrow> bool) \<Rightarrow> str \<Rightarrow> str" where
  "trim_end_where P s = rev (dropWhile P (rev s))"

definition strip_prefix :: "str \<Rightarrow> str \<Rightarrow> str option" where
  "strip_prefix p s = (if take (length p) s = p then Some (drop (length p) s) else None)"

definition starts_with :: "str \<Rightarrow> str \<Rightarrow> bool" where
  "starts_with p s \<longleftrightarrow> take (length p) s = p"

definition str_contains :: "str \<Rightarrow> str \<Rightarrow> bool" where
  "str_contains p s \<longleftrightarrow> sublist p s"

text \<open>\<open>split_once\<close> cuts at the first, \<open>rsplit_once\<close> at the last occurrence of a character.\<close>

fun split_once :: "nat \<Rightarrow> str \<Rightarrow> (str \<times> str) option" where
  "split_once d [] = None"
| "split_once d (c # cs) =
     (if c = d then Some ([], cs)
      else map_option (\<lambda>(a, b). (c # a, b)) (split_once d cs))"

definition rsplit_once :: "nat \<Rightarrow> str \<Rightarrow> (str \<times> str) option" where
  "rsplit_once d s = map_option (\<lambda>(a, b). (rev b, rev a)) (split_once d (rev s))"

lemma split_once_Some: "split_once d s = Some (a, b) \<Longrightarrow> s = a @ d # b \<and> d \<notin> set a"
  by (induction s arbitrary: a) (auto split: if_splits)

lemma split_once_None: "split_once d s = None \<longleftrightarrow> d \<notin> set s"
  by (induction s) auto

lemma split_once_append: "d \<notin> set a \<Longrightarrow> split_once d (a @ d # b) = Some (a, b)"
  by (induction a) auto

lemma rsplit_once_Some: "rsplit_once d s = Some (a, b) \<Longrightarrow> s = a @ d # b \<and> d \<notin> set b"
proof -
  assume "rsplit_once d s = Some (a, b)"
  then have "split_once d (rev s) = Some (rev b, rev a)"
    by (auto simp: rsplit_once_def)
  from split_once_Some [OF this] have "rev s = rev (a @ d # b)" and d: "d \<notin> set b"
    by simp_all
  then have "s = a @ d # b" by (simp only: rev_is_rev_conv)
  with d show ?thesis by blast
qed

lemma rsplit_once_None: "rsplit_once d s = None \<longleftrightarrow> d \<notin> set s"
  by (simp add: rsplit_once_def split_once_None)

lemma strip_prefix_Some [simp]: "strip_prefix p s = Some r \<longleftrightarrow> s = p @ r"
  by (auto simp: strip_prefix_def) (metis append_take_drop_id)

lemma strip_prefix_None: "strip_prefix p s = None \<longleftrightarrow> \<not> starts_with p s"
  by (simp add: strip_prefix_def starts_with_def)

lemma starts_with_append [simp]: "starts_with p (p @ s)"
  by (simp add: starts_with_def)

lemma starts_with_iff: "starts_with p s \<longleftrightarrow> (\<exists>r. s = p @ r)"
  by (auto simp: starts_with_def) (metis append_take_drop_id)

lemma str_contains_code:
  "str_contains p s \<longleftrightarrow> starts_with p s \<or> (case s of [] \<Rightarrow> False | _ # s' \<Rightarrow> str_contains p s')"
proof (cases s)
  case Nil
  then show ?thesis by (auto simp: str_contains_def starts_with_iff)
next
  case (Cons c s')
  have "sublist p (c # s') \<longleftrightarrow> prefix p (c # s') \<or> sublist p s'"
    by (rule sublist_Cons_right)
  then show ?thesis
    by (simp add: str_contains_def starts_with_iff prefix_def Cons)
qed



lemma set_trim_where: "set (trim_where P s) \<subseteq> set s"
proof
  fix x assume "x \<in> set (trim_where P s)"
  then have "x \<in> set (dropWhile P (rev (dropWhile P s)))" by (simp only: trim_where_def set_rev)
  then have "x \<in> set (rev (dropWhile P s))" by (rule set_dropWhileD)
  then have "x \<in> set (dropWhile P s)" by (simp only: set_rev)
  then show "x \<in> set s" by (rule set_dropWhileD)
qed

lemma trim_where_ends:
  assumes "trim_where P s \<noteq> []"
  shows "\<not> P (hd (trim_where P s))" and "\<not> P (last (trim_where P s))"
proof -
  let ?d = "dropWhile P s"
  have "dropWhile P (rev ?d) \<noteq> []" using assms by (simp add: trim_where_def)
  then show "\<not> P (last (trim_where P s))"
    unfolding trim_where_def by (simp add: last_rev hd_dropWhile)
  have ne: "?d \<noteq> []"
    using assms by (metis dropWhile.simps(1) rev.simps(1) trim_where_def)
  have "\<not> P (hd ?d)" using ne by (rule hd_dropWhile)
  have "hd (trim_where P s) = hd ?d"
  proof -
    obtain c cs where cc: "?d = c # cs" using ne by (cases ?d) auto
    have "\<not> P c" using \<open>\<not> P (hd ?d)\<close> cc by simp
    then have "dropWhile P (rev cs @ [c]) = dropWhile P (rev cs) @ [c]"
      by (induction "rev cs" arbitrary: cs) (auto simp: dropWhile_append)
    then show ?thesis by (simp add: trim_where_def cc)
  qed
  with \<open>\<not> P (hd ?d)\<close> show "\<not> P (hd (trim_where P s))" by simp
qed

lemma trim_where_id:
  assumes "s \<noteq> [] \<Longrightarrow> \<not> P (hd s)" and "s \<noteq> [] \<Longrightarrow> \<not> P (last s)"
  shows "trim_where P s = s"
proof (cases "s = []")
  case False
  then have "dropWhile P s = s" using assms(1) by (cases s) auto
  moreover have "dropWhile P (rev s) = rev s"
    using False assms(2) by (cases s rule: rev_cases) auto
  ultimately show ?thesis by (simp add: trim_where_def)
qed (simp add: trim_where_def)

lemma trim_where_idem [simp]: "trim_where P (trim_where P s) = trim_where P s"
  by (rule trim_where_id) (auto dest: trim_where_ends)

section \<open>Decimal numerals\<close>

fun show_nat :: "nat \<Rightarrow> str" where
  "show_nat n = (if n < 10 then [48 + n] else show_nat (n div 10) @ [48 + n mod 10])"

declare show_nat.simps [simp del]

definition digits_value :: "str \<Rightarrow> nat" where
  "digits_value ds = foldl (\<lambda>v c. 10 * v + (c - 48)) 0 ds"

lemma digits_value_show_nat: "digits_value (show_nat n) = n"
proof (induction n rule: show_nat.induct)
  case (1 n)
  then show ?case
    by (subst show_nat.simps) (simp add: digits_value_def)
qed

lemma show_nat_inj [simp]: "show_nat m = show_nat n \<longleftrightarrow> m = n"
  by (metis digits_value_show_nat)

lemma show_nat_nonempty [simp]: "show_nat n \<noteq> []"
  by (subst show_nat.simps) simp

lemma show_nat_digits: "c \<in> set (show_nat n) \<Longrightarrow> 48 \<le> c \<and> c \<le> 57"
proof (induction n rule: show_nat.induct)
  case (1 n)
  show ?case
  proof (cases "n < 10")
    case True
    with "1.prems" show ?thesis by (subst (asm) show_nat.simps) simp
  next
    case False
    then have "show_nat n = show_nat (n div 10) @ [48 + n mod 10]"
      by (subst show_nat.simps) simp
    with "1.prems" have "c \<in> set (show_nat (n div 10)) \<or> c = 48 + n mod 10" by auto
    then show ?thesis
    proof
      assume "c \<in> set (show_nat (n div 10))"
      with "1.IH" [OF False] show ?thesis by blast
    qed auto
  qed
qed

section \<open>Results\<close>

text \<open>Congruences that keep the simplifier out of a continuation until its input is known.\<close>

lemma bind_weak: "m = m' \<Longrightarrow> Option.bind m f = Option.bind m' f"
  by simp

text \<open>\<open>Result<T, E>\<close> is a sum with the error on the left; \<open>bind_r\<close> is the operator \<open>?\<close>.\<close>

fun bind_r :: "'e + 'a \<Rightarrow> ('a \<Rightarrow> 'e + 'b) \<Rightarrow> 'e + 'b" where
  "bind_r (Inl e) f = Inl e"
| "bind_r (Inr x) f = f x"

fun map_err :: "('e \<Rightarrow> 'f) \<Rightarrow> 'e + 'a \<Rightarrow> 'f + 'a" where
  "map_err g (Inl e) = Inl (g e)"
| "map_err g (Inr x) = Inr x"

fun ok :: "'e + 'a \<Rightarrow> 'a option" where
  "ok (Inl e) = None"
| "ok (Inr x) = Some x"

lemma bind_r_Inr [simp]: "bind_r r f = Inr y \<longleftrightarrow> (\<exists>x. r = Inr x \<and> f x = Inr y)"
  by (cases r) auto

lemma map_err_Inr [simp]: "map_err g r = Inr y \<longleftrightarrow> r = Inr y"
  by (cases r) auto

section \<open>Hash maps as association lists\<close>

text \<open>
  A \<open>HashMap\<close> or \<open>DashMap\<close> that the code iterates is a list of pairs with distinct keys, in
  the order of iteration, which Rust leaves unspecified: the theorems hold for every such
  list. \<open>AList.update\<close> is \<open>insert\<close>, \<open>AList.delete\<close> is \<open>remove\<close>, \<open>map_of\<close> is \<open>get\<close>.
\<close>

abbreviation keys :: "('k \<times> 'v) list \<Rightarrow> 'k list" where
  "keys m \<equiv> map fst m"

abbreviation wf_map :: "('k \<times> 'v) list \<Rightarrow> bool" where
  "wf_map m \<equiv> distinct (map fst m)"

definition retain_keys :: "('k \<Rightarrow> bool) \<Rightarrow> ('k \<times> 'v) list \<Rightarrow> ('k \<times> 'v) list" where
  "retain_keys P m = filter (\<lambda>(k, v). P k) m"

lemma map_of_retain_keys: "map_of (retain_keys P m) k = (if P k then map_of m k else None)"
  by (induction m) (auto simp: retain_keys_def)

lemma wf_map_retain_keys [simp, intro]: "wf_map m \<Longrightarrow> wf_map (retain_keys P m)"
  unfolding retain_keys_def by (induction m) (auto simp: image_iff)

lemma wf_map_update [simp, intro]: "wf_map m \<Longrightarrow> wf_map (AList.update k v m)"
  by (rule distinct_update)

lemma wf_map_delete [simp, intro]: "wf_map m \<Longrightarrow> wf_map (AList.delete k m)"
  by (rule distinct_delete)

lemma set_keys_update [simp]: "set (map fst (AList.update k v m)) = insert k (set (map fst m))"
  using dom_update [of k v m] by (simp add: dom_map_of_conv_image_fst)

lemma set_keys_delete [simp]: "set (map fst (AList.delete k m)) = set (map fst m) - {k}"
  by (induction m) (auto simp: AList.delete_eq)

lemma length_update_new: "k \<notin> set (keys m) \<Longrightarrow> length (AList.update k v m) = Suc (length m)"
  by (induction m) auto

lemma update_new: "k \<notin> set (keys m) \<Longrightarrow> AList.update k v m = m @ [(k, v)]"
  by (induction m) auto

section \<open>Interfaces shared by the components\<close>

text \<open>
  A component with state and an invariant that each of its operations keeps: the run over any
  sequence of operations keeps it too.
\<close>

locale machine =
  fixes step :: "'e \<Rightarrow> 's \<Rightarrow> 's"
    and inv :: "'s \<Rightarrow> bool"
  assumes step_inv: "inv s \<Longrightarrow> inv (step e s)"
begin

lemma run_inv: "inv s \<Longrightarrow> inv (fold step es s)"
  by (induction es arbitrary: s) (auto intro: step_inv)

end

text \<open>
  A log bounded by a capacity: pushing an element makes it the newest one and forgets only
  oldest ones. Implemented by the relay's recent-clip cache, the receive queue of the client,
  and the histories of the desktop bridge.
\<close>

locale bounded_log =
  fixes push :: "'a \<Rightarrow> 'a list \<Rightarrow> 'a list"
    and cap :: nat
  assumes push_suffix: "length xs \<le> cap \<Longrightarrow> suffix (push x xs) (xs @ [x])"
    and push_newest: "length xs \<le> cap \<Longrightarrow> push x xs \<noteq> []"
    and push_cap: "length xs \<le> cap \<Longrightarrow> length (push x xs) = min cap (Suc (length xs))"
begin

lemma push_take_last:
  assumes "length xs \<le> cap"
  shows "push x xs = drop (Suc (length xs) - cap) (xs @ [x])"
proof -
  obtain ys where ys: "xs @ [x] = ys @ push x xs"
    using push_suffix [OF assms] by (auto simp: suffix_def)
  have "length ys = Suc (length xs) - cap"
    using push_cap [OF assms, of x] arg_cong [OF ys, where f = length] by (simp add: min_def split: if_splits)
  then show ?thesis by (simp add: ys)
qed

text \<open>After any sequence of pushes the log holds exactly the newest \<open>cap\<close> elements.\<close>

lemma run_newest:
  "length xs \<le> cap \<Longrightarrow>
     fold push ys xs = drop (length xs + length ys - cap) (xs @ ys)"
proof (induction ys arbitrary: xs)
  case (Cons y ys)
  have len: "length (push y xs) \<le> cap" using Cons.prems push_cap by simp
  have "fold push (y # ys) xs = fold push ys (push y xs)" by simp
  also have "\<dots> = drop (length (push y xs) + length ys - cap) (push y xs @ ys)"
    by (rule Cons.IH [OF len])
  also have "\<dots> = drop (length xs + length (y # ys) - cap) (xs @ y # ys)"
  proof (cases "Suc (length xs) \<le> cap")
    case True
    then show ?thesis
      using push_take_last [OF Cons.prems, of y] push_cap [OF Cons.prems, of y] by simp
  next
    case False
    then have "length xs = cap" using Cons.prems by simp
    then have "push y xs = drop 1 (xs @ [y])"
      using push_take_last [OF Cons.prems, of y] by simp
    then show ?thesis
      using \<open>length xs = cap\<close> push_cap [OF Cons.prems, of y]
      by (cases xs) (auto simp: drop_Cons' push_newest)
  qed
  finally show ?case .
qed simp

lemma run_bounded: "length xs \<le> cap \<Longrightarrow> length (fold push ys xs) \<le> cap"
  by (simp add: run_newest)

end

end
