(* ===== verification/Crypto.thy ===== *)
theory Crypto
  imports Prelude
begin

unbundle bit_operations_syntax

text \<open>
  \<^verbatim>\<open>core/src/crypto.rs\<close> and the key of \<^verbatim>\<open>core/src/group.rs\<close>. SHA-256 and ChaCha20-Poly1305 are
  third-party crates: they are the record \<open>prims\<close>, an argument of every function that uses
  them. \<open>aead_contract\<close> and \<open>sha_contract\<close> state what the code relies on.
\<close>

record prims =
  sha256 :: "bytes \<Rightarrow> bytes"
  aead_seal :: "bytes \<Rightarrow> bytes \<Rightarrow> bytes \<Rightarrow> bytes option"
  aead_open :: "bytes \<Rightarrow> bytes \<Rightarrow> bytes \<Rightarrow> bytes option"

definition NONCE_LEN :: nat where "NONCE_LEN = 12"
definition KEY_LEN :: nat where "KEY_LEN = 32"
definition SHA256_LEN :: nat where "SHA256_LEN = 32"
definition AEAD_TAG_LEN :: nat where "AEAD_TAG_LEN = 16"

lemmas crypto_lens [lit_eval] = NONCE_LEN_def KEY_LEN_def SHA256_LEN_def AEAD_TAG_LEN_def

definition sha_contract :: "prims \<Rightarrow> bool" where
  "sha_contract P \<longleftrightarrow> (\<forall>b. length (sha256 P b) = SHA256_LEN)"

text \<open>
  Authenticated encryption: opening is the inverse of sealing under the same key and nonce,
  nothing else opens, and the ciphertext is the plaintext's length plus the tag.
\<close>

definition aead_contract :: "prims \<Rightarrow> bool" where
  "aead_contract P \<longleftrightarrow>
     (\<forall>k n p c. length n = NONCE_LEN \<longrightarrow>
        (aead_open P k n c = Some p \<longleftrightarrow> aead_seal P k n p = Some c)
        \<and> (aead_seal P k n p = Some c \<longrightarrow> length c = length p + AEAD_TAG_LEN))"

lemma aead_open_seal:
  "aead_contract P \<Longrightarrow> length n = NONCE_LEN \<Longrightarrow> aead_seal P k n p = Some c \<Longrightarrow>
     aead_open P k n c = Some p"
  unfolding aead_contract_def by blast

lemma aead_seal_length:
  "aead_contract P \<Longrightarrow> length n = NONCE_LEN \<Longrightarrow> aead_seal P k n p = Some c \<Longrightarrow>
     length c = length p + AEAD_TAG_LEN"
  unfolding aead_contract_def by blast

section \<open>Hexadecimal digests\<close>

text \<open>\<open>hex_nibble\<close> panics (\<open>unreachable!\<close>) outside 0..=15: the panic is \<open>None\<close>.\<close>

definition hex_nibble :: "byte \<Rightarrow> nat option" where
  "hex_nibble n =
     (if n \<le> 9 then Some (48 + unat n)
      else if n \<le> 15 then Some (97 + (unat n - 10))
      else None)"

definition hex_byte :: "byte \<Rightarrow> str option" where
  "hex_byte b = (case (hex_nibble (drop_bit 4 b), hex_nibble (b AND 15)) of
      (Some h, Some l) \<Rightarrow> Some [h, l] | _ \<Rightarrow> None)"

definition hex_digest :: "bytes \<Rightarrow> str" where
  "hex_digest bs = concat (map (\<lambda>b. the (hex_byte b)) bs)"

definition sha256_hex :: "prims \<Rightarrow> bytes \<Rightarrow> str" where
  "sha256_hex P bs = hex_digest (sha256 P bs)"

lemma nibble_bounds: "drop_bit 4 (b :: byte) \<le> 15" "(b AND 15 :: byte) \<le> 15"
proof -
  have "unat (drop_bit 4 b) = unat b div 16"
    unfolding unat_drop_bit_eq by (simp add: drop_bit_eq_div)
  moreover have "unat b < 256" using unsigned_less [where 'a = nat, of b] by simp
  ultimately have "unat (drop_bit 4 b) \<le> unat (15 :: byte)" by simp
  then show "drop_bit 4 b \<le> 15" by (simp only: word_le_nat_alt)
  show "(b AND 15 :: byte) \<le> 15" by (rule word_and_le1)
qed

lemma hex_nibble_total: "n \<le> 15 \<Longrightarrow> \<exists>c. hex_nibble n = Some c"
  by (simp add: hex_nibble_def)

text \<open>The panic branch is dead: every byte has its two digits.\<close>

lemma hex_byte_total: "\<exists>h l. hex_byte b = Some [h, l]"
  using hex_nibble_total [OF nibble_bounds(1) [of b]] hex_nibble_total [OF nibble_bounds(2) [of b]]
  by (auto simp: hex_byte_def)

lemma length_hex_digest: "length (hex_digest bs) = 2 * length bs"
proof (induction bs)
  case (Cons b bs)
  obtain h l where "hex_byte b = Some [h, l]" using hex_byte_total by blast
  with Cons show ?case by (simp add: hex_digest_def)
qed (simp add: hex_digest_def)

definition is_lower_hex :: "nat \<Rightarrow> bool" where
  "is_lower_hex c \<longleftrightarrow> is_ascii_digit c \<or> (97 \<le> c \<and> c \<le> 102)"

lemma hex_nibble_lower: "hex_nibble n = Some c \<Longrightarrow> is_lower_hex c"
proof -
  assume "hex_nibble n = Some c"
  then have "n \<le> 9 \<or> n \<le> 15" and c: "c = (if n \<le> 9 then 48 + unat n else 97 + (unat n - 10))"
    by (auto simp: hex_nibble_def split: if_splits)
  then have "unat n \<le> 15" by (auto simp: word_le_nat_alt)
  moreover have "n \<le> 9 \<longleftrightarrow> unat n \<le> 9" by (simp add: word_le_nat_alt)
  ultimately show ?thesis using c by (auto simp: is_lower_hex_def is_ascii_digit_def)
qed

lemma hex_byte_lower: "hex_byte b = Some s \<Longrightarrow> list_all is_lower_hex s"
  by (auto simp: hex_byte_def hex_nibble_lower split: option.splits)

lemma hex_digest_lower: "list_all is_lower_hex (hex_digest bs)"
proof (induction bs)
  case (Cons b bs)
  obtain h l where "hex_byte b = Some [h, l]" using hex_byte_total by blast
  with Cons hex_byte_lower [of b "[h, l]"] show ?case by (simp add: hex_digest_def)
qed (simp add: hex_digest_def)

lemma sha256_hex_length: "sha_contract P \<Longrightarrow> length (sha256_hex P bs) = 64"
  by (simp add: sha256_hex_def length_hex_digest sha_contract_def SHA256_LEN_def)

lemma sha256_hex_lower: "list_all is_lower_hex (sha256_hex P bs)"
  by (simp add: sha256_hex_def hex_digest_lower)

lemma lower_hex_ascii: "list_all is_lower_hex s \<Longrightarrow> list_all (\<lambda>c. c < 128) s"
  by (auto simp: list_all_iff is_lower_hex_def is_ascii_digit_def)

section \<open>Encryption\<close>

datatype crypto_error = EncryptError | DecryptError | NonceLenError nat

fun crypto_error_text :: "crypto_error \<Rightarrow> str" where
  "crypto_error_text EncryptError = lit ''encrypt failed''"
| "crypto_error_text DecryptError = lit ''decrypt failed''"
| "crypto_error_text (NonceLenError n) =
     lit ''invalid nonce length: expected '' @ show_nat NONCE_LEN @ lit '', got '' @ show_nat n"

text \<open>The nonce is drawn by the caller's random generator: it is an argument here.\<close>

definition encrypt :: "prims \<Rightarrow> bytes \<Rightarrow> bytes \<Rightarrow> bytes \<Rightarrow> crypto_error + bytes \<times> bytes" where
  "encrypt P nonce key plaintext =
     (case aead_seal P key nonce plaintext of
        Some ciphertext \<Rightarrow> Inr (ciphertext, nonce)
      | None \<Rightarrow> Inl EncryptError)"

definition decrypt :: "prims \<Rightarrow> bytes \<Rightarrow> bytes \<Rightarrow> bytes \<Rightarrow> crypto_error + bytes" where
  "decrypt P key nonce ciphertext =
     (if length nonce \<noteq> NONCE_LEN then Inl (NonceLenError (length nonce))
      else case aead_open P key nonce ciphertext of
        Some plaintext \<Rightarrow> Inr plaintext
      | None \<Rightarrow> Inl DecryptError)"

lemma decrypt_encrypt:
  assumes "aead_contract P" and "length nonce = NONCE_LEN"
    and "encrypt P nonce key pt = Inr (ct, n)"
  shows "decrypt P key n ct = Inr pt" and "length ct = length pt + AEAD_TAG_LEN" and "n = nonce"
proof -
  have sealed: "aead_seal P key nonce pt = Some ct" and n: "n = nonce"
    using assms(3) by (auto simp: encrypt_def split: option.splits)
  show "decrypt P key n ct = Inr pt"
    using aead_open_seal [OF assms(1,2) sealed] assms(2) n by (simp add: decrypt_def)
  show "length ct = length pt + AEAD_TAG_LEN" by (rule aead_seal_length [OF assms(1,2) sealed])
  show "n = nonce" by (rule n)
qed

lemma decrypt_authentic:
  assumes "aead_contract P" and "decrypt P key nonce ct = Inr pt"
  shows "encrypt P nonce key pt = Inr (ct, nonce)"
  using assms by (auto simp: decrypt_def encrypt_def aead_contract_def split: if_splits option.splits)

section \<open>A concrete instance\<close>

text \<open>
  Primitives that satisfy the contracts, for the closed instances of the theorems: the tag is
  sixteen zero bytes, the digest the first bytes of the input, padded.
\<close>

definition demo_prims :: prims where
  "demo_prims =
     \<lparr>sha256 = (\<lambda>b. take 32 (b @ replicate 32 0)),
      aead_seal = (\<lambda>k n p. Some (replicate 16 0 @ p)),
      aead_open = (\<lambda>k n c. if take 16 c = replicate 16 0 then Some (drop 16 c) else None)\<rparr>"

lemma demo_sha: "sha_contract demo_prims"
  by (auto simp: sha_contract_def demo_prims_def SHA256_LEN_def)

lemma demo_aead: "aead_contract demo_prims"
proof -
  have "take 16 c = replicate 16 0 \<Longrightarrow> c = replicate 16 0 @ drop 16 c" for c :: bytes
    by (metis append_take_drop_id)
  then show ?thesis
    by (auto simp: aead_contract_def demo_prims_def AEAD_TAG_LEN_def)
qed

end
