(* ===== verification/Protocol.thy ===== *)
theory Protocol
  imports Crypto
begin

text \<open>
  The wire data of \<^verbatim>\<open>core/src/protocol.rs\<close> and the pairing data of \<^verbatim>\<open>core/src/group.rs\<close>. The
  \<open>u64\<close> and \<open>u32\<close> fields are carried, never computed with, so they are natural numbers; the
  JSON text itself is \<open>serde_json\<close>'s, a parameter where the code encodes or parses.
\<close>

record lan_candidate =
  lc_addr :: str
  lc_prefix_len :: nat

record lan_peer =
  lp_device_id :: str
  lp_device_name :: str
  lp_candidates :: "str list"

datatype client_message =
    Join (cm_group: str) (cm_device: str)
  | Publish (cm_group: str) bytes bytes nat
  | FetchRecent (cm_group: str)
  | LanAdvertise (cm_group: str) (cm_device: str) str "str list" "lan_candidate list"

record recent_clip =
  rc_ciphertext :: bytes
  rc_nonce :: bytes
  rc_ts :: nat
  rc_sender :: str

datatype server_message =
    Joined str
  | SClip bytes bytes nat str
  | Recent "recent_clip list"
  | SError str
  | LanPeers "lan_peer list"

datatype clip_kind = ClipText | ClipImage

record image_meta =
  im_mime_type :: str
  im_width :: nat
  im_height :: nat
  im_size_bytes :: nat
  im_sha256_hex :: str
  im_nonce_b64 :: str

record clip_payload =
  cp_kind :: clip_kind
  cp_content :: str
  cp_device_name :: str
  cp_ts :: nat
  cp_image :: "image_meta option"

text \<open>A clip as the LAN transport hands it over (\<^verbatim>\<open>core/src/lan.rs\<close>).\<close>

record incoming_lan_clip =
  il_sender :: str
  il_ts :: nat
  il_payload :: clip_payload

record group_config =
  gc_relay_url :: str
  gc_group_id :: str
  gc_key :: bytes

text \<open>\<open>GroupConfig::new\<close>: the fresh UUID and the random key are arguments.\<close>

definition group_config_new :: "str \<Rightarrow> str \<Rightarrow> bytes \<Rightarrow> group_config" where
  "group_config_new relay_url uuid random_key =
     \<lparr>gc_relay_url = relay_url, gc_group_id = uuid, gc_key = random_key\<rparr>"

text \<open>\<open>key_serde::deserialize\<close>: base64 text to exactly 32 bytes.\<close>

datatype key_error = KeyNotBase64 | KeyWrongLength

definition key_deserialize :: "(str \<Rightarrow> bytes option) \<Rightarrow> str \<Rightarrow> key_error + bytes" where
  "key_deserialize b64_decode s =
     (case b64_decode s of
        None \<Rightarrow> Inl KeyNotBase64
      | Some v \<Rightarrow> if length v = KEY_LEN then Inr v else Inl KeyWrongLength)"

end
