(* ===== verification/Net.thy ===== *)
theory Net
  imports Prelude "HOL-Library.Monad_Syntax"
begin

unbundle bit_operations_syntax

text \<open>
  The part of \<open>std::net\<close> the sources use: IPv4 and IPv6 addresses at their width, socket
  addresses, their classification, and their text form (\<open>FromStr\<close> and \<open>Display\<close>), written
  after the standard library's documented grammar. No source file of the repository is
  modelled here; the components use these functions where the code calls the library.
\<close>

section \<open>Addresses\<close>

datatype ip_addr = V4 "32 word" | V6 "128 word"

text \<open>A V6 socket address carries its scope id; the code never sets a flow label.\<close>

datatype socket_addr = SockV4 "32 word" "16 word" | SockV6 "128 word" "32 word" "16 word"

fun sock_ip :: "socket_addr \<Rightarrow> ip_addr" where
  "sock_ip (SockV4 a p) = V4 a"
| "sock_ip (SockV6 a s p) = V6 a"

fun sock_port :: "socket_addr \<Rightarrow> 16 word" where
  "sock_port (SockV4 a p) = p"
| "sock_port (SockV6 a s p) = p"

fun sock_new :: "ip_addr \<Rightarrow> 16 word \<Rightarrow> socket_addr" where
  "sock_new (V4 a) p = SockV4 a p"
| "sock_new (V6 a) p = SockV6 a 0 p"

lemma sock_ip_new [simp]: "sock_ip (sock_new a p) = a"
  by (cases a) auto

definition v4_octet :: "nat \<Rightarrow> 32 word \<Rightarrow> nat" where
  "v4_octet i a = unat (drop_bit (24 - 8 * i) a) mod 256"

definition v6_octet :: "nat \<Rightarrow> 128 word \<Rightarrow> 8 word" where
  "v6_octet i a = ucast (drop_bit (120 - 8 * i) a)"

definition v6_segment :: "nat \<Rightarrow> 128 word \<Rightarrow> nat" where
  "v6_segment i a = unat (drop_bit (112 - 16 * i) a) mod 65536"

definition v4_is_private :: "32 word \<Rightarrow> bool" where
  "v4_is_private a \<longleftrightarrow>
     (let x = v4_octet 0 a; y = v4_octet 1 a
      in x = 10 \<or> (x = 172 \<and> 16 \<le> y \<and> y \<le> 31) \<or> (x = 192 \<and> y = 168))"

definition v4_is_link_local :: "32 word \<Rightarrow> bool" where
  "v4_is_link_local a \<longleftrightarrow> v4_octet 0 a = 169 \<and> v4_octet 1 a = 254"

definition mk_v4 :: "nat \<Rightarrow> nat \<Rightarrow> nat \<Rightarrow> nat \<Rightarrow> 32 word" where
  "mk_v4 a b c d = word_of_nat (((a * 256 + b) * 256 + c) * 256 + d)"

lemma v4_octets_rebuild:
  "mk_v4 (v4_octet 0 a) (v4_octet 1 a) (v4_octet 2 a) (v4_octet 3 a) = a"
proof -
  define n where "n = unat a"
  have n: "n < 2 ^ 32" using unsigned_less [where 'a = nat, of a] by (simp add: n_def)
  have oct: "v4_octet i a = n div 2 ^ (24 - 8 * i) mod 256" for i
    by (simp only: v4_octet_def n_def unat_drop_bit_eq) (simp add: drop_bit_eq_div)
  have eq: "((n div 2 ^ 24 mod 256 * 256 + n div 2 ^ 16 mod 256) * 256 + n div 2 ^ 8 mod 256)
      * 256 + n mod 256 = n"
  proof -
    have "n div 2 ^ 16 = n div 256 div 256" "n div 2 ^ 24 = n div 256 div 256 div 256"
      by (simp_all add: div_mult2_eq [symmetric])
    moreover have "n div 256 div 256 div 256 < 256" using n by (simp add: div_mult2_eq [symmetric])
    ultimately show ?thesis by simp
  qed
  have "mk_v4 (v4_octet 0 a) (v4_octet 1 a) (v4_octet 2 a) (v4_octet 3 a)
      = word_of_nat (((n div 2 ^ 24 mod 256 * 256 + n div 2 ^ 16 mod 256) * 256
          + n div 2 ^ 8 mod 256) * 256 + n mod 256)"
    unfolding mk_v4_def oct by (simp del: of_nat_add of_nat_mult)
  also have "\<dots> = word_of_nat n" by (simp only: eq)
  finally show ?thesis by (simp add: n_def)
qed

section \<open>Display\<close>

definition hex_digit :: "nat \<Rightarrow> nat" where
  "hex_digit n = (if n < 10 then 48 + n else 87 + n)"

fun show_hex :: "nat \<Rightarrow> str" where
  "show_hex n = (if n < 16 then [hex_digit n] else show_hex (n div 16) @ [hex_digit (n mod 16)])"

declare show_hex.simps [simp del]

definition show_v4 :: "32 word \<Rightarrow> str" where
  "show_v4 a = show_nat (v4_octet 0 a) @ [46] @ show_nat (v4_octet 1 a) @ [46]
     @ show_nat (v4_octet 2 a) @ [46] @ show_nat (v4_octet 3 a)"

fun join_colon :: "str list \<Rightarrow> str" where
  "join_colon [] = []"
| "join_colon [s] = s"
| "join_colon (s # ss) = s @ [58] @ join_colon ss"

text \<open>The longest run of zero segments, the first of the longest ones: (start, length).\<close>

fun zero_runs :: "nat \<Rightarrow> nat list \<Rightarrow> nat \<times> nat \<Rightarrow> nat \<times> nat \<Rightarrow> nat \<times> nat" where
  "zero_runs i [] longest cur = longest"
| "zero_runs i (g # gs) longest cur =
     (if g = 0 then
        let cur' = (if snd cur = 0 then (i, 1) else (fst cur, Suc (snd cur)))
        in zero_runs (Suc i) gs (if snd cur' > snd longest then cur' else longest) cur'
      else zero_runs (Suc i) gs longest (0, 0))"

definition show_v6 :: "128 word \<Rightarrow> str" where
  "show_v6 a =
     (let gs = map (\<lambda>i. v6_segment i a) [0..<8]
      in if take 6 gs = [0, 0, 0, 0, 0, 65535] then lit ''::ffff:'' @ show_v4 (ucast a)
         else let (start, len) = zero_runs 0 gs (0, 0) (0, 0)
              in if len > 1
                 then join_colon (map show_hex (take start gs)) @ lit ''::''
                        @ join_colon (map show_hex (drop (start + len) gs))
                 else join_colon (map show_hex gs))"

fun show_socket :: "socket_addr \<Rightarrow> str" where
  "show_socket (SockV4 a p) = show_v4 a @ [58] @ show_nat (unat p)"
| "show_socket (SockV6 a s p) =
     [91] @ show_v6 a @ (if s = 0 then [] else [37] @ show_nat (unat s)) @ [93, 58]
       @ show_nat (unat p)"

section \<open>Parsing\<close>

definition to_digit :: "nat \<Rightarrow> nat \<Rightarrow> nat option" where
  "to_digit radix c =
     (let d = (if is_ascii_digit c then Some (c - 48)
               else if 97 \<le> c \<and> c \<le> 122 then Some (c - 87)
               else if 65 \<le> c \<and> c \<le> 90 then Some (c - 55) else None)
      in case d of Some v \<Rightarrow> if v < radix then Some v else None | None \<Rightarrow> None)"

text \<open>\<open>Parser::read_number\<close>: radix, maximal digit count, whether a zero prefix is allowed, and
  the greatest value the result type holds.\<close>

definition read_number :: "nat \<Rightarrow> nat option \<Rightarrow> bool \<Rightarrow> nat \<Rightarrow> str \<Rightarrow> (nat \<times> str) option" where
  "read_number radix max_digits allow_zero max_val s =
     (let ds = takeWhile (\<lambda>c. to_digit radix c \<noteq> None) s;
          v = foldl (\<lambda>v c. radix * v + the (to_digit radix c)) 0 ds
      in if ds = [] then None
         else if (case max_digits of Some m \<Rightarrow> length ds > m | None \<Rightarrow> False) then None
         else if \<not> allow_zero \<and> hd ds = 48 \<and> length ds > 1 then None
         else if v > max_val then None
         else Some (v, drop (length ds) s))"

fun read_char :: "nat \<Rightarrow> str \<Rightarrow> str option" where
  "read_char d [] = None"
| "read_char d (c # cs) = (if c = d then Some cs else None)"

definition read_octet :: "str \<Rightarrow> (nat \<times> str) option" where
  "read_octet = read_number 10 (Some 3) False 255"

definition read_v4 :: "str \<Rightarrow> (32 word \<times> str) option" where
  "read_v4 s = do {
     (a, s) \<leftarrow> read_octet s; s \<leftarrow> read_char 46 s;
     (b, s) \<leftarrow> read_octet s; s \<leftarrow> read_char 46 s;
     (c, s) \<leftarrow> read_octet s; s \<leftarrow> read_char 46 s;
     (d, s) \<leftarrow> read_octet s;
     Some (mk_v4 a b c d, s) }"

definition read_sep :: "nat \<Rightarrow> (str \<Rightarrow> ('a \<times> str) option) \<Rightarrow> str \<Rightarrow> ('a \<times> str) option" where
  "read_sep i p s = (if i = 0 then p s else Option.bind (read_char 58 s) p)"

text \<open>\<open>read_groups k i s\<close> reads up to \<open>k\<close> more groups, \<open>i\<close> of them already read; a dotted quad
  may stand for the last two.\<close>

fun read_groups :: "nat \<Rightarrow> nat \<Rightarrow> str \<Rightarrow> nat list \<times> bool \<times> str" where
  "read_groups 0 i s = ([], False, s)"
| "read_groups (Suc k) i s =
     (case (if k \<ge> 1 then read_sep i read_v4 s else None) of
        Some (v4, s') \<Rightarrow> ([unat v4 div 65536, unat v4 mod 65536], True, s')
      | None \<Rightarrow>
          (case read_sep i (read_number 16 (Some 4) True 65535) s of
             None \<Rightarrow> ([], False, s)
           | Some (g, s') \<Rightarrow>
               (let (gs, v4, s'') = read_groups k (Suc i) s' in (g # gs, v4, s''))))"

definition mk_v6 :: "nat list \<Rightarrow> 128 word" where
  "mk_v6 gs = word_of_nat (foldl (\<lambda>v g. v * 65536 + g) 0 gs)"

definition read_v6 :: "str \<Rightarrow> (128 word \<times> str) option" where
  "read_v6 s =
     (let (head, v4, s1) = read_groups 8 0 s
      in if length head = 8 then Some (mk_v6 head, s1)
         else if v4 then None
         else do {
           s2 \<leftarrow> read_char 58 s1; s3 \<leftarrow> read_char 58 s2;
           let (tail, _, s4) = read_groups (7 - length head) 0 s3;
           Some (mk_v6 (head @ replicate (8 - length head - length tail) 0 @ tail), s4) })"

definition read_port :: "str \<Rightarrow> (nat \<times> str) option" where
  "read_port s = Option.bind (read_char 58 s) (read_number 10 None True 65535)"

definition read_scope :: "str \<Rightarrow> (nat \<times> str) option" where
  "read_scope s = Option.bind (read_char 37 s) (read_number 10 None True (2 ^ 32 - 1))"

definition read_socket_v4 :: "str \<Rightarrow> (socket_addr \<times> str) option" where
  "read_socket_v4 s = do {
     (a, s) \<leftarrow> read_v4 s; (p, s) \<leftarrow> read_port s; Some (SockV4 a (word_of_nat p), s) }"

definition read_socket_v6 :: "str \<Rightarrow> (socket_addr \<times> str) option" where
  "read_socket_v6 s = do {
     s \<leftarrow> read_char 91 s; (a, s) \<leftarrow> read_v6 s;
     let (sc, s) = (case read_scope s of Some r \<Rightarrow> r | None \<Rightarrow> (0, s));
     s \<leftarrow> read_char 93 s; (p, s) \<leftarrow> read_port s;
     Some (SockV6 a (word_of_nat sc) (word_of_nat p), s) }"

definition parse_socket :: "str \<Rightarrow> socket_addr option" where
  "parse_socket s =
     (case (case read_socket_v4 s of Some r \<Rightarrow> Some r | None \<Rightarrow> read_socket_v6 s) of
        Some (sa, []) \<Rightarrow> Some sa
      | _ \<Rightarrow> None)"

lemmas socket_text_defs =
  parse_socket_def read_socket_v4_def read_socket_v6_def read_v4_def read_v6_def read_octet_def
  read_port_def read_scope_def read_sep_def read_number_def to_digit_def is_ascii_digit_def
  mk_v4_def mk_v6_def

section \<open>The text form of a V4 socket address round-trips\<close>

lemma to_digit_dec: "to_digit 10 c = (if is_ascii_digit c then Some (c - 48) else None)"
  by (auto simp: to_digit_def is_ascii_digit_def Let_def)

lemma foldl_digits:
  "list_all is_ascii_digit ds \<Longrightarrow>
     foldl (\<lambda>v c. 10 * v + the (to_digit 10 c)) v ds = foldl (\<lambda>v c. 10 * v + (c - 48)) v ds"
  by (induction ds arbitrary: v) (auto simp: to_digit_dec)

lemma show_nat_all_digits: "list_all is_ascii_digit (show_nat n)"
  using show_nat_digits by (auto simp: list_all_iff is_ascii_digit_def)

lemma show_nat_no_zero_prefix: "length (show_nat n) > 1 \<Longrightarrow> hd (show_nat n) \<noteq> 48"
proof (induction n rule: show_nat.induct)
  case (1 n)
  show ?case
  proof (cases "n < 10")
    case True
    with "1.prems" show ?thesis by (simp add: show_nat.simps)
  next
    case False
    then have eq: "show_nat n = show_nat (n div 10) @ [48 + n mod 10]"
      by (subst show_nat.simps) simp
    show ?thesis
    proof (cases "n div 10 < 10")
      case True
      with False show ?thesis unfolding eq by (subst show_nat.simps) auto
    next
      case big: False
      then have "length (show_nat (n div 10)) > 1"
        by (subst show_nat.simps) (simp add: Suc_lessI)
      with "1.IH" [OF False] show ?thesis unfolding eq by simp
    qed
  qed
qed

lemma length_show_nat_le: "n < 10 ^ Suc k \<Longrightarrow> length (show_nat n) \<le> Suc k"
proof (induction k arbitrary: n)
  case 0
  then show ?case by (subst show_nat.simps) simp
next
  case (Suc k)
  then have "n div 10 < 10 ^ Suc k" by (simp add: less_mult_imp_div_less)
  from Suc.IH [OF this] show ?case by (subst show_nat.simps) simp
qed

lemma read_number_show_nat:
  assumes "n \<le> mx" and "\<And>m. md = Some m \<Longrightarrow> length (show_nat n) \<le> m"
    and "rest = [] \<or> \<not> is_ascii_digit (hd rest)"
  shows "read_number 10 md az mx (show_nat n @ rest) = Some (n, rest)"
proof -
  let ?P = "\<lambda>c. to_digit 10 c \<noteq> None"
  have all: "\<And>c. c \<in> set (show_nat n) \<Longrightarrow> ?P c"
    using show_nat_all_digits [of n] by (auto simp: list_all_iff to_digit_dec)
  have tw: "takeWhile ?P (show_nat n @ rest) = show_nat n"
    using assms(3) all by (subst takeWhile_append2) (cases rest; auto simp: to_digit_dec)+
  have v: "foldl (\<lambda>v c. 10 * v + the (to_digit 10 c)) 0 (show_nat n) = n"
    using foldl_digits [OF show_nat_all_digits] digits_value_show_nat by (simp add: digits_value_def)
  show ?thesis
    unfolding read_number_def Let_def tw v
    using assms(1,2) show_nat_no_zero_prefix [of n] by (auto split: option.splits simp: not_less)
qed

lemma v4_octet_less: "v4_octet i a < 256"
  by (simp add: v4_octet_def)

lemma read_octet_show:
  "rest = [] \<or> \<not> is_ascii_digit (hd rest) \<Longrightarrow>
     read_octet (show_nat (v4_octet i a) @ rest) = Some (v4_octet i a, rest)"
  unfolding read_octet_def
  using v4_octet_less [of i a] length_show_nat_le [of "v4_octet i a" 2]
  by (intro read_number_show_nat) auto

lemma read_v4_show:
  assumes "rest = [] \<or> \<not> is_ascii_digit (hd rest)"
  shows "read_v4 (show_v4 a @ rest) = Some (a, rest)"
proof -
  have dot: "\<not> is_ascii_digit 46" by (simp add: is_ascii_digit_def)
  have r3: "read_octet (show_nat (v4_octet 3 a) @ rest) = Some (v4_octet 3 a, rest)"
    using assms by (rule read_octet_show)
  show ?thesis
    unfolding read_v4_def show_v4_def
    by (simp add: read_octet_show dot r3 v4_octets_rebuild [simplified])
qed

lemma parse_show_socket_v4: "parse_socket (show_socket (SockV4 a p)) = Some (SockV4 a p)"
proof -
  have p: "unat p \<le> 65535"
    using unsigned_less [where 'a = nat, of p] by simp
  have port: "read_number 10 None True 65535 (show_nat (unat p)) = Some (unat p, [])"
    using read_number_show_nat [of "unat p" 65535 None "[]" True] p by simp
  have "read_v4 (show_v4 a @ 58 # show_nat (unat p)) = Some (a, 58 # show_nat (unat p))"
    by (rule read_v4_show) (simp add: is_ascii_digit_def)
  then show ?thesis
    by (simp add: parse_socket_def read_socket_v4_def read_port_def port)
qed

end
