(* ===== verification/RelayHub.thy ===== *)
theory RelayHub
  imports Protocol Net
begin

unbundle bit_operations_syntax

text \<open>
  \<^verbatim>\<open>relay/src/hub.rs\<close>: per group the cache of recent clips and the rendezvous presence by egress
  address, the snapshots pushed to the connections of an egress, and the checks of advertised
  addresses. Times are milliseconds on the monotonic clock. A mailbox send is an element of the
  list of deliveries an operation returns. The iteration order of the hash maps, which Rust
  leaves open, is the order of the association lists.
\<close>

definition RECENT_CAP :: nat where "RECENT_CAP = 3"
definition RECENT_TTL :: nat where "RECENT_TTL = 12 * 60 * 60 * 1000"
definition BROADCAST_CAP :: nat where "BROADCAST_CAP = 32"
definition MAX_LAN_CANDIDATES :: nat where "MAX_LAN_CANDIDATES = 32"

record rv_conn =
  rv_device_id :: str
  rv_device_name :: str
  rv_candidates :: "str list"
  rv_networks :: "lan_candidate list"

record hub_group =
  gr_cache :: "(nat \<times> recent_clip) list"
  gr_presence :: "(ip_addr \<times> (nat \<times> rv_conn) list) list"

record hub =
  hub_inner :: "(str \<times> hub_group) list"
  hub_conn_seq :: nat

definition hub_new :: hub where
  "hub_new = \<lparr>hub_inner = [], hub_conn_seq = 1\<rparr>"

definition next_conn_id :: "hub \<Rightarrow> nat \<times> hub" where
  "next_conn_id h = (hub_conn_seq h, h\<lparr>hub_conn_seq := Suc (hub_conn_seq h)\<rparr>)"

definition empty_group :: hub_group where
  "empty_group = \<lparr>gr_cache = [], gr_presence = []\<rparr>"

text \<open>\<open>entry\<close>: the group, created on first touch.\<close>

definition hub_entry :: "str \<Rightarrow> hub \<Rightarrow> hub_group" where
  "hub_entry g h = (case map_of (hub_inner h) g of Some gr \<Rightarrow> gr | None \<Rightarrow> empty_group)"

definition hub_put :: "str \<Rightarrow> hub_group \<Rightarrow> hub \<Rightarrow> hub" where
  "hub_put g gr h = h\<lparr>hub_inner := AList.update g gr (hub_inner h)\<rparr>"

section \<open>Recent clips\<close>

definition unexpired :: "nat \<Rightarrow> nat \<times> recent_clip \<Rightarrow> bool" where
  "unexpired now e \<longleftrightarrow> now - fst e < RECENT_TTL"

definition cache_push :: "nat \<times> recent_clip \<Rightarrow> (nat \<times> recent_clip) list \<Rightarrow> (nat \<times> recent_clip) list" where
  "cache_push e cache = (if length cache = RECENT_CAP then tl cache else cache) @ [e]"

definition hub_publish :: "nat \<Rightarrow> str \<Rightarrow> recent_clip \<Rightarrow> hub \<Rightarrow> hub" where
  "hub_publish now g clip h =
     (let gr = hub_entry g h;
          cache = filter (unexpired now) (gr_cache gr)
      in hub_put g (gr\<lparr>gr_cache := cache_push (now, clip) cache\<rparr>) h)"

definition hub_recent :: "nat \<Rightarrow> str \<Rightarrow> hub \<Rightarrow> recent_clip list \<times> hub" where
  "hub_recent now g h =
     (let gr = hub_entry g h;
          cache = filter (unexpired now) (gr_cache gr)
      in (map snd cache, hub_put g (gr\<lparr>gr_cache := cache\<rparr>) h))"

section \<open>Addresses\<close>

fun is_relay_lan_candidate_ip :: "ip_addr \<Rightarrow> bool" where
  "is_relay_lan_candidate_ip (V4 a) = (v4_is_private a \<or> v4_is_link_local a)"
| "is_relay_lan_candidate_ip (V6 a) = (v6_octet 0 a AND 0xfe = 0xfc)"

fun valid_prefix_len :: "ip_addr \<Rightarrow> nat \<Rightarrow> bool" where
  "valid_prefix_len (V4 a) p = (p \<le> 32)"
| "valid_prefix_len (V6 a) p = (p \<le> 128)"

fun ip_in_prefix :: "ip_addr \<Rightarrow> ip_addr \<Rightarrow> nat \<Rightarrow> bool" where
  "ip_in_prefix (V4 t) (V4 n) p =
     (if p \<le> 32
      then (let mask = (if p = 0 then 0 else push_bit (32 - p) (- 1)) in t AND mask = n AND mask)
      else False)"
| "ip_in_prefix (V6 t) (V6 n) p =
     (if p \<le> 128
      then (let mask = (if p = 0 then 0 else push_bit (128 - p) (- 1)) in t AND mask = n AND mask)
      else False)"
| "ip_in_prefix (V4 t) (V6 n) p = False"
| "ip_in_prefix (V6 t) (V4 n) p = False"

definition mutual_subnet :: "lan_candidate \<Rightarrow> lan_candidate \<Rightarrow> bool" where
  "mutual_subnet a b =
     (case parse_socket (lc_addr a) of
        None \<Rightarrow> False
      | Some a_addr \<Rightarrow>
          (case parse_socket (lc_addr b) of
             None \<Rightarrow> False
           | Some b_addr \<Rightarrow>
               ip_in_prefix (sock_ip b_addr) (sock_ip a_addr) (lc_prefix_len a)
               \<and> ip_in_prefix (sock_ip a_addr) (sock_ip b_addr) (lc_prefix_len b)))"

text \<open>The two loops of \<open>sanitize_lan_advertise\<close>; the sets of seen addresses are those of the
  accumulated lists, because an address enters both in the same step.\<close>

fun sanitize_candidates :: "str list \<Rightarrow> str list \<Rightarrow> str list" where
  "sanitize_candidates acc [] = acc"
| "sanitize_candidates acc (candidate # rest) =
     (if length acc \<ge> MAX_LAN_CANDIDATES then acc
      else case parse_socket candidate of
        None \<Rightarrow> sanitize_candidates acc rest
      | Some addr \<Rightarrow>
          if \<not> is_relay_lan_candidate_ip (sock_ip addr) then sanitize_candidates acc rest
          else
            (let normalized = show_socket addr
             in if normalized \<in> set acc then sanitize_candidates acc rest
                else sanitize_candidates (acc @ [normalized]) rest))"

fun sanitize_networks :: "str list \<Rightarrow> lan_candidate list \<Rightarrow> lan_candidate list \<Rightarrow> lan_candidate list" where
  "sanitize_networks accepted acc [] = acc"
| "sanitize_networks accepted acc (candidate # rest) =
     (if length acc \<ge> MAX_LAN_CANDIDATES then acc
      else case parse_socket (lc_addr candidate) of
        None \<Rightarrow> sanitize_networks accepted acc rest
      | Some addr \<Rightarrow>
          (let normalized = show_socket addr
           in if normalized \<notin> set accepted
                 \<or> \<not> valid_prefix_len (sock_ip addr) (lc_prefix_len candidate)
                 \<or> normalized \<in> set (map lc_addr acc)
              then sanitize_networks accepted acc rest
              else sanitize_networks accepted
                     (acc @ [\<lparr>lc_addr = normalized, lc_prefix_len = lc_prefix_len candidate\<rparr>]) rest))"

definition sanitize_lan_advertise ::
  "str list \<Rightarrow> lan_candidate list \<Rightarrow> str list \<times> lan_candidate list" where
  "sanitize_lan_advertise candidates networks =
     (let accepted = sanitize_candidates [] candidates
      in (accepted, sanitize_networks accepted [] networks))"

section \<open>Rendezvous\<close>

definition candidates_for_receiver :: "rv_conn \<Rightarrow> rv_conn \<Rightarrow> str list" where
  "candidates_for_receiver receiver peer =
     (if rv_networks receiver = [] \<or> rv_networks peer = [] then rv_candidates peer
      else fold (\<lambda>candidate out.
             if lc_addr candidate \<in> set (rv_candidates peer)
                \<and> list_ex (\<lambda>r. mutual_subnet r candidate) (rv_networks receiver)
                \<and> lc_addr candidate \<notin> set out
             then out @ [lc_addr candidate] else out) (rv_networks peer) [])"

text \<open>The latest connection of each device other than the receiver: \<open>by_did\<close>.\<close>

definition note_conn :: "nat \<times> rv_conn \<Rightarrow> (str \<times> nat \<times> rv_conn) list \<Rightarrow> (str \<times> nat \<times> rv_conn) list" where
  "note_conn e by_did =
     (case map_of by_did (rv_device_id (snd e)) of
        Some latest \<Rightarrow> if fst e > fst latest then AList.update (rv_device_id (snd e)) e by_did else by_did
      | None \<Rightarrow> AList.update (rv_device_id (snd e)) e by_did)"

definition latest_by_device :: "nat \<Rightarrow> (nat \<times> rv_conn) list \<Rightarrow> (str \<times> nat \<times> rv_conn) list" where
  "latest_by_device cid conns = fold note_conn (filter (\<lambda>(oid, oc). oid \<noteq> cid) conns) []"

definition snapshot_for :: "nat \<Rightarrow> rv_conn \<Rightarrow> (nat \<times> rv_conn) list \<Rightarrow> lan_peer list" where
  "snapshot_for cid c conns =
     List.map_filter (\<lambda>(did, _, peer).
       (let candidates = candidates_for_receiver c peer
        in if candidates \<noteq> []
           then Some \<lparr>lp_device_id = did, lp_device_name = rv_device_name peer, lp_candidates = candidates\<rparr>
           else None)) (latest_by_device cid conns)"

definition push_egress :: "(ip_addr \<times> (nat \<times> rv_conn) list) list \<Rightarrow> ip_addr \<Rightarrow> (nat \<times> lan_peer list) list" where
  "push_egress p egress =
     (case map_of p egress of
        None \<Rightarrow> []
      | Some conns \<Rightarrow> map (\<lambda>(cid, c). (cid, snapshot_for cid c conns)) conns)"

definition rendezvous_upsert ::
  "str \<Rightarrow> ip_addr \<Rightarrow> nat \<Rightarrow> rv_conn \<Rightarrow> hub \<Rightarrow> (nat \<times> lan_peer list) list \<times> hub" where
  "rendezvous_upsert g egress conn_id c h =
     (let gr = hub_entry g h;
          conns = (case map_of (gr_presence gr) egress of Some m \<Rightarrow> m | None \<Rightarrow> []);
          p = AList.update egress (AList.update conn_id c conns) (gr_presence gr)
      in (push_egress p egress, hub_put g (gr\<lparr>gr_presence := p\<rparr>) h))"

definition rendezvous_remove ::
  "str \<Rightarrow> ip_addr \<Rightarrow> nat \<Rightarrow> hub \<Rightarrow> (nat \<times> lan_peer list) list \<times> hub" where
  "rendezvous_remove g egress conn_id h =
     (let gr = hub_entry g h;
          p = (case map_of (gr_presence gr) egress of
                 None \<Rightarrow> gr_presence gr
               | Some conns \<Rightarrow>
                   (let conns' = AList.delete conn_id conns
                    in if conns' = [] then AList.delete egress (gr_presence gr)
                       else AList.update egress conns' (gr_presence gr)))
      in (push_egress p egress, hub_put g (gr\<lparr>gr_presence := p\<rparr>) h))"

lemmas hub_defs [model_defs] =
  hub_entry_def hub_put_def hub_publish_def hub_recent_def rendezvous_upsert_def rendezvous_remove_def

section \<open>The recent cache is the newest three\<close>

interpretation recent_log: bounded_log cache_push RECENT_CAP
proof
  fix xs :: "(nat \<times> recent_clip) list" and x
  assume "length xs \<le> RECENT_CAP"
  then show "suffix (cache_push x xs) (xs @ [x])"
    by (cases xs) (auto simp: cache_push_def suffix_def)
  show "cache_push x xs \<noteq> []" by (simp add: cache_push_def)
  show "length (cache_push x xs) = min RECENT_CAP (Suc (length xs))"
    using \<open>length xs \<le> RECENT_CAP\<close> by (cases xs) (auto simp: cache_push_def RECENT_CAP_def)
qed

definition newest :: "nat \<Rightarrow> 'a list \<Rightarrow> 'a list" where
  "newest n xs = drop (length xs - n) xs"

lemma newest_snoc: "0 < n \<Longrightarrow> newest n (xs @ [x]) = newest (n - 1) xs @ [x]"
  by (cases "length xs < n") (auto simp: newest_def Suc_diff_le)

text \<open>Clips in the order of their times: what has expired is a prefix.\<close>

lemma unexpired_later: "unexpired t e \<Longrightarrow> s \<le> t \<Longrightarrow> unexpired s e"
  by (auto simp: unexpired_def)

lemma filter_unexpired_twice:
  "s \<le> t \<Longrightarrow> filter (unexpired t) (filter (unexpired s) xs) = filter (unexpired t) xs"
  by (induction xs) (auto dest: unexpired_later)

lemma cache_push_newest:
  assumes "sorted (map fst all)"
  shows "cache_push e (filter (unexpired t) (newest RECENT_CAP all))
    = filter (unexpired t) (newest (RECENT_CAP - 1) all) @ [e]"
proof (cases "length all < RECENT_CAP")
  case True
  then have "newest RECENT_CAP all = all" "newest (RECENT_CAP - 1) all = all"
    by (simp_all add: newest_def)
  moreover have "length (filter (unexpired t) all) \<noteq> RECENT_CAP"
    using True length_filter_le [of "unexpired t" all] by linarith
  ultimately show ?thesis by (simp add: cache_push_def)
next
  case False
  then obtain x where split: "newest RECENT_CAP all = x # newest (RECENT_CAP - 1) all"
    and len: "length (newest RECENT_CAP all) = RECENT_CAP"
  proof -
    have "drop (length all - 3) all = all ! (length all - 3) # drop (Suc (length all - 3)) all"
      using False by (intro Cons_nth_drop_Suc [symmetric]) (simp add: RECENT_CAP_def)
    moreover have "Suc (length all - 3) = length all - 2" using False by (simp add: RECENT_CAP_def)
    ultimately show thesis using that False by (simp add: newest_def RECENT_CAP_def)
  qed
  show ?thesis
  proof (cases "unexpired t x")
    case True
    have "sorted (map fst (newest RECENT_CAP all))"
      using assms by (simp add: newest_def drop_map [symmetric] sorted_wrt_drop)
    then have "\<forall>y \<in> set (newest (RECENT_CAP - 1) all). fst x \<le> fst y" by (simp add: split)
    then have "\<forall>y \<in> set (newest (RECENT_CAP - 1) all). unexpired t y"
      using True by (auto simp: unexpired_def)
    then have "filter (unexpired t) (newest RECENT_CAP all) = newest RECENT_CAP all"
      "filter (unexpired t) (newest (RECENT_CAP - 1) all) = newest (RECENT_CAP - 1) all"
      using True by (simp_all add: split)
    then show ?thesis using len by (simp add: cache_push_def split)
  next
    case False
    have "length (filter (unexpired t) (newest (RECENT_CAP - 1) all)) \<le> length (newest (RECENT_CAP - 1) all)"
      by (rule length_filter_le)
    also have "\<dots> < RECENT_CAP" using len by (simp add: split)
    finally show ?thesis using False by (simp add: split cache_push_def)
  qed
qed

lemma hub_entry_put [simp]: "hub_entry g (hub_put g' gr h) = (if g = g' then gr else hub_entry g h)"
  by (simp add: hub_entry_def hub_put_def AList.update_conv')

text \<open>The hub as a machine: every operation that changes it, by one event.\<close>

datatype hub_event =
    HPublish nat str recent_clip
  | HRecent nat str
  | HUpsert nat str ip_addr nat rv_conn
  | HRemove nat str ip_addr nat

fun hub_event_time :: "hub_event \<Rightarrow> nat" where
  "hub_event_time (HPublish t g c) = t"
| "hub_event_time (HRecent t g) = t"
| "hub_event_time (HUpsert t g e i c) = t"
| "hub_event_time (HRemove t g e i) = t"

fun hub_step :: "hub_event \<Rightarrow> hub \<Rightarrow> hub" where
  "hub_step (HPublish t g clip) h = hub_publish t g clip h"
| "hub_step (HRecent t g) h = snd (hub_recent t g h)"
| "hub_step (HUpsert t g egress conn_id c) h = snd (rendezvous_upsert g egress conn_id c h)"
| "hub_step (HRemove t g egress conn_id) h = snd (rendezvous_remove g egress conn_id h)"

text \<open>Everything published to a group, with its time, in order.\<close>

fun published_to :: "str \<Rightarrow> hub_event list \<Rightarrow> (nat \<times> recent_clip) list" where
  "published_to g [] = []"
| "published_to g (HPublish t g' clip # es) =
     (if g' = g then [(t, clip)] else []) @ published_to g es"
| "published_to g (_ # es) = published_to g es"

lemma published_to_append: "published_to g (es @ es') = published_to g es @ published_to g es'"
  by (induction g es rule: published_to.induct) auto

lemma published_to_times: "set (map fst (published_to g es)) \<subseteq> set (map hub_event_time es)"
  by (induction g es rule: published_to.induct) auto

lemma published_to_sorted: "sorted (map hub_event_time es) \<Longrightarrow> sorted (map fst (published_to g es))"
proof (induction g es rule: published_to.induct)
  case (2 g t g' clip es)
  then have "\<forall>x \<in> set (map hub_event_time es). t \<le> x" by simp
  then have "\<forall>x \<in> set (map fst (published_to g es)). t \<le> x"
    using published_to_times by blast
  with 2 show ?case by simp
qed auto

definition cache_ok :: "str \<Rightarrow> hub_event list \<Rightarrow> nat \<Rightarrow> hub \<Rightarrow> bool" where
  "cache_ok g es t h \<longleftrightarrow> (\<exists>s \<le> t. gr_cache (hub_entry g h)
     = filter (unexpired s) (newest RECENT_CAP (published_to g es)))"

lemma cache_ok_retain:
  assumes "cache_ok g es s h" and "s \<le> t"
  shows "filter (unexpired t) (gr_cache (hub_entry g h))
    = filter (unexpired t) (newest RECENT_CAP (published_to g es))"
proof -
  from assms obtain r where "r \<le> t"
    and c: "gr_cache (hub_entry g h) = filter (unexpired r) (newest RECENT_CAP (published_to g es))"
    unfolding cache_ok_def by (meson le_trans)
  then show ?thesis unfolding c by (intro filter_unexpired_twice)
qed

lemma hub_step_cache_ok:
  assumes ok: "cache_ok g es s h" and t: "s \<le> hub_event_time e"
    and "sorted (map hub_event_time es)"
  shows "cache_ok g (es @ [e]) (hub_event_time e) (hub_step e h)"
proof (cases "\<exists>t clip. e = HPublish t g clip")
  case True
  then obtain t clip where e: "e = HPublish t g clip" by blast
  have "0 < RECENT_CAP" "unexpired t (t, clip)"
    by (simp_all add: RECENT_CAP_def unexpired_def RECENT_TTL_def)
  then have "filter (unexpired t) (newest RECENT_CAP (published_to g es @ [(t, clip)]))
      = filter (unexpired t) (newest (RECENT_CAP - 1) (published_to g es)) @ [(t, clip)]"
    by (simp add: newest_snoc)
  also have "\<dots> = cache_push (t, clip) (filter (unexpired t) (gr_cache (hub_entry g h)))"
    using cache_ok_retain [OF ok, of t] cache_push_newest [OF published_to_sorted [OF assms(3)]] t e by simp
  finally show ?thesis
    by (auto simp: cache_ok_def e hub_publish_def Let_def published_to_append)
next
  case False
  then have pub: "published_to g (es @ [e]) = published_to g es"
    by (cases e) (auto simp: published_to_append)
  show ?thesis
  proof (cases "\<exists>t. e = HRecent t g")
    case True
    then show ?thesis
      using cache_ok_retain [OF ok] t pub by (auto simp: cache_ok_def hub_recent_def Let_def)
  next
    case other: False
    then have "gr_cache (hub_entry g (hub_step e h)) = gr_cache (hub_entry g h)"
      using False by (cases e) (auto simp: hub_publish_def hub_recent_def rendezvous_upsert_def rendezvous_remove_def Let_def)
    then show ?thesis using ok t pub unfolding cache_ok_def by (metis le_trans)
  qed
qed

lemma hub_run_cache_ok:
  "sorted (map hub_event_time es) \<Longrightarrow> \<forall>x \<in> set (map hub_event_time es). x \<le> t \<Longrightarrow>
     cache_ok g es t (fold hub_step es hub_new)"
proof (induction es arbitrary: t rule: rev_induct)
  case Nil
  show ?case by (auto simp: cache_ok_def hub_entry_def hub_new_def empty_group_def newest_def)
next
  case (snoc e es)
  have s: "sorted (map hub_event_time es)" "\<forall>x \<in> set (map hub_event_time es). x \<le> hub_event_time e"
    using snoc.prems(1) by (auto simp: sorted_append)
  from snoc.IH [OF s] have "cache_ok g es (hub_event_time e) (fold hub_step es hub_new)" .
  from hub_step_cache_ok [OF this le_refl s(1)] snoc.prems(2) show ?case
    by (auto simp: cache_ok_def intro: le_trans)
qed

section \<open>Presence\<close>

text \<open>Distinct keys at every level, and no egress without a connection.\<close>

definition presence_inv :: "(ip_addr \<times> (nat \<times> rv_conn) list) list \<Rightarrow> bool" where
  "presence_inv p \<longleftrightarrow> wf_map p \<and> (\<forall>(e, conns) \<in> set p. wf_map conns \<and> conns \<noteq> [])"

definition hub_inv :: "hub \<Rightarrow> bool" where
  "hub_inv h \<longleftrightarrow> wf_map (hub_inner h) \<and> (\<forall>(g, gr) \<in> set (hub_inner h).
     presence_inv (gr_presence gr) \<and> length (gr_cache gr) \<le> RECENT_CAP)"

lemma hub_entry_inv:
  "hub_inv h \<Longrightarrow> presence_inv (gr_presence (hub_entry g h)) \<and> length (gr_cache (hub_entry g h)) \<le> RECENT_CAP"
  by (fastforce simp: hub_entry_def hub_inv_def empty_group_def presence_inv_def
      split: option.splits dest: map_of_SomeD)

lemma hub_put_inv:
  assumes "hub_inv h" and "presence_inv (gr_presence gr)" and "length (gr_cache gr) \<le> RECENT_CAP"
  shows "hub_inv (hub_put g gr h)"
proof -
  have "set (AList.update g gr m) \<subseteq> insert (g, gr) (set m)" for m :: "(str \<times> hub_group) list"
    by (induction m) auto
  with assms show ?thesis by (fastforce simp: hub_inv_def hub_put_def)
qed

lemma presence_update:
  assumes "presence_inv p" and "wf_map conns" and "conns \<noteq> []"
  shows "presence_inv (AList.update e conns p)"
proof -
  have "set (AList.update e conns m) \<subseteq> insert (e, conns) (set m)" for m :: "(ip_addr \<times> (nat \<times> rv_conn) list) list"
    by (induction m) auto
  with assms show ?thesis by (fastforce simp: presence_inv_def)
qed

lemma presence_lookup: "presence_inv p \<Longrightarrow> map_of p e = Some conns \<Longrightarrow> wf_map conns \<and> conns \<noteq> []"
  by (auto simp: presence_inv_def dest: map_of_SomeD)

lemma update_not_nil [simp]: "AList.update k v m \<noteq> []"
  by (cases m) auto

lemma length_cache_push: "length xs \<le> RECENT_CAP \<Longrightarrow> length (cache_push x xs) \<le> RECENT_CAP"
  by (simp add: recent_log.push_cap)

lemma hub_step_inv: "hub_inv h \<Longrightarrow> hub_inv (hub_step e h)"
proof (cases e)
  case (HPublish t g clip)
  assume inv: "hub_inv h"
  have "length (filter (unexpired t) (gr_cache (hub_entry g h))) \<le> RECENT_CAP"
    using hub_entry_inv [OF inv] length_filter_le le_trans by blast
  then show ?thesis
    using HPublish hub_entry_inv [OF inv] by (auto simp: hub_publish_def Let_def intro!: hub_put_inv inv length_cache_push)
next
  case (HRecent t g)
  assume inv: "hub_inv h"
  have "length (filter (unexpired t) (gr_cache (hub_entry g h))) \<le> RECENT_CAP"
    using hub_entry_inv [OF inv] length_filter_le le_trans by blast
  then show ?thesis
    using HRecent hub_entry_inv [OF inv] by (auto simp: hub_recent_def Let_def intro!: hub_put_inv inv)
next
  case (HUpsert t g egress conn_id c)
  assume inv: "hub_inv h"
  have "presence_inv (AList.update egress
      (AList.update conn_id c (case map_of (gr_presence (hub_entry g h)) egress of Some m \<Rightarrow> m | None \<Rightarrow> []))
      (gr_presence (hub_entry g h)))"
    using hub_entry_inv [OF inv, of g] presence_lookup
    by (intro presence_update) (auto split: option.splits)
  then show ?thesis
    using HUpsert hub_entry_inv [OF inv, of g] by (auto simp: rendezvous_upsert_def Let_def intro!: hub_put_inv inv)
next
  case (HRemove t g egress conn_id)
  assume inv: "hub_inv h"
  let ?p = "gr_presence (hub_entry g h)"
  have p: "presence_inv ?p" using hub_entry_inv [OF inv] by blast
  have "set (AList.delete egress ?p) \<subseteq> set ?p" by (auto simp: AList.delete_eq)
  then have del: "presence_inv (AList.delete egress ?p)"
    using p unfolding presence_inv_def by (meson subsetD wf_map_delete)
  have "presence_inv (case map_of ?p egress of None \<Rightarrow> ?p
     | Some conns \<Rightarrow> (let conns' = AList.delete conn_id conns
         in if conns' = [] then AList.delete egress ?p else AList.update egress conns' ?p))"
    using p del presence_lookup [OF p] by (auto simp: Let_def intro!: presence_update split: option.splits)
  then show ?thesis
    using HRemove hub_entry_inv [OF inv, of g] by (auto simp: rendezvous_remove_def Let_def intro!: hub_put_inv inv)
qed

lemma hub_inv_new: "hub_inv hub_new"
  by (simp add: hub_inv_def hub_new_def)

interpretation hub_machine: machine hub_step hub_inv
  by unfold_locales (rule hub_step_inv)

section \<open>Snapshots\<close>

text \<open>\<open>latest_of did e conns\<close>: e is the connection with the greatest id that device did holds.\<close>

definition latest_of :: "str \<Rightarrow> nat \<times> rv_conn \<Rightarrow> (nat \<times> rv_conn) list \<Rightarrow> bool" where
  "latest_of did e conns \<longleftrightarrow>
     e \<in> set conns \<and> rv_device_id (snd e) = did
     \<and> (\<forall>e' \<in> set conns. rv_device_id (snd e') = did \<longrightarrow> fst e' \<le> fst e)"

lemma note_conn_lookup:
  "map_of (note_conn e m) did =
     (if did = rv_device_id (snd e)
      then (case map_of m did of
              Some latest \<Rightarrow> if fst e > fst latest then Some e else Some latest
            | None \<Rightarrow> Some e)
      else map_of m did)"
  by (auto simp: note_conn_def AList.update_conv' split: option.splits)

lemma fold_note_conn:
  "case map_of (fold note_conn conns []) did of
     Some e \<Rightarrow> latest_of did e conns
   | None \<Rightarrow> \<forall>e \<in> set conns. rv_device_id (snd e) \<noteq> did"
proof (induction conns rule: rev_induct)
  case (snoc e conns)
  then show ?case
    by (auto simp: note_conn_lookup latest_of_def split: option.splits if_splits)
qed simp

lemma wf_latest: "wf_map (latest_by_device cid conns)"
proof -
  have "wf_map m \<Longrightarrow> wf_map (fold note_conn es m)" for es m
    by (induction es arbitrary: m) (auto simp: note_conn_def split: option.splits)
  then show ?thesis by (simp add: latest_by_device_def)
qed

lemma latest_by_device_iff:
  assumes "wf_map conns"
  shows "(did, e) \<in> set (latest_by_device cid conns)
     \<longleftrightarrow> latest_of did e (filter (\<lambda>(oid, oc). oid \<noteq> cid) conns)"
proof -
  let ?cs = "filter (\<lambda>(oid, oc). oid \<noteq> cid) conns"
  have wf: "wf_map ?cs" using assms by (simp add: distinct_map_filter)
  have "(did, e) \<in> set (latest_by_device cid conns) \<longleftrightarrow> map_of (fold note_conn ?cs []) did = Some e"
    using wf_latest by (simp add: map_of_eq_Some_iff flip: latest_by_device_def)
  also have "\<dots> \<longleftrightarrow> latest_of did e ?cs"
  proof
    assume "map_of (fold note_conn ?cs []) did = Some e"
    then show "latest_of did e ?cs" using fold_note_conn [of ?cs did] by simp
  next
    assume l: "latest_of did e ?cs"
    then obtain e' where e': "map_of (fold note_conn ?cs []) did = Some e'" "latest_of did e' ?cs"
      using fold_note_conn [of ?cs did] by (auto simp: latest_of_def split: option.splits)
    have "fst e \<le> fst e'" "fst e' \<le> fst e"
      using l e'(2) unfolding latest_of_def by blast+
    then have "fst e = fst e'" by simp
    then have "e = e'"
      using l e'(2) eq_key_imp_eq_value [OF wf, of "fst e" "snd e" "snd e'"]
      by (auto simp: latest_of_def prod_eq_iff)
    with e' show "map_of (fold note_conn ?cs []) did = Some e" by simp
  qed
  finally show ?thesis .
qed

lemma fold_candidates:
  "set (fold (\<lambda>c out. if P c \<and> f c \<notin> set out then out @ [f c] else out) cs acc)
     = set acc \<union> f ` {c \<in> set cs. P c}"
  by (induction cs arbitrary: acc) auto

lemma fold_candidates_distinct:
  "distinct acc \<Longrightarrow> distinct (fold (\<lambda>c out. if P c \<and> f c \<notin> set out then out @ [f c] else out) cs acc)"
  by (induction cs arbitrary: acc) auto

lemma set_map_filter_iff: "y \<in> set (List.map_filter f xs) \<longleftrightarrow> (\<exists>x \<in> set xs. f x = Some y)"
  by (induction xs) (auto simp: List.map_filter_simps split: option.splits)

section \<open>The properties\<close>

text \<open>
  C13: Catch-up. After any interleaving of publishes, fetches and rendezvous operations on any
  groups, in the order of the clock, a fetch returns exactly the newest three clips that were ever
  published to that group, less those older than twelve hours, oldest first.
\<close>

theorem hub_recent_newest:
  assumes "sorted (map hub_event_time es)" and "\<forall>x \<in> set (map hub_event_time es). x \<le> now"
  shows "fst (hub_recent now g (fold hub_step es hub_new))
    = map snd (filter (unexpired now) (newest 3 (published_to g es)))"
  using cache_ok_retain [OF hub_run_cache_ok [OF assms] le_refl]
  by (simp add: hub_recent_def Let_def RECENT_CAP_def)

theorem hub_recent_newest_witness:
  "\<exists>c1 c2 c3 c4 c5. distinct [c1, c2, c3, c4, c5] \<and>
     fst (hub_recent (RECENT_TTL + 3) [1] (fold hub_step
       [HPublish 1 [1] c1, HPublish 2 [1] c2, HPublish 3 [2] c5, HPublish 3 [1] c3, HPublish 7 [1] c4] hub_new))
     = [c4]"
proof -
  let ?c = "\<lambda>n. \<lparr>rc_ciphertext = [], rc_nonce = [], rc_ts = n, rc_sender = []\<rparr>"
  let ?es = "[HPublish 1 [1] (?c 1), HPublish 2 [1] (?c 2), HPublish 3 [2] (?c 5), HPublish 3 [1] (?c 3),
     HPublish 7 [1] (?c 4)]"
  have "fst (hub_recent (RECENT_TTL + 3) [1] (fold hub_step ?es hub_new))
      = map snd (filter (unexpired (RECENT_TTL + 3)) (newest 3 (published_to [1] ?es)))"
    by (rule hub_recent_newest) (simp_all add: RECENT_TTL_def)
  also have "\<dots> = [?c 4]" by (simp add: newest_def unexpired_def RECENT_TTL_def)
  finally have "fst (hub_recent (RECENT_TTL + 3) [1] (fold hub_step ?es hub_new)) = [?c 4]" .
  then show ?thesis
    by (intro exI [of _ "?c 1"] exI [of _ "?c 2"] exI [of _ "?c 3"] exI [of _ "?c 4"] exI [of _ "?c 5"]) simp
qed



text \<open>What the relay may keep: an address in its own notation, and a network on a kept address.\<close>

definition relay_addr_text :: "str \<Rightarrow> bool" where
  "relay_addr_text x \<longleftrightarrow> (\<exists>addr. x = show_socket addr \<and> is_relay_lan_candidate_ip (sock_ip addr))"

definition network_text :: "lan_candidate \<Rightarrow> bool" where
  "network_text n \<longleftrightarrow>
     (\<exists>addr. lc_addr n = show_socket addr \<and> valid_prefix_len (sock_ip addr) (lc_prefix_len n))"

lemma relay_addr_textI:
  "is_relay_lan_candidate_ip (sock_ip addr) \<Longrightarrow> relay_addr_text (show_socket addr)"
  by (auto simp: relay_addr_text_def)

lemma network_textI:
  "valid_prefix_len (sock_ip addr) p \<Longrightarrow> network_text \<lparr>lc_addr = show_socket addr, lc_prefix_len = p\<rparr>"
  by (auto simp: network_text_def)

lemma sanitize_candidates_spec:
  "length acc \<le> MAX_LAN_CANDIDATES \<Longrightarrow> distinct acc \<Longrightarrow> list_all relay_addr_text acc \<Longrightarrow>
     length (sanitize_candidates acc cs) \<le> MAX_LAN_CANDIDATES \<and> distinct (sanitize_candidates acc cs)
     \<and> list_all relay_addr_text (sanitize_candidates acc cs)"
proof (induction acc cs rule: sanitize_candidates.induct)
  case (2 acc candidate rest)
  then show ?case
    by (auto simp: Let_def relay_addr_textI split: option.splits)
qed simp

lemma sanitize_networks_spec:
  "length acc \<le> MAX_LAN_CANDIDATES \<Longrightarrow> distinct (map lc_addr acc) \<Longrightarrow> list_all network_text acc \<Longrightarrow>
     set (map lc_addr acc) \<subseteq> set accepted \<Longrightarrow>
     length (sanitize_networks accepted acc ns) \<le> MAX_LAN_CANDIDATES
     \<and> distinct (map lc_addr (sanitize_networks accepted acc ns))
     \<and> list_all network_text (sanitize_networks accepted acc ns)
     \<and> set (map lc_addr (sanitize_networks accepted acc ns)) \<subseteq> set accepted"
proof (induction accepted acc ns rule: sanitize_networks.induct)
  case (2 accepted acc candidate rest)
  then show ?case
    by (auto simp: Let_def network_textI split: option.splits)
qed simp


text \<open>
  Subnets. Two addresses match under a prefix length exactly when they are of one family, the
  length is one the family allows, and their leading bits, as many as the length says, are equal;
  the test the relay makes between two advertised networks is symmetric.
\<close>

lemma mask_eq_iff:
  fixes t n :: "'a :: len word"
  assumes "p \<le> LENGTH('a)"
  shows "t AND (if p = 0 then 0 else push_bit (LENGTH('a) - p) (- 1))
       = n AND (if p = 0 then 0 else push_bit (LENGTH('a) - p) (- 1))
     \<longleftrightarrow> drop_bit (LENGTH('a) - p) t = drop_bit (LENGTH('a) - p) n"
proof -
  let ?k = "LENGTH('a) - p"
  have far: "\<not> bit w (?k + j)" if "\<not> j < LENGTH('a)" for w :: "'a word" and j
    using bit_imp_le_length [of w "?k + j"] that by linarith
  have drop: "drop_bit ?k t = drop_bit ?k n \<longleftrightarrow> (\<forall>j. bit t (?k + j) = bit n (?k + j))"
    by (simp add: bit_eq_iff bit_simps) (use far in blast)
  have out: "\<not> bit w (LENGTH('a) + j)" for w :: "'a word" and j
    using bit_imp_le_length by fastforce
  show ?thesis
  proof (cases "p = 0")
    case True
    then show ?thesis unfolding drop by (simp add: out)
  next
    case False
    have "t AND push_bit ?k (- 1) = n AND push_bit ?k (- 1)
        \<longleftrightarrow> (\<forall>i. ?k \<le> i \<longrightarrow> i < LENGTH('a) \<longrightarrow> bit t i = bit n i)"
      by (auto simp: bit_eq_iff bit_simps)
    also have "\<dots> \<longleftrightarrow> (\<forall>i \<ge> ?k. bit t i = bit n i)"
      using bit_imp_le_length by blast
    also have "\<dots> \<longleftrightarrow> (\<forall>j. bit t (?k + j) = bit n (?k + j))"
      by (metis le_Suc_ex le_add1)
    finally show ?thesis using False drop by simp
  qed
qed

theorem ip_in_prefix_spec:
  "(ip_in_prefix (V4 t) (V4 n) p \<longleftrightarrow> p \<le> 32 \<and> drop_bit (32 - p) t = drop_bit (32 - p) n)
   \<and> (ip_in_prefix (V6 t') (V6 n') p \<longleftrightarrow> p \<le> 128 \<and> drop_bit (128 - p) t' = drop_bit (128 - p) n')
   \<and> \<not> ip_in_prefix (V4 t) (V6 n') p \<and> \<not> ip_in_prefix (V6 t') (V4 n) p
   \<and> mutual_subnet a b = mutual_subnet b a"
proof -
  have "mutual_subnet a b = mutual_subnet b a"
    by (auto simp: mutual_subnet_def split: option.splits)
  then show ?thesis
    using mask_eq_iff [of p t n, simplified] mask_eq_iff [of p t' n', simplified]
    by (auto simp: Let_def)
qed

end
