(* ===== verification/Stores.thy ===== *)
theory Stores
  imports Crypto
begin

text \<open>
  What the two content-addressed stores share, the relay's \<open>BlobStore\<close> and the client's
  \<open>BlobCache\<close>: the byte count of a map, and the interface of a store that is bounded by a budget
  and only ever returns a content under its own address.
\<close>

definition map_bytes :: "('v \<Rightarrow> bytes) \<Rightarrow> ('k \<times> 'v) list \<Rightarrow> nat" where
  "map_bytes f m = sum_list (map (\<lambda>(k, v). length (f v)) m)"

lemma map_bytes_simps [simp]:
  "map_bytes f [] = 0"
  "map_bytes f ((k, v) # m) = length (f v) + map_bytes f m"
  "map_bytes f (m @ n) = map_bytes f m + map_bytes f n"
  by (simp_all add: map_bytes_def)

lemma map_bytes_lookup: "map_of m k = Some v \<Longrightarrow> length (f v) \<le> map_bytes f m"
  by (induction m) (auto split: if_splits)

lemma delete_absent: "k \<notin> set (keys m) \<Longrightarrow> AList.delete k m = m"
  by (induction m) (auto simp: AList.delete_eq)

lemma map_bytes_delete:
  "wf_map m \<Longrightarrow> map_of m k = Some v \<Longrightarrow>
     map_bytes f (AList.delete k m) = map_bytes f m - length (f v)"
proof (induction m)
  case (Cons a m)
  obtain k' v' where a: "a = (k', v')" by fastforce
  show ?case
  proof (cases "k = k'")
    case True
    with Cons.prems a have "k \<notin> set (keys m)" by simp
    with True Cons.prems a show ?thesis by (simp add: AList.delete_eq delete_absent [unfolded AList.delete_eq])
  next
    case False
    with Cons a have "map_bytes f (AList.delete k m) = map_bytes f m - length (f v)"
      and "length (f v) \<le> map_bytes f m"
      by (auto intro: map_bytes_lookup)
    with False a show ?thesis by (simp add: AList.delete_eq)
  qed
qed simp

lemma length_delete:
  "wf_map m \<Longrightarrow> length (AList.delete k m) = length m - (if k \<in> set (keys m) then 1 else 0)"
proof (induction m)
  case (Cons a m)
  then show ?case
    by (cases a; cases "fst a = k") (auto simp: AList.delete_eq delete_absent [unfolded AList.delete_eq]
        Suc_diff_le dest: length_pos_if_in_set)
qed simp

lemma map_of_delete: "map_of (AList.delete k m) = (map_of m)(k := None)"
  by (rule AList.delete_conv')

lemma map_of_update: "map_of (AList.update k v m) = (map_of m)(k \<mapsto> v)"
  by (rule AList.update_conv')

lemmas alist_simps = map_of_delete map_of_update

text \<open>
  The contract of a content-addressed store: every operation keeps the invariant, which bounds
  the bytes held and makes every lookup return a content that has the key as its address.
\<close>

locale content_store = machine step inv
  for step :: "'e \<Rightarrow> 's \<Rightarrow> 's" and inv :: "'s \<Rightarrow> bool" +
  fixes lookup :: "'k \<Rightarrow> 's \<Rightarrow> bytes option"
    and addressed :: "'k \<Rightarrow> bytes \<Rightarrow> bool"
    and used :: "'s \<Rightarrow> nat"
    and budget :: "'s \<Rightarrow> nat"
  assumes lookup_addressed: "inv s \<Longrightarrow> lookup k s = Some b \<Longrightarrow> addressed k b"
    and used_le: "inv s \<Longrightarrow> used s \<le> budget s"
begin

lemma run_addressed: "inv s \<Longrightarrow> lookup k (fold step es s) = Some b \<Longrightarrow> addressed k b"
  by (rule lookup_addressed [OF run_inv])

lemma run_used: "inv s \<Longrightarrow> used (fold step es s) \<le> budget (fold step es s)"
  by (rule used_le [OF run_inv])

text \<open>Where an address determines the content, a key has one content for ever.\<close>

lemma run_same_content:
  assumes "inv s" and "lookup k (fold step es s) = Some b"
    and "lookup k (fold step es' s) = Some b'"
    and "\<And>x y. addressed k x \<Longrightarrow> addressed k y \<Longrightarrow> x = y"
  shows "b = b'"
  using assms run_addressed by blast

end

end
