(* ===== verification/RelayBlob.thy ===== *)
theory RelayBlob
  imports Stores
begin

text \<open>
  The relay's blob store (\<^verbatim>\<open>relay/src/blob.rs\<close>), its two HTTP routes (\<^verbatim>\<open>relay/src/blob_routes.rs\<close>)
  and the router and environment of \<^verbatim>\<open>relay/src/lib.rs\<close>. Time is milliseconds on the monotonic
  clock, an argument of every operation that reads it. The relay runs on one thread and no
  operation awaits, so each is atomic.
\<close>

record blob_key =
  bk_group :: str
  bk_sha :: str

record blob_entry =
  be_inserted_at :: nat
  be_bytes :: bytes

record blob_store =
  bs_inner :: "(blob_key \<times> blob_entry) list"
  bs_total :: nat
  bs_budget :: nat
  bs_ttl :: nat
  bs_max :: nat

datatype put_error = TooLarge nat | BodyHashMismatch

definition blob_store_new :: "nat \<Rightarrow> nat \<Rightarrow> nat \<Rightarrow> blob_store" where
  "blob_store_new budget ttl max_blob =
     \<lparr>bs_inner = [], bs_total = 0, bs_budget = budget, bs_ttl = ttl, bs_max = max_blob\<rparr>"

definition entry_expired :: "blob_store \<Rightarrow> nat \<Rightarrow> blob_entry \<Rightarrow> bool" where
  "entry_expired s now e \<longleftrightarrow> now - be_inserted_at e \<ge> bs_ttl s"

definition bs_remove :: "blob_key \<Rightarrow> blob_store \<Rightarrow> blob_store" where
  "bs_remove k s =
     (case map_of (bs_inner s) k of
        Some e \<Rightarrow> s\<lparr>bs_inner := AList.delete k (bs_inner s), bs_total := bs_total s - length (be_bytes e)\<rparr>
      | None \<Rightarrow> s)"

definition bs_get :: "nat \<Rightarrow> blob_key \<Rightarrow> blob_store \<Rightarrow> bytes option \<times> blob_store" where
  "bs_get now k s =
     (case map_of (bs_inner s) k of
        None \<Rightarrow> (None, s)
      | Some e \<Rightarrow> if entry_expired s now e then (None, bs_remove k s) else (Some (be_bytes e), s))"

text \<open>\<open>min_by_key\<close>: the first entry with the least time, in the order of iteration.\<close>

fun oldest_key :: "(blob_key \<times> blob_entry) list \<Rightarrow> blob_key option" where
  "oldest_key [] = None"
| "oldest_key ((k, e) # m) =
     (case oldest_key m of
        None \<Rightarrow> Some k
      | Some k' \<Rightarrow> (case map_of m k' of
            Some e' \<Rightarrow> if be_inserted_at e \<le> be_inserted_at e' then Some k else Some k'
          | None \<Rightarrow> Some k))"

lemma oldest_key_None [simp]: "oldest_key m = None \<longleftrightarrow> m = []"
  by (cases m) (auto split: option.splits)

lemma oldest_key_min:
  "wf_map m \<Longrightarrow> oldest_key m = Some k \<Longrightarrow>
     \<exists>e. map_of m k = Some e \<and> (\<forall>(k', e') \<in> set m. be_inserted_at e \<le> be_inserted_at e')"
proof (induction m arbitrary: k)
  case (Cons a m)
  obtain k0 e0 where a: "a = (k0, e0)" by fastforce
  show ?case
  proof (cases "oldest_key m")
    case None
    with Cons.prems a show ?thesis by auto
  next
    case (Some k1)
    with Cons.IH [of k1] Cons.prems a obtain e1 where e1: "map_of m k1 = Some e1"
      "\<forall>(k', e') \<in> set m. be_inserted_at e1 \<le> be_inserted_at e'" by auto
    then have "k1 \<noteq> k0" using Cons.prems a by (auto simp: image_iff dest!: map_of_SomeD)
    with Some e1 Cons.prems a show ?thesis by (auto split: if_splits)
  qed
qed simp

function evict_loop :: "nat \<Rightarrow> blob_store \<Rightarrow> blob_store" where
  "evict_loop incoming s =
     (if bs_total s + incoming > bs_budget s then
        (case oldest_key (bs_inner s) of
           Some k \<Rightarrow> (if map_of (bs_inner s) k = None then s else evict_loop incoming (bs_remove k s))
         | None \<Rightarrow> s)
      else s)"
  by pat_completeness auto
termination
proof (relation "measure (\<lambda>(n, s). length (bs_inner s))")
  fix incoming :: nat and s :: blob_store and k
  assume "\<not> map_of (bs_inner s) k = None"
  then have "k \<in> set (keys (bs_inner s))" by (simp add: map_of_eq_None_iff)
  then have "length (AList.delete k (bs_inner s)) < length (bs_inner s)"
    by (auto simp: AList.delete_eq intro!: length_filter_less)
  then show "((incoming, bs_remove k s), (incoming, s)) \<in> measure (\<lambda>(n, s). length (bs_inner s))"
    using \<open>\<not> map_of (bs_inner s) k = None\<close> by (auto simp: bs_remove_def)
qed simp

declare evict_loop.simps [simp del]

definition evict_until_room_for :: "nat \<Rightarrow> nat \<Rightarrow> blob_store \<Rightarrow> blob_store" where
  "evict_until_room_for now incoming s =
     (let expired = map fst (filter (\<lambda>(k, e). entry_expired s now e) (bs_inner s))
      in evict_loop incoming (fold bs_remove expired s))"

definition bs_put ::
  "prims \<Rightarrow> nat \<Rightarrow> blob_key \<Rightarrow> bytes \<Rightarrow> blob_store \<Rightarrow> (put_error + unit) \<times> blob_store" where
  "bs_put P now k body s =
     (if length body > bs_max s then (Inl (TooLarge (bs_max s)), s)
      else if sha256_hex P body \<noteq> bk_sha k then (Inl BodyHashMismatch, s)
      else if map_of (bs_inner s) k \<noteq> None then (Inr (), s)
      else
        (let s' = evict_until_room_for now (length body) s;
             old = map_of (bs_inner s') k;
             s'' = s'\<lparr>bs_inner := AList.update k \<lparr>be_inserted_at = now, be_bytes = body\<rparr> (bs_inner s')\<rparr>
         in (Inr (), if old = None then s''\<lparr>bs_total := bs_total s'' + length body\<rparr> else s'')))"

section \<open>The routes\<close>

definition relay_valid_sha256 :: "str \<Rightarrow> bool" where
  "relay_valid_sha256 s \<longleftrightarrow>
     length (utf8 s) = 64 \<and> list_all (\<lambda>b. (48 \<le> b \<and> b \<le> 57) \<or> (97 \<le> b \<and> b \<le> 102)) (utf8 s)"

datatype http_response = Response (http_status: nat) (http_body: bytes)

definition put_blob ::
  "prims \<Rightarrow> nat \<Rightarrow> str \<Rightarrow> str \<Rightarrow> bytes \<Rightarrow> blob_store \<Rightarrow> http_response \<times> blob_store" where
  "put_blob P now group_id sha body s =
     (if \<not> relay_valid_sha256 sha then (Response 400 (as_bytes (lit ''invalid sha256'')), s)
      else
        (case bs_put P now \<lparr>bk_group = group_id, bk_sha = sha\<rparr> body s of
           (Inr _, s') \<Rightarrow> (Response 204 [], s')
         | (Inl (TooLarge mx), s') \<Rightarrow>
             (Response 413 (as_bytes (lit ''blob exceeds '' @ show_nat mx @ lit '' bytes'')), s')
         | (Inl BodyHashMismatch, s') \<Rightarrow> (Response 400 (as_bytes (lit ''body sha256 mismatch'')), s')))"

definition get_blob :: "nat \<Rightarrow> str \<Rightarrow> str \<Rightarrow> blob_store \<Rightarrow> http_response \<times> blob_store" where
  "get_blob now group_id sha s =
     (if \<not> relay_valid_sha256 sha then (Response 400 (as_bytes (lit ''invalid sha256'')), s)
      else
        (case bs_get now \<lparr>bk_group = group_id, bk_sha = sha\<rparr> s of
           (Some b, s') \<Rightarrow> (Response 200 b, s')
         | (None, s') \<Rightarrow> (Response 404 [], s')))"

text \<open>
  \<open>app\<close>: the body-limit layer of the blob router answers 413 for a longer body before the handler
  runs; the other two routes do not touch the store.
\<close>

datatype http_request =
    PutBlob str str bytes
  | GetBlob str str
  | GetHealth

definition relay_app :: "prims \<Rightarrow> nat \<Rightarrow> http_request \<Rightarrow> blob_store \<Rightarrow> http_response \<times> blob_store" where
  "relay_app P now req s =
     (case req of
        PutBlob g h body \<Rightarrow> if length body > bs_max s then (Response 413 [], s) else put_blob P now g h body s
      | GetBlob g h \<Rightarrow> get_blob now g h s
      | GetHealth \<Rightarrow> (Response 200 (as_bytes (lit ''ok'')), s))"

text \<open>\<open>str::parse::<u64>\<close>: an optional plus sign, then digits, below 2^64.\<close>

definition parse_u64 :: "str \<Rightarrow> nat option" where
  "parse_u64 s =
     (let ds = (if s \<noteq> [] \<and> hd s = 43 then tl s else s)
      in if ds \<noteq> [] \<and> list_all is_ascii_digit ds \<and> digits_value ds < 2 ^ 64
         then Some (digits_value ds) else None)"

definition parse_env_u64 :: "(str \<Rightarrow> str option) \<Rightarrow> str \<Rightarrow> nat \<Rightarrow> nat" where
  "parse_env_u64 env key dflt =
     (case Option.bind (env key) parse_u64 of Some v \<Rightarrow> v | None \<Rightarrow> dflt)"

text \<open>The target is a 64-bit host, so \<open>as usize\<close> keeps the value; the ttl is in milliseconds.\<close>

definition blob_store_from_env :: "(str \<Rightarrow> str option) \<Rightarrow> blob_store" where
  "blob_store_from_env env =
     (let budget = parse_env_u64 env (lit ''CLIPBRIDGE_BLOB_BUDGET_BYTES'') (256 * 1024 * 1024);
          ttl_secs = parse_env_u64 env (lit ''CLIPBRIDGE_BLOB_TTL_SECS'') 300;
          max_blob = parse_env_u64 env (lit ''CLIPBRIDGE_BLOB_MAX_BYTES'') (32 * 1024 * 1024)
      in blob_store_new budget (1000 * ttl_secs) max_blob)"

section \<open>The store's invariant\<close>

text \<open>Distinct keys, the counter is the sum of the lengths, and every blob is under its digest.\<close>

definition store_inv :: "prims \<Rightarrow> blob_store \<Rightarrow> bool" where
  "store_inv P s \<longleftrightarrow>
     wf_map (bs_inner s) \<and> bs_total s = map_bytes be_bytes (bs_inner s)
     \<and> (\<forall>(k, e) \<in> set (bs_inner s). sha256_hex P (be_bytes e) = bk_sha k \<and> length (be_bytes e) \<le> bs_max s)"

abbreviation same_config :: "blob_store \<Rightarrow> blob_store \<Rightarrow> bool" where
  "same_config s s' \<equiv> bs_budget s' = bs_budget s \<and> bs_ttl s' = bs_ttl s \<and> bs_max s' = bs_max s"

lemma bs_remove_map: "map_of (bs_inner (bs_remove k s)) = (map_of (bs_inner s))(k := None)"
  by (auto simp: bs_remove_def alist_simps fun_upd_idem split: option.splits)

lemma bs_remove_config [simp]:
  "bs_budget (bs_remove k s) = bs_budget s" "bs_ttl (bs_remove k s) = bs_ttl s"
  "bs_max (bs_remove k s) = bs_max s"
  by (auto simp: bs_remove_def split: option.splits)

lemma bs_remove_subset: "set (bs_inner (bs_remove k s)) \<subseteq> set (bs_inner s)"
  by (auto simp: bs_remove_def AList.delete_eq split: option.splits)

lemma bs_remove_inv: "store_inv P s \<Longrightarrow> store_inv P (bs_remove k s)"
  using bs_remove_subset [of k s]
  by (auto simp: store_inv_def bs_remove_def map_bytes_delete AList.delete_eq distinct_map_filter
      simp flip: AList.delete_eq split: option.splits)

lemma fold_remove:
  "store_inv P s \<Longrightarrow> store_inv P (fold bs_remove ks s) \<and> same_config s (fold bs_remove ks s)
     \<and> set (bs_inner (fold bs_remove ks s)) \<subseteq> set (bs_inner s)
     \<and> map_of (bs_inner (fold bs_remove ks s)) = (map_of (bs_inner s)) |` (- set ks)"
proof (induction ks arbitrary: s)
  case (Cons k ks)
  from Cons.IH [OF bs_remove_inv [OF Cons.prems, of k]] bs_remove_subset [of k s]
  show ?case by (auto simp: bs_remove_map restrict_map_def fun_eq_iff)
qed (simp add: restrict_map_def)

text \<open>
  The loop ends with room for the incoming blob or with nothing left, and everything it evicted
  is at least as old as everything it kept.
\<close>

definition oldest_first :: "blob_store \<Rightarrow> blob_store \<Rightarrow> bool" where
  "oldest_first s s' \<longleftrightarrow>
     (\<forall>(k, e) \<in> set (bs_inner s) - set (bs_inner s'). \<forall>(k', e') \<in> set (bs_inner s').
        be_inserted_at e \<le> be_inserted_at e')"

lemma evict_loop_spec:
  "store_inv P s \<Longrightarrow>
     store_inv P (evict_loop n s) \<and> same_config s (evict_loop n s)
     \<and> (bs_total (evict_loop n s) + n \<le> bs_budget s \<or> bs_inner (evict_loop n s) = [])
     \<and> set (bs_inner (evict_loop n s)) \<subseteq> set (bs_inner s) \<and> oldest_first s (evict_loop n s)
     \<and> (bs_total s + n \<le> bs_budget s \<longrightarrow> evict_loop n s = s)"
proof (induction n s rule: evict_loop.induct)
  case (1 n s)
  show ?case
  proof (cases "bs_total s + n > bs_budget s \<and> bs_inner s \<noteq> []")
    case False
    then have "evict_loop n s = s" by (subst evict_loop.simps) auto
    with False "1.prems" show ?thesis by (auto simp: oldest_first_def)
  next
    case True
    then obtain k where k: "oldest_key (bs_inner s) = Some k" by (cases "oldest_key (bs_inner s)") auto
    have wf: "wf_map (bs_inner s)" using "1.prems" by (simp add: store_inv_def)
    from oldest_key_min [OF wf k] obtain e where e: "map_of (bs_inner s) k = Some e"
      and min: "\<forall>(k', e') \<in> set (bs_inner s). be_inserted_at e \<le> be_inserted_at e'" by blast
    have eq: "evict_loop n s = evict_loop n (bs_remove k s)"
      using True k e by (subst evict_loop.simps) simp
    have IH: "store_inv P (evict_loop n (bs_remove k s)) \<and> same_config s (evict_loop n (bs_remove k s))
     \<and> (bs_total (evict_loop n (bs_remove k s)) + n \<le> bs_budget s \<or> bs_inner (evict_loop n (bs_remove k s)) = [])
     \<and> set (bs_inner (evict_loop n (bs_remove k s))) \<subseteq> set (bs_inner (bs_remove k s))
     \<and> oldest_first (bs_remove k s) (evict_loop n (bs_remove k s))"
      using "1.IH" [OF _ k] True e bs_remove_inv [OF "1.prems"] by simp
    have only: "x = (k, e) \<or> x \<in> set (bs_inner (bs_remove k s))" if "x \<in> set (bs_inner s)" for x
    proof (cases x)
      case (Pair k' e')
      then have "map_of (bs_inner s) k' = Some e'" using that wf by simp
      then show ?thesis using Pair that e by (cases "k' = k") (auto simp: bs_remove_def AList.delete_eq)
    qed
    have "oldest_first s (evict_loop n (bs_remove k s))"
      unfolding oldest_first_def
    proof (clarify)
      fix k1 e1 k2 e2
      assume a: "(k1, e1) \<in> set (bs_inner s)" "(k1, e1) \<notin> set (bs_inner (evict_loop n (bs_remove k s)))"
        "(k2, e2) \<in> set (bs_inner (evict_loop n (bs_remove k s)))"
      show "be_inserted_at e1 \<le> be_inserted_at e2"
      proof (cases "(k1, e1) = (k, e)")
        case True
        then show ?thesis using min IH a(3) bs_remove_subset [of k s] by fastforce
      next
        case False
        then show ?thesis using only [OF a(1)] IH a by (fastforce simp: oldest_first_def)
      qed
    qed
    then show ?thesis unfolding eq using IH bs_remove_subset [of k s] True by auto
  qed
qed

lemma evict_spec:
  assumes "store_inv P s"
  shows "store_inv P (evict_until_room_for now n s)"
    and "same_config s (evict_until_room_for now n s)"
    and "bs_total (evict_until_room_for now n s) + n \<le> bs_budget s \<or> bs_inner (evict_until_room_for now n s) = []"
    and "set (bs_inner (evict_until_room_for now n s)) \<subseteq> set (bs_inner s)"
proof -
  let ?s = "fold bs_remove (map fst (filter (\<lambda>(k, e). entry_expired s now e) (bs_inner s))) s"
  note f = fold_remove [OF assms, of "map fst (filter (\<lambda>(k, e). entry_expired s now e) (bs_inner s))"]
  have "store_inv P ?s" using f by blast
  note l = evict_loop_spec [OF this, of n]
  have eq: "evict_until_room_for now n s = evict_loop n ?s"
    by (simp add: evict_until_room_for_def)
  show "store_inv P (evict_until_room_for now n s)" "same_config s (evict_until_room_for now n s)"
    "bs_total (evict_until_room_for now n s) + n \<le> bs_budget s \<or> bs_inner (evict_until_room_for now n s) = []"
    "set (bs_inner (evict_until_room_for now n s)) \<subseteq> set (bs_inner s)"
    unfolding eq using f l by auto
qed

lemma put_spec:
  assumes inv: "store_inv P s" and put: "bs_put P now k body s = (r, s')"
  shows "store_inv P s'" and "same_config s s'"
    and "bs_max s \<le> bs_budget s \<Longrightarrow> bs_total s \<le> bs_budget s \<Longrightarrow> bs_total s' \<le> bs_budget s"
proof -
  let ?e = "evict_until_room_for now (length body) s"
  note ev = evict_spec [OF inv, of now "length body"]
  have "store_inv P s' \<and> same_config s s'
    \<and> (bs_max s \<le> bs_budget s \<longrightarrow> bs_total s \<le> bs_budget s \<longrightarrow> bs_total s' \<le> bs_budget s)"
  proof (cases "length body > bs_max s \<or> sha256_hex P body \<noteq> bk_sha k \<or> map_of (bs_inner s) k \<noteq> None")
    case True
    then have "s' = s" using put by (auto simp: bs_put_def split: if_splits)
    with inv show ?thesis by auto
  next
    case False
    have "k \<notin> set (keys (bs_inner s))" using False by (simp add: map_of_eq_None_iff)
    then have new: "k \<notin> set (keys (bs_inner ?e))" using ev(4) by auto
    then have none: "map_of (bs_inner ?e) k = None" by (simp add: map_of_eq_None_iff)
    have s': "s' = ?e\<lparr>bs_inner := bs_inner ?e @ [(k, \<lparr>be_inserted_at = now, be_bytes = body\<rparr>)],
        bs_total := bs_total ?e + length body\<rparr>"
      using put False none new by (auto simp: bs_put_def Let_def update_new)
    have "store_inv P s'"
      using ev(1,2) new False by (auto simp: store_inv_def s')
    moreover have "bs_max s \<le> bs_budget s \<longrightarrow> bs_total s' \<le> bs_budget s"
      using ev(1,3) False by (auto simp: s' store_inv_def)
    ultimately show ?thesis using ev(2) by (simp add: s')
  qed
  then show "store_inv P s'" "same_config s s'"
    "bs_max s \<le> bs_budget s \<Longrightarrow> bs_total s \<le> bs_budget s \<Longrightarrow> bs_total s' \<le> bs_budget s" by blast+
qed

text \<open>The store of a relay whose largest blob fits the budget, through the HTTP interface.\<close>

definition relay_inv :: "prims \<Rightarrow> blob_store \<Rightarrow> bool" where
  "relay_inv P s \<longleftrightarrow> store_inv P s \<and> bs_max s \<le> bs_budget s \<and> bs_total s \<le> bs_budget s"

definition relay_step :: "prims \<Rightarrow> nat \<times> http_request \<Rightarrow> blob_store \<Rightarrow> blob_store" where
  "relay_step P e s = snd (relay_app P (fst e) (snd e) s)"

definition blob_lookup :: "blob_key \<Rightarrow> blob_store \<Rightarrow> bytes option" where
  "blob_lookup k s = map_option be_bytes (map_of (bs_inner s) k)"

lemma get_spec:
  "store_inv P s \<Longrightarrow> bs_get now k s = (r, s') \<Longrightarrow>
     store_inv P s' \<and> same_config s s' \<and> bs_total s' \<le> bs_total s"
  by (auto simp: bs_get_def split: option.splits if_splits intro: bs_remove_inv)
    (auto simp: bs_remove_def split: option.splits)

lemma relay_step_spec:
  assumes inv: "store_inv P s"
  shows "store_inv P (relay_step P e s) \<and> same_config s (relay_step P e s)
    \<and> (bs_max s \<le> bs_budget s \<longrightarrow> bs_total s \<le> bs_budget s \<longrightarrow> bs_total (relay_step P e s) \<le> bs_budget s)"
proof (cases "snd e")
  case (PutBlob g h body)
  obtain r s' where put: "bs_put P (fst e) \<lparr>bk_group = g, bk_sha = h\<rparr> body s = (r, s')" by fastforce
  have "relay_step P e s = s \<or> relay_step P e s = s'"
    using put PutBlob
    by (auto simp: relay_step_def relay_app_def put_blob_def split: sum.splits put_error.splits)
  then show ?thesis using put_spec [OF inv put] inv by auto
next
  case (GetBlob g h)
  obtain r s' where get: "bs_get (fst e) \<lparr>bk_group = g, bk_sha = h\<rparr> s = (r, s')" by fastforce
  have "relay_step P e s = s \<or> relay_step P e s = s'"
    using get GetBlob by (auto simp: relay_step_def relay_app_def get_blob_def split: option.splits)
  then show ?thesis using get_spec [OF inv get] inv by auto
qed (use inv in \<open>simp add: relay_step_def relay_app_def\<close>)

lemma relay_step_inv: "relay_inv P s \<Longrightarrow> relay_inv P (relay_step P e s)"
  using relay_step_spec [of P s e] by (simp add: relay_inv_def)

lemma relay_run_config: "store_inv P s \<Longrightarrow> same_config s (fold (relay_step P) es s)"
proof (induction es arbitrary: s)
  case (Cons e es)
  then show ?case using relay_step_spec [OF Cons.prems, of e] by simp
qed simp

interpretation relay: content_store "relay_step P" "relay_inv P" blob_lookup
  "\<lambda>k b. bk_sha k = sha256_hex P b" bs_total bs_budget for P
proof
  show "relay_inv P (relay_step P e s)" if "relay_inv P s" for s e
    using that by (rule relay_step_inv)
  show "bk_sha k = sha256_hex P b" if "relay_inv P s" "blob_lookup k s = Some b" for s k b
    using that by (auto simp: relay_inv_def store_inv_def blob_lookup_def dest!: map_of_SomeD)
  show "bs_total s \<le> bs_budget s" if "relay_inv P s" for s
    using that by (simp add: relay_inv_def)
qed

section \<open>The properties\<close>

text \<open>A run from a store with the invariant, with the bounds of its configuration.\<close>

lemma relay_store_run:
  assumes "relay_inv P s"
  shows "let s' = fold (relay_step P) reqs s
     in bs_total s' = map_bytes be_bytes (bs_inner s') \<and> bs_total s' \<le> bs_budget s
        \<and> (\<forall>(k, e) \<in> set (bs_inner s'). length (be_bytes e) \<le> bs_max s \<and> sha256_hex P (be_bytes e) = bk_sha k)"
  using relay.run_inv [OF assms, of reqs] relay.run_used [OF assms, of reqs] relay_run_config [of P s reqs] assms
  by (auto simp: Let_def relay_inv_def store_inv_def)

lemma relay_inv_new: "max_blob \<le> budget \<Longrightarrow> relay_inv P (blob_store_new budget ttl max_blob)"
  by (simp add: relay_inv_def store_inv_def blob_store_new_def)

text \<open>
  The relay's memory stays within its budget. After any sequence of HTTP requests at any times,
  a relay whose largest blob fits the budget holds at most the budget, its counter is the sum of
  the blobs, no blob is larger than the limit, and every blob is stored under its own digest.
\<close>

theorem relay_store_bounded:
  assumes "max_blob \<le> budget"
  shows "let s = fold (relay_step P) reqs (blob_store_new budget ttl max_blob)
     in bs_total s = map_bytes be_bytes (bs_inner s) \<and> bs_total s \<le> budget
        \<and> (\<forall>(k, e) \<in> set (bs_inner s). length (be_bytes e) \<le> max_blob
             \<and> sha256_hex P (be_bytes e) = bk_sha k)"
  using relay_store_run [of P "blob_store_new budget ttl max_blob" reqs] relay_inv_new [OF assms, of P ttl]
  by (simp add: Let_def blob_store_new_def)

theorem relay_store_bounded_witness:
  "bs_total (relay_step demo_prims (5, PutBlob [] [] [1]) (blob_store_new 9 7 4)) \<le> 9"
  using relay_store_bounded [of 4 9 demo_prims "[(5, PutBlob [] [] [1])]" 7]
    relay_step_inv [OF relay_inv_new [of 4 9 demo_prims 7], of "(5, PutBlob [] [] [1])"]
  by (auto simp: Let_def relay_step_def relay_app_def put_blob_def blob_store_new_def bs_put_def
      relay_valid_sha256_def)

lemma put_new:
  assumes "store_inv P s" and "map_of (bs_inner s) k = None"
    and "sha256_hex P body = bk_sha k" and "length body \<le> bs_max s"
  shows "bs_put P now k body s = (Inr (),
     (let e = evict_until_room_for now (length body) s
      in e\<lparr>bs_inner := bs_inner e @ [(k, \<lparr>be_inserted_at = now, be_bytes = body\<rparr>)],
           bs_total := bs_total e + length body\<rparr>))"
proof -
  let ?e = "evict_until_room_for now (length body) s"
  have "k \<notin> set (keys (bs_inner s))" using assms(2) by (simp add: map_of_eq_None_iff)
  then have new: "k \<notin> set (keys (bs_inner ?e))" using evict_spec(4) [OF assms(1)] by auto
  then have "map_of (bs_inner ?e) k = None" by (simp add: map_of_eq_None_iff)
  then show ?thesis using assms new by (auto simp: bs_put_def Let_def update_new)
qed

lemma put_then_get:
  assumes inv: "store_inv P s" and sha: "sha = sha256_hex P body" "relay_valid_sha256 sha"
    and size: "length body \<le> bs_max s" and fresh: "blob_lookup \<lparr>bk_group = g, bk_sha = sha\<rparr> s = None"
    and ttl: "later - now < bs_ttl s"
  shows "case relay_app P now (PutBlob g sha body) s of (r, s') \<Rightarrow>
     http_status r = 204 \<and> fst (relay_app P later (GetBlob g sha) s') = Response 200 body
     \<and> (g' \<noteq> g \<longrightarrow> blob_lookup \<lparr>bk_group = g', bk_sha = sha\<rparr> s = None \<longrightarrow>
          http_status (fst (relay_app P later (GetBlob g' sha) s')) = 404)"
proof -
  let ?k = "\<lparr>bk_group = g, bk_sha = sha\<rparr>" and ?k' = "\<lparr>bk_group = g', bk_sha = sha\<rparr>"
  let ?e = "evict_until_room_for now (length body) s"
  have none: "map_of (bs_inner s) ?k = None" using fresh by (simp add: blob_lookup_def)
  note ev = evict_spec [OF inv, of now "length body"]
  have "?k \<notin> set (keys (bs_inner s))" using none by (simp add: map_of_eq_None_iff)
  then have new: "map_of (bs_inner ?e) ?k = None" using ev(4) by (auto simp: map_of_eq_None_iff)
  have other: "map_of (bs_inner ?e) ?k' = None" if "blob_lookup ?k' s = None"
  proof -
    have "?k' \<notin> set (keys (bs_inner s))" using that by (simp add: blob_lookup_def map_of_eq_None_iff)
    then show ?thesis using ev(4) by (auto simp: map_of_eq_None_iff)
  qed
  define s' where "s' = ?e\<lparr>bs_inner := bs_inner ?e @ [(?k, \<lparr>be_inserted_at = now, be_bytes = body\<rparr>)],
           bs_total := bs_total ?e + length body\<rparr>"
  have h: "sha256_hex P body = bk_sha ?k" using sha(1) by simp
  have put: "bs_put P now ?k body s = (Inr (), s')"
    unfolding s'_def using put_new [OF inv none h size] by (simp only: Let_def)
  have app: "relay_app P now (PutBlob g sha body) s = (Response 204 [], s')"
    using size sha(2) by (simp add: relay_app_def put_blob_def put)
  have k: "map_of (bs_inner s') ?k = Some \<lparr>be_inserted_at = now, be_bytes = body\<rparr>"
    using new by (simp add: s'_def map_add_def)
  have ttl': "bs_ttl s' = bs_ttl s" using ev(2) by (simp add: s'_def)
  have got: "fst (relay_app P later (GetBlob g sha) s') = Response 200 body"
    using k ttl ttl' sha(2) by (simp add: relay_app_def get_blob_def bs_get_def entry_expired_def)
  have "http_status (fst (relay_app P later (GetBlob g' sha) s')) = 404"
    if "g' \<noteq> g" "blob_lookup ?k' s = None"
  proof -
    have "map_of (bs_inner s') ?k' = None"
      using other [OF that(2)] that(1) by (simp add: s'_def map_add_def)
    then show ?thesis using sha(2) by (simp add: relay_app_def get_blob_def bs_get_def)
  qed
  with app got show ?thesis by simp
qed


lemma sha_valid: "sha_contract P \<Longrightarrow> relay_valid_sha256 (sha256_hex P b)"
proof -
  assume sha: "sha_contract P"
  have lower: "list_all is_lower_hex (sha256_hex P b)" by (rule sha256_hex_lower)
  then have "utf8 (sha256_hex P b) = sha256_hex P b"
    by (intro utf8_ascii lower_hex_ascii)
  then show ?thesis
    using lower sha256_hex_length [OF sha] by (auto simp: relay_valid_sha256_def list_all_iff
        is_lower_hex_def is_ascii_digit_def)
qed

lemmas demo_sha_valid = sha_valid [OF demo_sha]


text \<open>
  Eviction. Making room removes every expired blob; it removes other blobs only while there is
  no room, and then oldest first: nothing that stays is older than anything unexpired that went.
\<close>

theorem relay_evicts_oldest_first:
  assumes "store_inv P s" and "s' = evict_until_room_for now n s"
  shows "(\<forall>(k, e) \<in> set (bs_inner s'). \<not> entry_expired s now e)
     \<and> (\<forall>(k, e) \<in> set (bs_inner s) - set (bs_inner s'). entry_expired s now e
          \<or> (\<forall>(k', e') \<in> set (bs_inner s'). be_inserted_at e \<le> be_inserted_at e'))
     \<and> (bs_total s' + n \<le> bs_budget s \<or> bs_inner s' = [])
     \<and> (map_bytes be_bytes (filter (\<lambda>(k, e). \<not> entry_expired s now e) (bs_inner s)) + n \<le> bs_budget s
          \<longrightarrow> bs_inner s' = filter (\<lambda>(k, e). \<not> entry_expired s now e) (bs_inner s))"
proof -
  let ?expired = "map fst (filter (\<lambda>(k, e). entry_expired s now e) (bs_inner s))"
  let ?live = "filter (\<lambda>(k, e). \<not> entry_expired s now e) (bs_inner s)"
  let ?s = "fold bs_remove ?expired s"
  have wf: "wf_map (bs_inner s)" using assms(1) by (simp add: store_inv_def)
  note f = fold_remove [OF assms(1), of ?expired]
  have gone: "k \<in> set ?expired \<longleftrightarrow> entry_expired s now e" if "(k, e) \<in> set (bs_inner s)" for k e
  proof -
    have "k \<in> set ?expired \<longleftrightarrow> (\<exists>e'. (k, e') \<in> set (bs_inner s) \<and> entry_expired s now e')" by force
    then show ?thesis using eq_key_imp_eq_value [OF wf] that by blast
  qed
  have inner: "bs_inner ?s = ?live"
  proof -
    have "bs_inner (fold bs_remove ks s0) = filter (\<lambda>(k, e). k \<notin> set ks) (bs_inner s0)" if "store_inv P s0" for ks s0
      using that
    proof (induction ks arbitrary: s0)
      case (Cons k ks)
      have "bs_inner (bs_remove k s0) = filter (\<lambda>(k', e). k' \<noteq> k) (bs_inner s0)"
      proof (cases "map_of (bs_inner s0) k")
        case None
        then have "k \<notin> set (keys (bs_inner s0))" by (simp add: map_of_eq_None_iff)
        then have "filter (\<lambda>(k', e). k' \<noteq> k) (bs_inner s0) = bs_inner s0"
          by (intro filter_True) (auto simp: image_iff)
        with None show ?thesis by (simp add: bs_remove_def)
      qed (auto simp: bs_remove_def AList.delete_eq intro!: filter_cong)
      with Cons.IH [OF bs_remove_inv [OF Cons.prems, of k]] show ?case
        by (auto intro!: filter_cong)
    qed simp
    from this [OF assms(1)] show ?thesis using gone by (auto intro!: filter_cong)
  qed
  have eq: "s' = evict_loop n ?s" by (simp add: assms(2) evict_until_room_for_def)
  have inv: "store_inv P ?s" using f by blast
  note l = evict_loop_spec [OF inv, of n]
  have total: "bs_total ?s = map_bytes be_bytes ?live" using inv by (simp add: store_inv_def inner)
  show ?thesis
    unfolding eq using l f inner total by (fastforce simp: oldest_first_def)
qed

theorem relay_evicts_oldest_first_witness:
  "bs_inner (evict_until_room_for 3 1 (blob_store_new 9 10 4)) = []"
  using relay_evicts_oldest_first [of demo_prims "blob_store_new 9 10 4" _ 3 1]
    relay_inv_new [of 4 9 demo_prims 10]
  by (auto simp: relay_inv_def blob_store_new_def)



end
