(* ===== verification/RelayMain.thy ===== *)
theory RelayMain
  imports RelayWs RelayBlob
begin

text \<open>
  \<^verbatim>\<open>relay/src/main.rs\<close> and the handler \<open>ws_handler\<close>: how the relay process starts from its environment,
  and the process as a whole. An HTTP request touches the blob store, an upgrade opens a connection
  under the address of the peer's socket, and a connection's loop runs as in \<open>RelayWs\<close>; the relay runs
  on one thread, so these steps interleave. Binding the socket is the system's: a parameter.
\<close>

section \<open>The start\<close>

definition bind_address :: "(str \<Rightarrow> str option) \<Rightarrow> socket_addr option" where
  "bind_address env =
     parse_socket (case env (lit ''CLIPBRIDGE_BIND'') of Some s \<Rightarrow> s | None \<Rightarrow> lit ''0.0.0.0:8787'')"

text \<open>The two \<open>expect\<close>s before the server runs: the process panics with their message.\<close>

datatype start_panic = InvalidBind | BindFailed str

record relay_process =
  rp_addr :: socket_addr
  rp_relay :: relay
  rp_blobs :: blob_store

definition relay_main ::
  "(socket_addr \<Rightarrow> str + unit) \<Rightarrow> (str \<Rightarrow> str option) \<Rightarrow> start_panic + relay_process" where
  "relay_main tcp_bind env =
     (let blobs = blob_store_from_env env
      in case bind_address env of
           None \<Rightarrow> Inl InvalidBind
         | Some addr \<Rightarrow>
             (case tcp_bind addr of
                Inl e \<Rightarrow> Inl (BindFailed e)
              | Inr _ \<Rightarrow> Inr \<lparr>rp_addr = addr, rp_relay = relay_init, rp_blobs = blobs\<rparr>))"

section \<open>The process\<close>

datatype process_event = EvRequest http_request | EvUpgrade socket_addr | EvSocket ws_event

text \<open>\<open>ws_handler\<close>: the connection's egress is the address of the peer's socket, without its port.\<close>

definition ws_handler :: "nat \<Rightarrow> socket_addr \<Rightarrow> relay \<Rightarrow> relay" where
  "ws_handler now peer s = open_conn now (sock_ip peer) s"

inductive process_step ::
  "prims \<Rightarrow> (str \<Rightarrow> str + client_message) \<Rightarrow> relay_process \<Rightarrow> nat \<times> process_event \<Rightarrow> relay_process \<Rightarrow> bool"
  for P parse where
  step_request: "relay_app P now req (rp_blobs p) = (response, blobs) \<Longrightarrow>
     process_step P parse p (now, EvRequest req) (p\<lparr>rp_blobs := blobs\<rparr>)"
| step_upgrade: "process_step P parse p (now, EvUpgrade peer) (p\<lparr>rp_relay := ws_handler now peer (rp_relay p)\<rparr>)"
| step_socket: "relay_trans parse (rp_relay p) (now, ev) s \<Longrightarrow> (\<And>egress. ev \<noteq> EvOpen egress) \<Longrightarrow>
     process_step P parse p (now, EvSocket ev) (p\<lparr>rp_relay := s\<rparr>)"

inductive_cases process_stepE: "process_step P parse p (now, ev) p'"
inductive_simps request_step [simp]: "process_step P parse p (now, EvRequest req) p'"
inductive_simps upgrade_step [simp]: "process_step P parse p (now, EvUpgrade peer) p'"
inductive_simps socket_step: "process_step P parse p (now, EvSocket ev) p'"

inductive process_run ::
  "prims \<Rightarrow> (str \<Rightarrow> str + client_message) \<Rightarrow> relay_process \<Rightarrow> (nat \<times> process_event) list \<Rightarrow> relay_process \<Rightarrow> bool"
  for P parse where
  run_nil: "process_run P parse p [] p"
| run_cons: "process_step P parse p e p' \<Longrightarrow> process_run P parse p' es p'' \<Longrightarrow> process_run P parse p (e # es) p''"

inductive_simps process_run_nil [simp]: "process_run P parse p [] p'"
inductive_simps process_run_cons: "process_run P parse p (e # es) p'"

text \<open>The two halves of the process: a run is a run of the store's requests and a run of the sockets.\<close>

fun requests :: "(nat \<times> process_event) list \<Rightarrow> (nat \<times> http_request) list" where
  "requests [] = []"
| "requests ((now, EvRequest req) # es) = (now, req) # requests es"
| "requests (_ # es) = requests es"

lemma step_halves:
  assumes "process_step P parse p e p'"
  shows "rp_addr p' = rp_addr p" "rp_blobs p' = fold (relay_step P) (requests [e]) (rp_blobs p)"
    "relay_reachable parse (rp_relay p) \<Longrightarrow> relay_reachable parse (rp_relay p')"
proof -
  from assms have "rp_addr p' = rp_addr p \<and> rp_blobs p' = fold (relay_step P) (requests [e]) (rp_blobs p)
    \<and> (relay_reachable parse (rp_relay p) \<longrightarrow> relay_reachable parse (rp_relay p'))"
  proof cases
    case (step_request now req response blobs)
    then show ?thesis by (simp add: relay_step_def)
  next
    case (step_upgrade now peer)
    then show ?thesis using reach_step [OF _ trans_open] by (auto simp: ws_handler_def)
  next
    case (step_socket now ev s)
    then show ?thesis using reach_step by auto
  qed
  then show "rp_addr p' = rp_addr p" "rp_blobs p' = fold (relay_step P) (requests [e]) (rp_blobs p)"
    "relay_reachable parse (rp_relay p) \<Longrightarrow> relay_reachable parse (rp_relay p')" by auto
qed

lemma requests_Cons: "requests (e # es) = requests [e] @ requests es"
  by (cases e; cases "snd e") auto

lemma run_halves:
  "process_run P parse p es p' \<Longrightarrow> relay_reachable parse (rp_relay p) \<Longrightarrow>
     rp_addr p' = rp_addr p \<and> rp_blobs p' = fold (relay_step P) (requests es) (rp_blobs p)
     \<and> relay_reachable parse (rp_relay p')"
proof (induction rule: process_run.induct)
  case (run_cons p e p' es p'')
  then show ?case
    using step_halves [OF run_cons.hyps(1)] by (simp add: requests_Cons [of e es])
qed simp

section \<open>The properties\<close>

text \<open>
  The start. The address is that of \<^verbatim>\<open>CLIPBRIDGE_BIND\<close>, or every interface on port 8787 when it is not
  set; an address that does not parse stops the process before the socket is bound.
\<close>

theorem relay_main_spec:
  "relay_main tcp_bind (\<lambda>_. None) =
     (case tcp_bind (SockV4 0 8787) of
        Inl e \<Rightarrow> Inl (BindFailed e)
      | Inr _ \<Rightarrow> Inr \<lparr>rp_addr = SockV4 0 8787, rp_relay = relay_init,
                       rp_blobs = blob_store_new (256 * 1024 * 1024) 300000 (32 * 1024 * 1024)\<rparr>)"
  "env (lit ''CLIPBRIDGE_BIND'') = Some (show_socket (SockV4 a port)) \<Longrightarrow>
     relay_main tcp_bind env =
       (case tcp_bind (SockV4 a port) of
          Inl e \<Rightarrow> Inl (BindFailed e)
        | Inr _ \<Rightarrow> Inr \<lparr>rp_addr = SockV4 a port, rp_relay = relay_init, rp_blobs = blob_store_from_env env\<rparr>)"
  "env (lit ''CLIPBRIDGE_BIND'') = Some s \<Longrightarrow> parse_socket s = None \<Longrightarrow> relay_main tcp_bind env = Inl InvalidBind"
proof -
  have "bind_address (\<lambda>_. None) = Some (SockV4 0 8787)"
    unfolding bind_address_def by code_simp
  moreover have "blob_store_from_env (\<lambda>_. None) = blob_store_new (256 * 1024 * 1024) 300000 (32 * 1024 * 1024)"
    by (simp add: blob_store_from_env_def parse_env_u64_def)
  ultimately show "relay_main tcp_bind (\<lambda>_. None) =
     (case tcp_bind (SockV4 0 8787) of
        Inl e \<Rightarrow> Inl (BindFailed e)
      | Inr _ \<Rightarrow> Inr \<lparr>rp_addr = SockV4 0 8787, rp_relay = relay_init,
                       rp_blobs = blob_store_new (256 * 1024 * 1024) 300000 (32 * 1024 * 1024)\<rparr>)"
    by (simp add: relay_main_def split: sum.split)
qed (simp_all add: relay_main_def bind_address_def parse_show_socket_v4 del: show_socket.simps)

lemma relay_main_started:
  assumes "relay_main tcp_bind env = Inr p"
  shows "bind_address env = Some (rp_addr p)" "rp_relay p = relay_init" "rp_blobs p = blob_store_from_env env"
  using assms by (auto simp: relay_main_def Let_def split: option.splits sum.splits)

text \<open>
  C6: The relay process stays within its bounds. A process that started from an environment whose
  largest blob fits its budget keeps, over any interleaving of HTTP requests, upgrades and
  the branches of its connections at any times: at most the budget in blobs, each within the limit
  and under its own digest; at most 32 clips waiting on a connection, of the group that connection
  joined; at most three recent clips for a group; distinct connections; and the address it bound.
\<close>

theorem relay_process_safe:
  assumes start: "relay_main tcp_bind env = Inr p0" and fits: "bs_max (rp_blobs p0) \<le> bs_budget (rp_blobs p0)"
    and run: "process_run P parse p0 es p"
  shows "bs_total (rp_blobs p) = map_bytes be_bytes (bs_inner (rp_blobs p)) \<and> bs_total (rp_blobs p) \<le> bs_budget (rp_blobs p0)
   \<and> (\<forall>(k, e) \<in> set (bs_inner (rp_blobs p)). length (be_bytes e) \<le> bs_max (rp_blobs p0) \<and> sha256_hex P (be_bytes e) = bk_sha k)
   \<and> wf_map (rl_conns (rp_relay p))
   \<and> (\<forall>(i, c) \<in> set (rl_conns (rp_relay p)). length (rx_clips c) \<le> BROADCAST_CAP \<and> map_option fst (wc_rx c) = wc_group c)
   \<and> (\<forall>(g, gr) \<in> set (hub_inner (rl_hub (rp_relay p))). length (gr_cache gr) \<le> RECENT_CAP)
   \<and> bind_address env = Some (rp_addr p)"
proof -
  note p0 = relay_main_started [OF start]
  have halves: "rp_addr p = rp_addr p0" "rp_blobs p = fold (relay_step P) (requests es) (rp_blobs p0)"
    "relay_reachable parse (rp_relay p)"
    using run_halves [OF run] p0(2) reach_init by auto
  have "relay_inv P (rp_blobs p0)"
    using fits by (simp add: p0(3) relay_inv_def store_inv_def blob_store_from_env_def blob_store_new_def Let_def)
  note blobs = relay_store_run [OF this, of "requests es", folded halves(2), unfolded Let_def]
  have "relay_ok (rp_relay p)" using halves(3) by (rule relay_reachable_ok)
  with blobs p0(1) halves(1) show ?thesis by (fastforce simp: relay_ok_def conn_ok_def hub_inv_def)
qed

theorem relay_process_safe_witness:
  "\<exists>p. process_run demo_prims (\<lambda>_. Inl []) p [(3, EvUpgrade (SockV4 9 80)), (5, EvRequest (GetBlob [] []))]
       (p\<lparr>rp_relay := ws_handler 3 (SockV4 9 80) relay_init\<rparr>)
     \<and> rp_addr p = SockV4 0 8787 \<and> bs_total (rp_blobs p) \<le> 268435456"
proof -
  define p where "p = \<lparr>rp_addr = SockV4 0 8787, rp_relay = relay_init,
    rp_blobs = blob_store_new (256 * 1024 * 1024) 300000 (32 * 1024 * 1024)\<rparr>"
  have p: "relay_main (\<lambda>_. Inr ()) (\<lambda>_. None) = Inr p" "rp_addr p = SockV4 0 8787"
    "rp_blobs p = blob_store_new (256 * 1024 * 1024) 300000 (32 * 1024 * 1024)" "rp_relay p = relay_init"
    using relay_main_spec(1) [of "\<lambda>_. Inr ()"] by (simp_all add: p_def)
  let ?p = "p\<lparr>rp_relay := ws_handler 3 (SockV4 9 80) relay_init\<rparr>"
  have run: "process_run demo_prims (\<lambda>_. Inl []) p [(3, EvUpgrade (SockV4 9 80)), (5, EvRequest (GetBlob [] []))] ?p"
    using p(4) by (auto simp: process_run_cons relay_app_def get_blob_def relay_valid_sha256_def)
  have "bs_max (rp_blobs p) \<le> bs_budget (rp_blobs p)" by (simp add: p(3) blob_store_new_def)
  from relay_process_safe [OF p(1) this run] have "bs_total (rp_blobs p) \<le> 268435456"
    by (simp add: p(3) blob_store_new_def)
  with run p(2) show ?thesis by blast
qed

end
