(* ===== verification/Dedup.thy ===== *)
theory Dedup
  imports Prelude
begin

text \<open>
  \<open>DedupCache\<close> of \<^verbatim>\<open>core/src/client.rs\<close>: the (sender, ts) pairs accepted lately, oldest first, at
  most \<open>capacity\<close> of them, forgotten after \<open>ttl\<close> milliseconds. The clock is an argument.
\<close>

record dedup_cache =
  dd_entries :: "(str \<times> nat \<times> nat) list"
  dd_capacity :: nat
  dd_ttl :: nat

definition dedup_new :: "nat \<Rightarrow> nat \<Rightarrow> dedup_cache" where
  "dedup_new capacity ttl = \<lparr>dd_entries = [], dd_capacity = capacity, dd_ttl = ttl\<rparr>"

text \<open>The loop over the front of the queue.\<close>

fun drop_expired :: "nat \<Rightarrow> nat \<Rightarrow> (str \<times> nat \<times> nat) list \<Rightarrow> (str \<times> nat \<times> nat) list" where
  "drop_expired now ttl [] = []"
| "drop_expired now ttl ((s, ts, t) # es) =
     (if now - t > ttl then drop_expired now ttl es else (s, ts, t) # es)"

definition dedup_insert :: "nat \<Rightarrow> str \<Rightarrow> nat \<Rightarrow> dedup_cache \<Rightarrow> bool \<times> dedup_cache" where
  "dedup_insert now sender ts d =
     (let es = drop_expired now (dd_ttl d) (dd_entries d)
      in if list_ex (\<lambda>(s, t, _). s = sender \<and> t = ts) es then (False, d\<lparr>dd_entries := es\<rparr>)
         else
           (let es' = (if length es = dd_capacity d then tl es else es)
            in (True, d\<lparr>dd_entries := es' @ [(sender, ts, now)]\<rparr>)))"

text \<open>A run over arrivals (time, sender, ts), with the verdict on each.\<close>

fun dedup_run :: "(nat \<times> str \<times> nat) list \<Rightarrow> dedup_cache \<Rightarrow> bool list \<times> dedup_cache" where
  "dedup_run [] d = ([], d)"
| "dedup_run ((now, s, ts) # es) d =
     (let (r, d') = dedup_insert now s ts d; (rs, d'') = dedup_run es d' in (r # rs, d''))"

lemma dedup_insert_config [simp]:
  "dd_capacity (snd (dedup_insert now s ts d)) = dd_capacity d"
  "dd_ttl (snd (dedup_insert now s ts d)) = dd_ttl d"
  by (simp_all add: dedup_insert_def Let_def)

lemma drop_expired_suffix: "suffix (drop_expired now ttl es) es"
  by (induction now ttl es rule: drop_expired.induct) (auto intro: suffix_ConsI)

text \<open>In clock order everything that has not expired survives.\<close>

definition in_order :: "nat \<Rightarrow> (str \<times> nat \<times> nat) list \<Rightarrow> bool" where
  "in_order now es \<longleftrightarrow> sorted (map (\<lambda>e. snd (snd e)) es) \<and> (\<forall>e \<in> set es. snd (snd e) \<le> now)"

lemma in_order_suffix: "in_order now es \<Longrightarrow> suffix es' es \<Longrightarrow> in_order now es'"
proof -
  assume order: "in_order now es" and "suffix es' es"
  then obtain zs where es: "es = zs @ es'" by (auto simp: suffix_def)
  show ?thesis
    using order by (auto simp: in_order_def es sorted_append)
qed

lemma drop_expired_all:
  "in_order now es \<Longrightarrow> \<forall>e \<in> set (drop_expired now ttl es). now - snd (snd e) \<le> ttl"
proof (induction now ttl es rule: drop_expired.induct)
  case (2 now ttl s ts t es)
  have order: "in_order now es" "\<forall>e \<in> set es. t \<le> snd (snd e)"
    using "2.prems" by (auto simp: in_order_def)
  show ?case
  proof (cases "now - t > ttl")
    case True
    then show ?thesis using "2.IH" [OF True order(1)] by simp
  next
    case False
    then show ?thesis using order(2) by auto
  qed
qed simp

lemma drop_expired_keeps:
  "in_order now (a @ [(s, ts, t)] @ b) \<Longrightarrow> now - t \<le> ttl \<Longrightarrow>
     \<exists>a'. drop_expired now ttl (a @ [(s, ts, t)] @ b) = a' @ [(s, ts, t)] @ b \<and> length a' \<le> length a"
proof (induction a)
  case (Cons e a)
  obtain s' ts' t' where e: "e = (s', ts', t')" by (cases e) auto
  have order: "in_order now (a @ [(s, ts, t)] @ b)"
    using Cons.prems(1) by (auto simp: in_order_def)
  show ?case
  proof (cases "now - t' > ttl")
    case True
    with Cons.IH [OF order Cons.prems(2)] show ?thesis by (auto simp: e)
  next
    case False
    then show ?thesis by (intro exI [of _ "e # a"]) (simp add: e)
  qed
qed (simp add: in_order_def)

lemma dedup_insert_order:
  assumes "in_order now (dd_entries d)"
  shows "in_order now (dd_entries (snd (dedup_insert now s ts d)))"
proof -
  have es: "in_order now (drop_expired now (dd_ttl d) (dd_entries d))"
    using assms drop_expired_suffix by (rule in_order_suffix)
  then have "in_order now (tl (drop_expired now (dd_ttl d) (dd_entries d)))"
    by (rule in_order_suffix) (rule suffix_tl)
  with es show ?thesis
    by (auto simp: dedup_insert_def Let_def in_order_def sorted_append)
qed

lemma in_order_later: "in_order now es \<Longrightarrow> now \<le> later \<Longrightarrow> in_order later es"
  by (auto simp: in_order_def)

text \<open>An accepted pair stays known while its time to live lasts and fewer than capacity
  others are accepted after it.\<close>

lemma dedup_run_keeps:
  "dd_entries d = a @ [(s, ts, t0)] @ b \<Longrightarrow> in_order n0 (dd_entries d) \<Longrightarrow>
   sorted (n0 # map fst es) \<Longrightarrow> \<forall>now \<in> set (map fst es). now - t0 \<le> dd_ttl d \<Longrightarrow>
   length b + length (filter (\<lambda>r. r) (fst (dedup_run es d))) < dd_capacity d \<Longrightarrow>
   \<exists>a' b'. dd_entries (snd (dedup_run es d)) = a' @ [(s, ts, t0)] @ b'
      \<and> in_order (last (n0 # map fst es)) (dd_entries (snd (dedup_run es d)))
      \<and> dd_ttl (snd (dedup_run es d)) = dd_ttl d"
proof (induction es d arbitrary: a b n0 rule: dedup_run.induct)
  case (2 now s' ts' es d)
  obtain r d' where ins: "dedup_insert now s' ts' d = (r, d')" by fastforce
  have order: "in_order now (dd_entries d)"
    using "2.prems"(2,3) by (auto intro: in_order_later)
  obtain a1 where a1: "drop_expired now (dd_ttl d) (dd_entries d) = a1 @ [(s, ts, t0)] @ b" "length a1 \<le> length a"
    using drop_expired_keeps [of now a s ts t0 b "dd_ttl d"] order "2.prems"(1,4) by auto
  have order': "in_order now (dd_entries d')" using dedup_insert_order [OF order, of s' ts'] ins by simp
  have config: "dd_capacity d' = dd_capacity d" "dd_ttl d' = dd_ttl d"
    using dedup_insert_config [of now s' ts' d] ins by simp_all
  have run: "fst (dedup_run ((now, s', ts') # es) d) = r # fst (dedup_run es d')"
    "snd (dedup_run ((now, s', ts') # es) d) = snd (dedup_run es d')"
    by (simp_all add: ins case_prod_unfold Let_def)
  have room: "length b + (if r then 1 else 0) + length (filter (\<lambda>r. r) (fst (dedup_run es d'))) < dd_capacity d"
    using "2.prems"(5) unfolding run by (simp split: if_splits)
  have "\<exists>a2 b2. dd_entries d' = a2 @ [(s, ts, t0)] @ b2 \<and> length b2 = length b + (if r then 1 else 0)"
  proof (cases "list_ex (\<lambda>(s, t, _). s = s' \<and> t = ts') (drop_expired now (dd_ttl d) (dd_entries d))")
    case True
    then have "r = False" "dd_entries d' = a1 @ [(s, ts, t0)] @ b"
      using ins a1(1) by (auto simp: dedup_insert_def Let_def)
    then show ?thesis by auto
  next
    case False
    then have r: "r" and d': "dd_entries d' = (if length (a1 @ [(s, ts, t0)] @ b) = dd_capacity d
        then tl (a1 @ [(s, ts, t0)] @ b) else a1 @ [(s, ts, t0)] @ b) @ [(s', ts', now)]"
      using ins by (auto simp: dedup_insert_def Let_def a1(1))
    show ?thesis
    proof (cases a1)
      case Nil
      then have "length (a1 @ [(s, ts, t0)] @ b) \<noteq> dd_capacity d" using room r by simp
      then show ?thesis using d' Nil r by (intro exI [of _ "[]"] exI [of _ "b @ [(s', ts', now)]"]) simp
    next
      case (Cons x xs)
      then show ?thesis using d' r
        by (intro exI [of _ "if length (a1 @ [(s, ts, t0)] @ b) = dd_capacity d then xs else a1"]
            exI [of _ "b @ [(s', ts', now)]"]) simp
    qed
  qed
  then obtain a2 b2 where ab: "dd_entries d' = a2 @ [(s, ts, t0)] @ b2"
    "length b2 = length b + (if r then 1 else 0)" by blast
  have "\<exists>a' b'. dd_entries (snd (dedup_run es d')) = a' @ [(s, ts, t0)] @ b'
      \<and> in_order (last (now # map fst es)) (dd_entries (snd (dedup_run es d')))
      \<and> dd_ttl (snd (dedup_run es d')) = dd_ttl d'"
    by (rule "2.IH" [OF ins [symmetric] refl ab(1) order'])
      (use "2.prems" ab(2) room config in auto)
  then show ?case unfolding run config by simp
qed auto

lemma dedup_repeat_rejected:
  assumes order: "in_order now (dd_entries d)" and new: "fst (dedup_insert now s ts d)"
    and later: "now \<le> later" "later - now \<le> dd_ttl d"
  shows "fst (dedup_insert later s ts (snd (dedup_insert now s ts d))) = False"
proof -
  let ?d = "snd (dedup_insert now s ts d)"
  have "\<exists>a. dd_entries ?d = a @ [(s, ts, now)] @ []"
    using new by (auto simp: dedup_insert_def Let_def split: if_splits)
  then obtain a where a: "dd_entries ?d = a @ [(s, ts, now)] @ []" by blast
  have "in_order later (dd_entries ?d)"
    using dedup_insert_order [OF order] later(1) by (rule in_order_later)
  from drop_expired_keeps [OF this [unfolded a] later(2)] obtain a' where
    "drop_expired later (dd_ttl d) (dd_entries ?d) = a' @ [(s, ts, now)] @ []" by (auto simp: a)
  then show ?thesis by (simp add: dedup_insert_def [of later] Let_def)
qed

text \<open>Within one window no pair is accepted twice.\<close>

lemma dedup_run_append:
  "fst (dedup_run (es @ es') d) = fst (dedup_run es d) @ fst (dedup_run es' (snd (dedup_run es d)))"
  by (induction es arbitrary: d) (auto simp: case_prod_unfold Let_def)

lemma length_dedup_run [simp]: "length (fst (dedup_run es d)) = length es"
  by (induction es arbitrary: d) (auto simp: case_prod_unfold Let_def)

definition accepted_keys :: "(nat \<times> str \<times> nat) list \<Rightarrow> dedup_cache \<Rightarrow> (str \<times> nat) list" where
  "accepted_keys es d = map (\<lambda>e. snd (snd e)) (filter fst (zip (fst (dedup_run es d)) es))"

lemma accepted_keys_append:
  "accepted_keys (es @ es') d = accepted_keys es d @ accepted_keys es' (snd (dedup_run es d))"
  by (simp add: accepted_keys_def dedup_run_append)

lemma accepted_keys_Cons:
  "accepted_keys ((now, s, ts) # es) d =
     (if fst (dedup_insert now s ts d) then [(s, ts)] else []) @ accepted_keys es (snd (dedup_insert now s ts d))"
  by (simp add: accepted_keys_def case_prod_unfold Let_def)

lemma count_le_length: "length (filter (\<lambda>r. r) (fst (dedup_run es d))) \<le> length es"
  using length_filter_le [of "\<lambda>r. r" "fst (dedup_run es d)"] by simp

lemma accepted_not_again:
  assumes e: "dd_entries d = a @ [(s, ts, t0)]" and order: "in_order n0 (dd_entries d)"
    and sorted: "sorted (n0 # map fst es)" and window: "\<forall>now \<in> set (map fst es). now - t0 \<le> dd_ttl d"
    and few: "length es \<le> dd_capacity d"
  shows "(s, ts) \<notin> set (accepted_keys es d)"
proof
  assume "(s, ts) \<in> set (accepted_keys es d)"
  then obtain now where "(True, now, s, ts) \<in> set (zip (fst (dedup_run es d)) es)"
    by (auto simp: accepted_keys_def)
  then obtain i where i: "i < length es" "es ! i = (now, s, ts)" "fst (dedup_run es d) ! i"
    by (auto simp: in_set_zip)
  obtain es1 es2 where es: "es = es1 @ (now, s, ts) # es2" "length es1 = i"
    using i id_take_nth_drop [of i es] by (metis length_take less_or_eq_imp_le min.absorb2)
  have verdict: "fst (dedup_insert now s ts (snd (dedup_run es1 d)))"
    using i(3) by (simp add: es dedup_run_append nth_append case_prod_unfold Let_def)
  have sorted': "sorted (n0 # map fst es1)" "\<forall>t \<in> set (n0 # map fst es1). t \<le> now"
    using sorted by (auto simp: es sorted_append)
  have few': "length (filter (\<lambda>r. r) (fst (dedup_run es1 d))) < dd_capacity d"
    using count_le_length [of es1 d] few by (simp add: es)
  have window': "\<forall>t \<in> set (map fst es1). t - t0 \<le> dd_ttl d" "now - t0 \<le> dd_ttl d"
    using window by (auto simp: es)
  from dedup_run_keeps [of d a s ts t0 "[]", OF _ order sorted'(1) window'(1)] e few'
  obtain a' b' where keep: "dd_entries (snd (dedup_run es1 d)) = a' @ [(s, ts, t0)] @ b'"
    "in_order (last (n0 # map fst es1)) (dd_entries (snd (dedup_run es1 d)))"
    "dd_ttl (snd (dedup_run es1 d)) = dd_ttl d"
    by auto
  have "last (n0 # map fst es1) \<le> now" using sorted'(2) last_in_set by blast
  then have "in_order now (a' @ [(s, ts, t0)] @ b')" using keep in_order_later by metis
  with window'(2) obtain a2 where "drop_expired now (dd_ttl d) (a' @ [(s, ts, t0)] @ b') = a2 @ [(s, ts, t0)] @ b'"
    using drop_expired_keeps by metis
  then show False using verdict keep by (simp add: dedup_insert_def Let_def)
qed

lemma accepted_keys_distinct:
  "in_order n0 (dd_entries d) \<Longrightarrow> sorted (n0 # map fst es) \<Longrightarrow> \<forall>now \<in> set (map fst es). now - n0 \<le> dd_ttl d \<Longrightarrow>
     length es \<le> dd_capacity d \<Longrightarrow> distinct (accepted_keys es d)"
proof (induction es arbitrary: d n0)
  case (Cons e es)
  obtain now s ts where e: "e = (now, s, ts)" by (cases e)
  let ?d = "snd (dedup_insert now s ts d)"
  have "in_order now (dd_entries d)" using Cons.prems(1,2) e by (auto intro: in_order_later)
  then have order: "in_order now (dd_entries ?d)" by (rule dedup_insert_order)
  have sorted: "sorted (now # map fst es)" using Cons.prems(2) e by simp
  have window: "\<forall>t \<in> set (map fst es). t - now \<le> dd_ttl ?d"
    using Cons.prems(2,3) by (fastforce simp: e)
  have few: "length es \<le> dd_capacity ?d" using Cons.prems(4) by simp
  have "(s, ts) \<notin> set (accepted_keys es ?d)" if new: "fst (dedup_insert now s ts d)"
  proof -
    obtain a where "dd_entries ?d = a @ [(s, ts, now)]"
      using new by (auto simp: dedup_insert_def Let_def split: if_splits)
    from accepted_not_again [OF this order sorted window few] show ?thesis .
  qed
  then show ?case using Cons.IH [OF order sorted window few] by (simp add: e accepted_keys_Cons)
qed (simp add: accepted_keys_def)

section \<open>The properties\<close>

text \<open>
  A clip is delivered at most once. Once a (sender, ts) pair was accepted, every later arrival
  of the same pair is rejected as long as the clock is within the time to live of the acceptance
  and fewer than capacity other pairs were accepted in between, over any sequence of arrivals from
  both transports in clock order.
\<close>

theorem dedup_at_most_once:
  assumes d: "in_order n0 (dd_entries d)" and sorted: "sorted (n0 # map fst es @ [t1])"
    and t0: "es = (t0, s, ts) # mid" and accepted: "hd (fst (dedup_run es d))"
    and fresh: "t1 - t0 \<le> dd_ttl d"
    and few: "length (filter (\<lambda>r. r) (fst (dedup_run es d))) \<le> dd_capacity d"
  shows "fst (dedup_insert t1 s ts (snd (dedup_run es d))) = False"
proof -
  obtain r d' where ins: "dedup_insert t0 s ts d = (r, d')" by fastforce
  have r: "r" using accepted ins by (simp add: t0 case_prod_unfold Let_def)
  have run: "fst (dedup_run es d) = r # fst (dedup_run mid d')" "snd (dedup_run es d) = snd (dedup_run mid d')"
    using ins by (simp_all add: t0 case_prod_unfold Let_def)
  have "\<exists>a. dd_entries d' = a @ [(s, ts, t0)] @ []"
    using ins r by (auto simp: dedup_insert_def Let_def split: if_splits)
  then obtain a where a: "dd_entries d' = a @ [(s, ts, t0)] @ []" by blast
  have "in_order t0 (dd_entries d)" using d sorted t0 by (auto intro: in_order_later)
  then have order': "in_order t0 (dd_entries d')"
    using dedup_insert_order [of t0 d s ts] ins by simp
  have config: "dd_capacity d' = dd_capacity d" "dd_ttl d' = dd_ttl d"
    using dedup_insert_config [of t0 s ts d] ins by simp_all
  have le: "\<forall>now \<in> set (map fst mid). now \<le> t1" "sorted (t0 # map fst mid)"
    using sorted t0 by (auto simp: sorted_append)
  then have "\<forall>now \<in> set (map fst mid). now - t0 \<le> dd_ttl d'"
    using fresh config by fastforce
  from dedup_run_keeps [OF a order' le(2) this] few r run config
  obtain a' b' where keep: "dd_entries (snd (dedup_run mid d')) = a' @ [(s, ts, t0)] @ b'"
    and ord: "in_order (last (t0 # map fst mid)) (dd_entries (snd (dedup_run mid d')))"
    and ttl: "dd_ttl (snd (dedup_run mid d')) = dd_ttl d" by auto
  have "t0 \<le> t1" using sorted t0 by (auto simp: sorted_append)
  then have "\<forall>x \<in> set (t0 # map fst mid). x \<le> t1" using le(1) by simp
  then have "last (t0 # map fst mid) \<le> t1" using last_in_set by blast
  then have "in_order t1 (a' @ [(s, ts, t0)] @ b')" using ord keep in_order_later by metis
  from drop_expired_keeps [OF this, of "dd_ttl d"] fresh obtain a2 where
    "drop_expired t1 (dd_ttl d) (a' @ [(s, ts, t0)] @ b') = a2 @ [(s, ts, t0)] @ b'" by auto
  then show ?thesis
    unfolding run by (simp add: dedup_insert_def Let_def keep ttl)
qed

theorem dedup_at_most_once_witness:
  "fst (dedup_insert 9 [1] 5 (snd (dedup_run [(3, [1], 5), (4, [2], 5)] (dedup_new 2 10)))) = False"
  by (rule dedup_at_most_once [of 0 _ _ 9 3 _ _ "[(4, [2], 5)]"])
    (simp_all add: dedup_new_def in_order_def dedup_insert_def)

text \<open>
  A new clip is never mistaken for an old one. With a positive capacity the cache never holds
  more pairs than that, never a pair twice, and rejects an arrival only if the very same pair was
  accepted before, no longer ago than the time to live.
\<close>

definition dedup_inv :: "nat \<Rightarrow> dedup_cache \<Rightarrow> bool" where
  "dedup_inv now d \<longleftrightarrow>
     in_order now (dd_entries d) \<and> length (dd_entries d) \<le> dd_capacity d
     \<and> distinct (map (\<lambda>(s, ts, t). (s, ts)) (dd_entries d))"

lemma dedup_insert_inv:
  assumes inv: "dedup_inv n0 d" and "n0 \<le> now" and cap: "0 < dd_capacity d"
  shows "dedup_inv now (snd (dedup_insert now s ts d))"
proof -
  let ?es = "drop_expired now (dd_ttl d) (dd_entries d)"
  have ord: "in_order now (dd_entries d)" using assms in_order_later by (auto simp: dedup_inv_def)
  have suf: "suffix ?es (dd_entries d)" by (rule drop_expired_suffix)
  then have len: "length ?es \<le> dd_capacity d"
    using inv suffix_length_le by (fastforce simp: dedup_inv_def)
  have dist: "distinct (map (\<lambda>(s, ts, t). (s, ts)) ?es)"
    using inv suf unfolding dedup_inv_def suffix_def by (metis distinct_append map_append)
  then have dist': "distinct (map (\<lambda>(s, ts, t). (s, ts)) (tl ?es))" by (cases ?es) auto
  have "in_order now (dd_entries (snd (dedup_insert now s ts d)))"
    by (rule dedup_insert_order [OF ord])
  moreover have "set (tl ?es) \<subseteq> set ?es" by (cases ?es) auto
  ultimately show ?thesis
    using len cap dist dist'
    by (fastforce simp: dedup_inv_def dedup_insert_def Let_def list_ex_iff)
qed

lemma dedup_run_inv:
  "dedup_inv n0 d \<Longrightarrow> sorted (n0 # map fst es) \<Longrightarrow> 0 < dd_capacity d \<Longrightarrow>
     dedup_inv (last (n0 # map fst es)) (snd (dedup_run es d))
     \<and> dd_capacity (snd (dedup_run es d)) = dd_capacity d \<and> dd_ttl (snd (dedup_run es d)) = dd_ttl d
     \<and> set (dd_entries (snd (dedup_run es d))) \<subseteq> set (dd_entries d) \<union>
         {(s, ts, t). (True, t, s, ts) \<in> set (zip (fst (dedup_run es d)) es)}"
proof (induction es d arbitrary: n0 rule: dedup_run.induct)
  case (2 now s ts es d)
  obtain r d' where ins: "dedup_insert now s ts d = (r, d')" by fastforce
  have inv': "dedup_inv now d'"
    using dedup_insert_inv [OF "2.prems"(1), of now s ts] "2.prems"(2,3) ins by simp
  have config: "dd_capacity d' = dd_capacity d" "dd_ttl d' = dd_ttl d"
    using dedup_insert_config [of now s ts d] ins by simp_all
  have "set (drop_expired now (dd_ttl d) (dd_entries d)) \<subseteq> set (dd_entries d)"
    using drop_expired_suffix by (rule set_mono_suffix)
  moreover have "set (tl xs) \<subseteq> set xs" for xs :: "(str \<times> nat \<times> nat) list" by (cases xs) auto
  ultimately have sub: "set (dd_entries d') \<subseteq> set (dd_entries d) \<union> (if r then {(s, ts, now)} else {})"
    using ins by (fastforce simp: dedup_insert_def Let_def split: if_splits)
  show ?case
    using "2.IH" [OF ins [symmetric] refl inv'] "2.prems" config sub
    by (fastforce simp: ins case_prod_unfold Let_def split: if_splits)
qed simp

theorem dedup_only_repeats:
  assumes "sorted (map fst es @ [now])" and "0 < capacity"
  shows "let (verdicts, d) = dedup_run es (dedup_new capacity ttl)
     in length (dd_entries d) \<le> capacity \<and> distinct (map (\<lambda>(s, ts, t). (s, ts)) (dd_entries d))
        \<and> (fst (dedup_insert now s ts d) = False \<longrightarrow>
             (\<exists>t. now - t \<le> ttl \<and> (True, t, s, ts) \<in> set (zip verdicts es)))"
proof -
  let ?d = "snd (dedup_run es (dedup_new capacity ttl))"
  have "sorted (0 # map fst es)" using assms(1) by (simp add: sorted_append)
  moreover have "dedup_inv 0 (dedup_new capacity ttl)"
    by (simp add: dedup_inv_def dedup_new_def in_order_def)
  ultimately have run: "dedup_inv (last (0 # map fst es)) ?d" "dd_capacity ?d = capacity" "dd_ttl ?d = ttl"
    "set (dd_entries ?d) \<subseteq> {(s, ts, t). (True, t, s, ts) \<in> set (zip (fst (dedup_run es (dedup_new capacity ttl))) es)}"
    using dedup_run_inv [of 0 "dedup_new capacity ttl" es] assms(2) by (auto simp: dedup_new_def)
  have "last (0 # map fst es) \<le> now"
    using assms(1) by (cases es rule: rev_cases) (auto simp: sorted_append)
  then have ord: "in_order now (dd_entries ?d)" using run(1) in_order_later by (auto simp: dedup_inv_def)
  have "\<exists>t. now - t \<le> ttl \<and> (True, t, s, ts) \<in> set (zip (fst (dedup_run es (dedup_new capacity ttl))) es)"
    if "fst (dedup_insert now s ts ?d) = False"
  proof -
    from that obtain t where t: "(s, ts, t) \<in> set (drop_expired now ttl (dd_entries ?d))"
      by (auto simp: dedup_insert_def Let_def list_ex_iff run(3) split: if_splits)
    then have "now - t \<le> ttl" using drop_expired_all [OF ord] by fastforce
    moreover have "(s, ts, t) \<in> set (dd_entries ?d)"
      using t set_mono_suffix [OF drop_expired_suffix] by blast
    ultimately show ?thesis using run(4) by blast
  qed
  then show ?thesis using run by (simp add: Let_def case_prod_unfold dedup_inv_def)
qed

theorem dedup_only_repeats_witness:
  "length (dd_entries (snd (dedup_run [(3, [1], 5), (4, [1], 5)] (dedup_new 2 10)))) \<le> 2"
  using dedup_only_repeats [of "[(3, [1], 5), (4, [1], 5)]" 4 2 10] by (simp add: Let_def case_prod_unfold)

end
