(* ===== verification/ClientSession.thy ===== *)
theory ClientSession
  imports Protocol Dedup
begin

text \<open>
  One relay session of \<^verbatim>\<open>core/src/client.rs\<close>: the URL, the setup, the commands, the messages of
  the relay, and the loop. The session's state is a record; the socket is the list of frames sent,
  with an oracle for the sends that fail and their error text; what the atomics, the network interfaces and the clock
  say at a step is the environment record of that step.
\<close>

datatype connection_state = Connecting | Connected | Disconnected | StateError str

datatype listener_event = OnClip clip_payload | OnState connection_state

datatype cmd = SendClip clip_payload | CmdFetchRecent | RefreshLan | CmdStop

datatype session_exit = ExitStop | ExitReconnect

datatype ws_frame =
    TextMsg client_message | PingMsg bytes | PongMsg bytes | CloseMsg

definition C_PING_EVERY :: nat where "C_PING_EVERY = 30 * 1000"
definition C_IDLE_TIMEOUT :: nat where "C_IDLE_TIMEOUT = 60 * 1000"
definition LIVENESS_PROBE_TIMEOUT :: nat where "LIVENESS_PROBE_TIMEOUT = 8 * 1000"
definition CONNECT_TIMEOUT :: nat where "CONNECT_TIMEOUT = 15 * 1000"
definition LAN_ADVERTISE_REFRESH_EVERY :: nat where "LAN_ADVERTISE_REFRESH_EVERY = 5 * 1000"

section \<open>URLs\<close>

definition ws_url :: "str \<Rightarrow> str" where
  "ws_url relay_url =
     (let u = trim_end_where (\<lambda>c. c = 47) relay_url;
          normalized =
            (if starts_with (lit ''https://'') u then lit ''wss://'' @ drop 8 u
             else if starts_with (lit ''http://'') u then lit ''ws://'' @ drop 7 u
             else u)
      in normalized @ lit ''/ws'')"

section \<open>Advertisements\<close>

text \<open>
  The order \<open>sort_by\<close> uses: the address, then the prefix length. They are all the fields, so the
  order is a linear order on candidates.
\<close>

instantiation lan_candidate_ext :: (linorder) linorder
begin

definition less_eq_lan_candidate_ext :: "'a lan_candidate_scheme \<Rightarrow> 'a lan_candidate_scheme \<Rightarrow> bool" where
  "less_eq_lan_candidate_ext a b \<longleftrightarrow>
     lc_addr a < lc_addr b
     \<or> lc_addr a = lc_addr b
       \<and> (lc_prefix_len a < lc_prefix_len b
          \<or> lc_prefix_len a = lc_prefix_len b \<and> lan_candidate.more a \<le> lan_candidate.more b)"

definition less_lan_candidate_ext :: "'a lan_candidate_scheme \<Rightarrow> 'a lan_candidate_scheme \<Rightarrow> bool" where
  "less_lan_candidate_ext a b \<longleftrightarrow> a \<le> b \<and> \<not> b \<le> a"

instance
  by intro_classes (auto simp: less_eq_lan_candidate_ext_def less_lan_candidate_ext_def
      intro: lan_candidate.equality)

end

definition normalize_lan_candidate_networks :: "lan_candidate list \<Rightarrow> lan_candidate list" where
  "normalize_lan_candidate_networks candidates =
     remdups_adj (sort candidates)"

definition lan_advertise_refresh_needed ::
  "lan_candidate list option \<Rightarrow> lan_candidate list \<Rightarrow> bool \<Rightarrow> bool" where
  "lan_advertise_refresh_needed last_adv current force =
     (if force then current \<noteq> []
      else case last_adv of
        Some l \<Rightarrow> l \<noteq> current
      | None \<Rightarrow> current \<noteq> [])"

section \<open>The state and the environment\<close>

record client_codec =
  cc_prims :: prims
  cc_payload_enc :: "clip_payload \<Rightarrow> str + bytes"
  cc_payload_dec :: "bytes \<Rightarrow> clip_payload option"
  cc_server_dec :: "str \<Rightarrow> str + server_message"

record session_ctx =
  sc_relay_url :: str
  sc_group :: str
  sc_key :: bytes
  sc_device_id :: str
  sc_device_name :: str
  sc_send_error :: "nat \<Rightarrow> str option"
  sc_nonce :: "nat \<Rightarrow> bytes"

record session_state =
  ss_out :: "ws_frame list"
  ss_events :: "listener_event list"
  ss_broadcast :: "(str \<times> nat \<times> clip_payload) list"
  ss_ingested :: "lan_peer list list"
  ss_dedup :: dedup_cache
  ss_adv_error_pending :: bool
  ss_adv_disabled :: bool
  ss_last_adv :: "lan_candidate list option"
  ss_last_seen :: nat
  ss_probe :: "nat option"
  ss_reconnect_requested :: bool

text \<open>\<open>se_lan\<close>: None without a LAN node, otherwise what \<open>advertise_candidate_networks\<close> returns
  now. In the context, \<open>sc_send_error n\<close> is the error of the send after n frames went out, if it
  fails, and \<open>sc_nonce n\<close> the nonce the random generator draws for the clip sent then.\<close>

record senv =
  se_now :: nat
  se_idle_mode :: bool
  se_lan_active :: bool
  se_lan :: "lan_candidate list option"

definition session_state_new :: "nat \<Rightarrow> dedup_cache \<Rightarrow> bool \<Rightarrow> session_state" where
  "session_state_new now d requested =
     \<lparr>ss_out = [], ss_events = [], ss_broadcast = [], ss_ingested = [], ss_dedup = d,
      ss_adv_error_pending = False, ss_adv_disabled = False, ss_last_adv = None,
      ss_last_seen = now, ss_probe = None, ss_reconnect_requested = requested\<rparr>"

definition emit :: "listener_event \<Rightarrow> session_state \<Rightarrow> session_state" where
  "emit e st = st\<lparr>ss_events := ss_events st @ [e]\<rparr>"

text \<open>\<open>ws.send(..).await?\<close>: an error ends the session with its text.\<close>

definition ws_put :: "session_ctx \<Rightarrow> ws_frame \<Rightarrow> session_state \<Rightarrow> (str + unit) \<times> session_state" where
  "ws_put ctx f st =
     (case sc_send_error ctx (length (ss_out st)) of
        None \<Rightarrow> (Inr (), st\<lparr>ss_out := ss_out st @ [f]\<rparr>)
      | Some e \<Rightarrow> (Inl e, st))"

fun then_s ::
  "(str + 'a) \<times> session_state \<Rightarrow> ('a \<Rightarrow> session_state \<Rightarrow> (str + 'b) \<times> session_state) \<Rightarrow> (str + 'b) \<times> session_state" where
  "then_s (Inl e, st) k = (Inl e, st)"
| "then_s (Inr x, st) k = k x st"

definition send_advertise ::
  "session_ctx \<Rightarrow> lan_candidate list \<Rightarrow> session_state \<Rightarrow> (str + unit) \<times> session_state" where
  "send_advertise ctx nets st =
     then_s (ws_put ctx (TextMsg (LanAdvertise (sc_group ctx) (sc_device_id ctx) (sc_device_name ctx)
                                    (map lc_addr nets) nets)) st)
       (\<lambda>_ st. (Inr (), st\<lparr>ss_adv_error_pending := True, ss_last_adv := Some nets\<rparr>))"

section \<open>Commands\<close>

definition send_clip ::
  "client_codec \<Rightarrow> session_ctx \<Rightarrow> senv \<Rightarrow> clip_payload \<Rightarrow> session_state
     \<Rightarrow> (str + session_exit option) \<times> session_state" where
  "send_clip C ctx env payload st =
     (let st = (case se_lan env of
                  Some _ \<Rightarrow> st\<lparr>ss_broadcast := ss_broadcast st @ [(sc_device_id ctx, cp_ts payload, payload)]\<rparr>
                | None \<Rightarrow> st)
      in case cc_payload_enc C payload of
           Inl e \<Rightarrow> (Inl e, st)
         | Inr plaintext \<Rightarrow>
             (case encrypt (cc_prims C) (sc_nonce ctx (length (ss_out st))) (sc_key ctx) plaintext of
                Inl e \<Rightarrow> (Inl (crypto_error_text e), st)
              | Inr (ciphertext, nonce) \<Rightarrow>
                  then_s (ws_put ctx (TextMsg (Publish (sc_group ctx) ciphertext nonce (cp_ts payload))) st)
                    (\<lambda>_ st. (Inr None, st))))"

definition refresh_lan ::
  "session_ctx \<Rightarrow> senv \<Rightarrow> bool \<Rightarrow> session_state \<Rightarrow> (str + unit) \<times> session_state" where
  "refresh_lan ctx env force st =
     (case se_lan env of
        Some lan \<Rightarrow>
          if \<not> ss_adv_disabled st \<and> se_lan_active env
          then (let nets = normalize_lan_candidate_networks lan
                in if lan_advertise_refresh_needed (ss_last_adv st) nets force
                   then send_advertise ctx nets st else (Inr (), st))
          else (Inr (), st)
      | None \<Rightarrow> (Inr (), st))"

definition apply_session_cmd ::
  "client_codec \<Rightarrow> session_ctx \<Rightarrow> senv \<Rightarrow> cmd \<Rightarrow> session_state
     \<Rightarrow> (str + session_exit option) \<times> session_state" where
  "apply_session_cmd C ctx env c st =
     (case c of
        CmdStop \<Rightarrow> (Inr (Some ExitStop), snd (ws_put ctx CloseMsg st))
      | SendClip payload \<Rightarrow> send_clip C ctx env payload st
      | CmdFetchRecent \<Rightarrow>
          then_s (ws_put ctx (TextMsg (FetchRecent (sc_group ctx))) st) (\<lambda>_ st. (Inr None, st))
      | RefreshLan \<Rightarrow> then_s (refresh_lan ctx env True st) (\<lambda>_ st. (Inr None, st)))"

section \<open>Messages of the relay\<close>

definition is_lan_advertise_compat_error :: "str \<Rightarrow> bool" where
  "is_lan_advertise_compat_error reason \<longleftrightarrow>
     str_contains (lit ''bad message:'') reason \<and> str_contains (lit ''unknown variant'') reason
     \<and> str_contains (lit ''lan_advertise'') reason"

text \<open>A relayed clip, live or from the recent cache: own clips and duplicates are dropped, and
  the listener hears of one only when it decrypts and parses.\<close>

definition deliver_clip ::
  "client_codec \<Rightarrow> session_ctx \<Rightarrow> nat \<Rightarrow> recent_clip \<Rightarrow> session_state \<Rightarrow> session_state" where
  "deliver_clip C ctx now clip st =
     (if rc_sender clip = sc_device_id ctx then st
      else
        (let (fresh, d) = dedup_insert now (rc_sender clip) (rc_ts clip) (ss_dedup st);
             st = st\<lparr>ss_dedup := d\<rparr>
         in if \<not> fresh then st
            else case decrypt (cc_prims C) (sc_key ctx) (rc_nonce clip) (rc_ciphertext clip) of
              Inl e \<Rightarrow> st
            | Inr plain \<Rightarrow>
                (case cc_payload_dec C plain of
                   None \<Rightarrow> st
                 | Some payload \<Rightarrow> emit (OnClip payload) st)))"

definition handle_server ::
  "client_codec \<Rightarrow> session_ctx \<Rightarrow> nat \<Rightarrow> server_message \<Rightarrow> session_state \<Rightarrow> session_state" where
  "handle_server C ctx now msg st =
     (case msg of
        Joined g \<Rightarrow> st
      | SClip ciphertext nonce ts sender \<Rightarrow>
          deliver_clip C ctx now
            \<lparr>rc_ciphertext = ciphertext, rc_nonce = nonce, rc_ts = ts, rc_sender = sender\<rparr> st
      | Recent clips \<Rightarrow> fold (deliver_clip C ctx now) clips st
      | SError reason \<Rightarrow>
          if ss_adv_error_pending st
          then (let st = st\<lparr>ss_adv_error_pending := False\<rparr>
                in if is_lan_advertise_compat_error reason then st\<lparr>ss_adv_disabled := True\<rparr>
                   else emit (OnState (StateError reason)) st)
          else emit (OnState (StateError reason)) st
      | LanPeers peers \<Rightarrow> st)"

section \<open>Setup and flush\<close>

datatype connect_result = ConnectOk | ConnectError str | ConnectTimeout

definition session_setup ::
  "session_ctx \<Rightarrow> senv \<Rightarrow> session_state \<Rightarrow> (str + unit) \<times> session_state" where
  "session_setup ctx env st =
     then_s (ws_put ctx (TextMsg (Join (sc_group ctx) (sc_device_id ctx))) st) (\<lambda>_ st.
     then_s (ws_put ctx (TextMsg (FetchRecent (sc_group ctx))) st) (\<lambda>_ st.
     then_s (case se_lan env of
               Some lan \<Rightarrow>
                 if se_lan_active env
                 then (let nets = normalize_lan_candidate_networks lan
                       in if nets \<noteq> [] then send_advertise ctx nets st else (Inr (), st))
                 else (Inr (), st)
             | None \<Rightarrow> (Inr (), st)) (\<lambda>_ st.
       (Inr (), (emit (OnState Connected) st)\<lparr>ss_last_seen := se_now env, ss_probe := None\<rparr>))))"

text \<open>The flush of the commands held back while suspended; the command at the front is taken out
  before it is applied.\<close>

fun flush_pending ::
  "client_codec \<Rightarrow> session_ctx \<Rightarrow> senv \<Rightarrow> cmd list \<Rightarrow> session_state
     \<Rightarrow> (str + session_exit option) \<times> session_state \<times> cmd list" where
  "flush_pending C ctx env [] st = (Inr None, st, [])"
| "flush_pending C ctx env (c # cs) st =
     (case apply_session_cmd C ctx env c st of
        (Inl e, st') \<Rightarrow> (Inl e, st', cs)
      | (Inr (Some ex), st') \<Rightarrow> (Inr (Some ex), st', cs)
      | (Inr None, st') \<Rightarrow> flush_pending C ctx env cs st')"

section \<open>The loop\<close>

datatype ws_input = TextIn str | PingIn bytes | CloseIn | OtherIn | ErrorIn str

datatype session_event =
    SvDeadline
  | SvPingTick
  | SvModeNotified
  | SvWakeNotified
  | SvAdvertiseTick
  | SvCmd "cmd option"
  | SvFrame "ws_input option"

definition session_deadline :: "session_state \<Rightarrow> nat" where
  "session_deadline st =
     (let idle = ss_last_seen st + C_IDLE_TIMEOUT
      in case ss_probe st of Some probe \<Rightarrow> min probe idle | None \<Rightarrow> idle)"

definition on_frame ::
  "client_codec \<Rightarrow> session_ctx \<Rightarrow> senv \<Rightarrow> ws_input option \<Rightarrow> session_state
     \<Rightarrow> (str + session_exit option) \<times> session_state" where
  "on_frame C ctx env frame st =
     (let st = st\<lparr>ss_last_seen := se_now env, ss_probe := None\<rparr>
      in case frame of
           None \<Rightarrow> (Inr (Some ExitReconnect), st)
         | Some (ErrorIn e) \<Rightarrow> (Inl e, st)
         | Some (TextIn t) \<Rightarrow>
             (case cc_server_dec C t of
                Inl e \<Rightarrow> (Inl e, st)
              | Inr (LanPeers peers) \<Rightarrow>
                  (let st = st\<lparr>ss_adv_error_pending := False\<rparr>
                   in (Inr None,
                       if se_lan env \<noteq> None \<and> se_lan_active env
                       then st\<lparr>ss_ingested := ss_ingested st @ [peers]\<rparr> else st))
              | Inr msg \<Rightarrow> (Inr None, handle_server C ctx (se_now env) msg st))
         | Some (PingIn p) \<Rightarrow> then_s (ws_put ctx (PongMsg p) st) (\<lambda>_ st. (Inr None, st))
         | Some CloseIn \<Rightarrow> (Inr (Some ExitReconnect), st)
         | Some OtherIn \<Rightarrow> (Inr None, st))"

definition session_step ::
  "client_codec \<Rightarrow> session_ctx \<Rightarrow> senv \<Rightarrow> session_event \<Rightarrow> session_state
     \<Rightarrow> (str + session_exit option) \<times> session_state" where
  "session_step C ctx env ev st =
     (case ev of
        SvDeadline \<Rightarrow> (Inr (Some ExitReconnect), st)
      | SvPingTick \<Rightarrow> then_s (ws_put ctx (PingMsg []) st) (\<lambda>_ st. (Inr None, st))
      | SvModeNotified \<Rightarrow>
          if se_idle_mode env then (Inr (Some ExitReconnect), snd (ws_put ctx CloseMsg st))
          else (Inr None, st)
      | SvWakeNotified \<Rightarrow>
          (let st = st\<lparr>ss_reconnect_requested := False\<rparr>
           in if ss_probe st = None
              then then_s (ws_put ctx (PingMsg []) st) (\<lambda>_ st.
                     (Inr None, st\<lparr>ss_probe := Some (se_now env + LIVENESS_PROBE_TIMEOUT)\<rparr>))
              else (Inr None, st))
      | SvAdvertiseTick \<Rightarrow> then_s (refresh_lan ctx env False st) (\<lambda>_ st. (Inr None, st))
      | SvCmd None \<Rightarrow> (Inr (Some ExitStop), st)
      | SvCmd (Some c) \<Rightarrow> apply_session_cmd C ctx env c st
      | SvFrame frame \<Rightarrow> on_frame C ctx env frame st)"

text \<open>
  The select is biased: the deadline branch runs exactly when its time has come, before any other.
  Each turn of the loop first closes the socket when standby was entered.
\<close>

definition session_turn ::
  "client_codec \<Rightarrow> session_ctx \<Rightarrow> senv \<Rightarrow> session_event \<Rightarrow> session_state
     \<Rightarrow> (str + session_exit option) \<times> session_state" where
  "session_turn C ctx env ev st =
     (if se_idle_mode env then (Inr (Some ExitReconnect), snd (ws_put ctx CloseMsg st))
      else if se_now env \<ge> session_deadline st then session_step C ctx env SvDeadline st
      else if ev = SvDeadline then (Inr None, st)
      else session_step C ctx env ev st)"

fun session_loop ::
  "client_codec \<Rightarrow> session_ctx \<Rightarrow> (senv \<times> session_event) list \<Rightarrow> session_state
     \<Rightarrow> (str + session_exit) option \<times> session_state" where
  "session_loop C ctx [] st = (None, st)"
| "session_loop C ctx ((env, ev) # evs) st =
     (case session_turn C ctx env ev st of
        (Inl e, st') \<Rightarrow> (Some (Inl e), st')
      | (Inr (Some ex), st') \<Rightarrow> (Some (Inr ex), st')
      | (Inr None, st') \<Rightarrow> session_loop C ctx evs st')"

text \<open>The whole session; None while it is still running when the events given end.\<close>

definition session ::
  "client_codec \<Rightarrow> session_ctx \<Rightarrow> connect_result \<Rightarrow> senv \<Rightarrow> (senv \<times> session_event) list \<Rightarrow> cmd list
     \<Rightarrow> session_state \<Rightarrow> (str + session_exit) option \<times> session_state \<times> cmd list" where
  "session C ctx connect env evs pending st =
     (case connect of
        ConnectError e \<Rightarrow> (Some (Inl e), st, pending)
      | ConnectTimeout \<Rightarrow> (Some (Inl (lit ''connect to relay timed out after 15s'')), st, pending)
      | ConnectOk \<Rightarrow>
          (case session_setup ctx env st of
             (Inl e, st1) \<Rightarrow> (Some (Inl e), st1, pending)
           | (Inr _, st1) \<Rightarrow>
               (case flush_pending C ctx env pending st1 of
                  (Inl e, st2, rest) \<Rightarrow> (Some (Inl e), st2, rest)
                | (Inr (Some ex), st2, rest) \<Rightarrow> (Some (Inr ex), st2, rest)
                | (Inr None, st2, rest) \<Rightarrow>
                    (case session_loop C ctx evs st2 of (r, st3) \<Rightarrow> (r, st3, rest)))))"

section \<open>What a session may send and report\<close>

lemmas session_defs =
  session_step_def apply_session_cmd_def send_clip_def refresh_lan_def send_advertise_def
  on_frame_def session_setup_def emit_def ws_put_def

text \<open>The frames a session may put on the wire: clips sealed under the group key, everything under
  the group's id.\<close>

definition frame_allowed :: "client_codec \<Rightarrow> session_ctx \<Rightarrow> ws_frame \<Rightarrow> bool" where
  "frame_allowed C ctx f =
     (case f of
        TextMsg (Publish g ct n ts) \<Rightarrow>
          g = sc_group ctx
          \<and> (\<exists>payload plain. cp_ts payload = ts \<and> cc_payload_enc C payload = Inr plain
                \<and> encrypt (cc_prims C) n (sc_key ctx) plain = Inr (ct, n))
      | TextMsg m \<Rightarrow> cm_group m = sc_group ctx
      | _ \<Rightarrow> True)"

lemma frame_allowed_simps [simp]:
  "frame_allowed C ctx (PingMsg p)" "frame_allowed C ctx (PongMsg p)" "frame_allowed C ctx CloseMsg"
  "frame_allowed C ctx (TextMsg (Join (sc_group ctx) d))"
  "frame_allowed C ctx (TextMsg (FetchRecent (sc_group ctx)))"
  "frame_allowed C ctx (TextMsg (LanAdvertise (sc_group ctx) d n cs nets))"
  by (simp_all add: frame_allowed_def)

lemma encrypt_nonce: "encrypt P nonce key pt = Inr (ct, n) \<Longrightarrow> n = nonce"
  by (auto simp: encrypt_def split: option.splits)

text \<open>
  A property of the state that only looks at what was sent and reported, and that every send of an
  allowed frame and every delivery of an opened clip keeps: every step, and with it every run of the
  loop, keeps it.
\<close>

locale session_invariant =
  fixes C :: client_codec and ctx :: session_ctx and I :: "session_state \<Rightarrow> bool"
  assumes put: "I st \<Longrightarrow> frame_allowed C ctx f \<Longrightarrow> I (st\<lparr>ss_out := ss_out st @ [f]\<rparr>)"
    and report: "I st \<Longrightarrow> I (st\<lparr>ss_events := ss_events st @ [OnState s]\<rparr>)"
    and deliver: "I st \<Longrightarrow> decrypt (cc_prims C) (sc_key ctx) n ct = Inr plain \<Longrightarrow>
          cc_payload_dec C plain = Some p \<Longrightarrow> I (st\<lparr>ss_events := ss_events st @ [OnClip p]\<rparr>)"
    and rest: "ss_out st' = ss_out st \<Longrightarrow> ss_events st' = ss_events st \<Longrightarrow> I st \<Longrightarrow> I st'"
begin

lemma upd [simp]:
  "I (st\<lparr>ss_broadcast := b\<rparr>) = I st" "I (st\<lparr>ss_ingested := i\<rparr>) = I st" "I (st\<lparr>ss_dedup := d\<rparr>) = I st"
  "I (st\<lparr>ss_adv_error_pending := e\<rparr>) = I st" "I (st\<lparr>ss_adv_disabled := e\<rparr>) = I st"
  "I (st\<lparr>ss_last_adv := a\<rparr>) = I st" "I (st\<lparr>ss_last_seen := t\<rparr>) = I st" "I (st\<lparr>ss_probe := pr\<rparr>) = I st"
  "I (st\<lparr>ss_reconnect_requested := e\<rparr>) = I st"
  by (rule iffI; erule rest [rotated 2]; simp)+

lemma put_inv: "I st \<Longrightarrow> frame_allowed C ctx f \<Longrightarrow> I (snd (ws_put ctx f st))"
  by (auto simp: ws_put_def put split: option.splits)

lemma then_inv: "I (snd r) \<Longrightarrow> (\<And>x st. I st \<Longrightarrow> I (snd (k x st))) \<Longrightarrow> I (snd (then_s r k))"
  by (cases "(r, k)" rule: then_s.cases) auto

lemma advertise_inv: "I st \<Longrightarrow> I (snd (send_advertise ctx nets st))"
  unfolding send_advertise_def by (intro then_inv put_inv) simp_all

lemma refresh_inv: "I st \<Longrightarrow> I (snd (refresh_lan ctx env force st))"
  by (auto simp: refresh_lan_def Let_def advertise_inv split: option.splits)

lemma clip_inv: "I st \<Longrightarrow> I (snd (send_clip C ctx env payload st))"
proof -
  assume "I st"
  have "frame_allowed C ctx (TextMsg (Publish (sc_group ctx) ct n (cp_ts payload)))"
    if "cc_payload_enc C payload = Inr plain" "encrypt (cc_prims C) nonce (sc_key ctx) plain = Inr (ct, n)"
    for plain nonce ct n
    using that encrypt_nonce [OF that(2)] by (auto simp: frame_allowed_def)
  with \<open>I st\<close> show ?thesis
    unfolding send_clip_def Let_def
    by (auto intro!: then_inv put_inv split: option.splits sum.splits)
qed

lemma cmd_inv: "I st \<Longrightarrow> I (snd (apply_session_cmd C ctx env c st))"
  unfolding apply_session_cmd_def
  by (cases c) (auto intro!: then_inv put_inv clip_inv refresh_inv)

lemma deliver_inv: "I st \<Longrightarrow> I (deliver_clip C ctx now clip st)"
  unfolding deliver_clip_def Let_def case_prod_unfold
  by (auto simp: emit_def split: sum.splits option.splits dest: deliver intro: rest [rotated 2])

lemma deliver_all_inv: "I st \<Longrightarrow> I (fold (deliver_clip C ctx now) clips st)"
  by (induction clips arbitrary: st) (auto intro: deliver_inv)

lemma server_inv: "I st \<Longrightarrow> I (handle_server C ctx now msg st)"
  unfolding handle_server_def Let_def
  by (cases msg) (auto simp: emit_def report deliver_inv deliver_all_inv
      intro!: rest [OF _ _ report, of _ st])

lemma frame_inv: "I st \<Longrightarrow> I (snd (on_frame C ctx env frame st))"
  unfolding on_frame_def Let_def
  by (auto simp: server_inv intro!: then_inv put_inv
      split: option.splits ws_input.splits sum.splits server_message.splits)

lemma step_inv: "I st \<Longrightarrow> I (snd (session_step C ctx env ev st))"
  unfolding session_step_def Let_def
  by (cases ev) (auto intro!: then_inv put_inv cmd_inv refresh_inv frame_inv split: option.splits)

lemma turn_inv: "I st \<Longrightarrow> I (snd (session_turn C ctx env ev st))"
  unfolding session_turn_def by (auto intro: step_inv put_inv)

lemma loop_inv: "I st \<Longrightarrow> I (snd (session_loop C ctx evs st))"
proof (induction evs arbitrary: st)
  case (Cons e evs)
  obtain env ev where e: "e = (env, ev)" by (cases e)
  show ?case
    using Cons.IH turn_inv [OF Cons.prems, of env ev]
    by (cases "session_turn C ctx env ev st") (auto simp: e split: sum.splits option.splits)
qed simp

lemma flush_inv: "I st \<Longrightarrow> I (fst (snd (flush_pending C ctx env cs st)))"
proof (induction cs arbitrary: st)
  case (Cons c cs)
  show ?case
    using Cons.IH cmd_inv [OF Cons.prems, of env c]
    by (cases "apply_session_cmd C ctx env c st") (auto split: sum.splits option.splits)
qed simp

lemma setup_inv: "I st \<Longrightarrow> I (snd (session_setup ctx env st))"
  unfolding session_setup_def Let_def
  by (auto simp: emit_def report intro!: then_inv put_inv advertise_inv split: option.splits)

end

text \<open>Two such properties: what the listener heard was sealed under the group key, and what was
  sent is allowed and begins with the frames given.\<close>

definition clips_authentic :: "client_codec \<Rightarrow> session_ctx \<Rightarrow> session_state \<Rightarrow> bool" where
  "clips_authentic C ctx st \<longleftrightarrow>
     (\<forall>p. OnClip p \<in> set (ss_events st) \<longrightarrow>
        (\<exists>plain n ct. cc_payload_dec C plain = Some p
            \<and> decrypt (cc_prims C) (sc_key ctx) n ct = Inr plain))"

definition sent_after :: "client_codec \<Rightarrow> session_ctx \<Rightarrow> ws_frame list \<Rightarrow> session_state \<Rightarrow> bool" where
  "sent_after C ctx start st \<longleftrightarrow>
     prefix start (ss_out st) \<and> (\<forall>f \<in> set (ss_out st). frame_allowed C ctx f)"

interpretation authentic: session_invariant C ctx "clips_authentic C ctx" for C ctx
  by unfold_locales (auto simp: clips_authentic_def)

interpretation sent: session_invariant C ctx "sent_after C ctx start" for C ctx start
  by unfold_locales (auto simp: sent_after_def)

lemma session_keeps_authentic:
  "clips_authentic C ctx st \<Longrightarrow> clips_authentic C ctx (fst (snd (session C ctx connect env evs pending st)))"
proof -
  assume st: "clips_authentic C ctx st"
  note greet = authentic.setup_inv [OF st, of env]
  note flush = authentic.flush_inv [OF greet, of env pending]
  show ?thesis
    using st greet flush authentic.loop_inv [OF flush, of evs]
    by (auto simp: session_def case_prod_unfold split: connect_result.splits sum.splits option.splits prod.splits)
qed

text \<open>The setup sends the join, then the request for the recent clips, then at most an advertisement.\<close>

definition session_greeting :: "session_ctx \<Rightarrow> ws_frame list" where
  "session_greeting ctx =
     [TextMsg (Join (sc_group ctx) (sc_device_id ctx)), TextMsg (FetchRecent (sc_group ctx))]"

lemma setup_greets:
  assumes "ss_out st = []"
  shows "case session_setup ctx env st of
           (Inl e, st') \<Rightarrow> prefix (ss_out st') (session_greeting ctx) \<and> ss_events st' = ss_events st
         | (Inr _, st') \<Rightarrow> sent_after C ctx (session_greeting ctx) st'
              \<and> ss_events st' = ss_events st @ [OnState Connected]
              \<and> ss_last_seen st' = se_now env \<and> ss_probe st' = None"
  using assms
  by (auto simp: session_setup_def session_greeting_def ws_put_def send_advertise_def sent_after_def
      emit_def Let_def split: option.splits)

text \<open>
  C17: A session introduces itself before anything else and sends nothing in the clear. Whatever
  happens in it, what it sent is a part of, or begins with, the join under its own group and device
  and the request for the recent clips; every other frame is under that group, every published
  clip is the encryption of a clip under the group key with the clip's own timestamp; and if the
  session got far enough to say connected, both greeting frames were sent.
\<close>

theorem session_out_spec:
  assumes new: "ss_out st = []"
  shows "let st' = fst (snd (session C ctx connect env evs pending st))
     in (prefix (ss_out st') (session_greeting ctx) \<or> prefix (session_greeting ctx) (ss_out st'))
        \<and> (\<forall>f \<in> set (ss_out st'). frame_allowed C ctx f)
        \<and> (OnState Connected \<notin> set (ss_events st) \<longrightarrow> OnState Connected \<in> set (ss_events st') \<longrightarrow>
             prefix (session_greeting ctx) (ss_out st'))"
proof -
  have greeting: "frame_allowed C ctx f" if "prefix fs (session_greeting ctx)" "f \<in> set fs" for f fs
    using that set_mono_prefix [OF that(1)] by (auto simp: session_greeting_def)
  obtain r st1 where opened: "session_setup ctx env st = (r, st1)" by fastforce
  show ?thesis
  proof (cases "connect = ConnectOk \<and> (\<exists>u. r = Inr u)")
    case True
    then have st1: "sent_after C ctx (session_greeting ctx) st1"
      using setup_greets [OF new, where ctx = ctx and env = env and C = C] opened by auto
    note flush = sent.flush_inv [OF st1, of env pending]
    have "sent_after C ctx (session_greeting ctx) (fst (snd (session C ctx connect env evs pending st)))"
      using True opened flush sent.loop_inv [OF flush, of evs]
      by (auto simp: session_def case_prod_unfold split: sum.splits option.splits prod.splits)
    then show ?thesis by (simp add: sent_after_def Let_def)
  next
    case False
    then have "fst (snd (session C ctx connect env evs pending st)) = st
        \<or> fst (snd (session C ctx connect env evs pending st)) = st1 \<and> (\<exists>e. r = Inl e)"
      using opened by (cases connect; cases r) (auto simp: session_def)
    then show ?thesis
      using setup_greets [OF new, where ctx = ctx and env = env and C = C] opened new
      by (auto simp: Let_def intro: greeting)
  qed
qed

definition demo_client_codec :: client_codec where
  "demo_client_codec =
     \<lparr>cc_prims = demo_prims, cc_payload_enc = (\<lambda>p. Inr []),
      cc_payload_dec = (\<lambda>b. Some \<lparr>cp_kind = ClipText, cp_content = [], cp_device_name = [], cp_ts = 7, cp_image = None\<rparr>),
      cc_server_dec = (\<lambda>t. if t = [] then Inl [] else Inr (SClip (replicate 16 0) (replicate 12 0) 7 t))\<rparr>"

definition demo_ctx :: session_ctx where
  "demo_ctx = \<lparr>sc_relay_url = [], sc_group = [1], sc_key = [], sc_device_id = [2], sc_device_name = [],
     sc_send_error = (\<lambda>n. if n < 3 then None else Some []), sc_nonce = (\<lambda>n. [])\<rparr>"

definition demo_env :: "nat \<Rightarrow> senv" where
  "demo_env now = \<lparr>se_now = now, se_idle_mode = False, se_lan_active = False, se_lan = None\<rparr>"

definition demo_session_state :: session_state where
  "demo_session_state = session_state_new 0 (dedup_new 128 10000) False"

lemmas demo_session_defs =
  demo_client_codec_def demo_ctx_def demo_env_def demo_session_state_def session_state_new_def dedup_new_def

theorem session_out_spec_witness:
  "list_all (frame_allowed demo_client_codec demo_ctx)
     (ss_out (fst (snd (session demo_client_codec demo_ctx ConnectOk (demo_env 0) [] [CmdFetchRecent]
       demo_session_state))))"
  using session_out_spec [of demo_session_state demo_client_codec demo_ctx ConnectOk "demo_env 0" "[]" "[CmdFetchRecent]"]
  by (simp add: Let_def demo_session_state_def session_state_new_def list_all_iff)



section \<open>Advertisements are canonical\<close>

lemma sorted_remdups_adj_strict: "sorted xs \<Longrightarrow> sorted_wrt (<) (remdups_adj (xs :: 'a :: linorder list))"
  by (induction xs rule: remdups_adj.induct) (auto simp: less_le)

lemma normalize_strict: "sorted_wrt (<) (normalize_lan_candidate_networks xs)"
  unfolding normalize_lan_candidate_networks_def by (rule sorted_remdups_adj_strict) simp

lemma normalize_set: "set (normalize_lan_candidate_networks xs) = set xs"
  by (simp add: normalize_lan_candidate_networks_def)

text \<open>
  The advertised networks are the set of local networks. The normal form is sorted without
  repetition and has exactly the candidates given; two lists have the same normal form iff they hold
  the same candidates; so the periodic refresh re-advertises exactly when the set of networks
  changed, and neither an empty first advertisement nor a forced empty one is ever sent.
\<close>

theorem normalize_canonical:
  "let norm = normalize_lan_candidate_networks
   in sorted (norm xs) \<and> distinct (norm xs) \<and> set (norm xs) = set xs
      \<and> (norm xs = norm ys \<longleftrightarrow> set xs = set ys)
      \<and> (lan_advertise_refresh_needed (Some (norm xs)) (norm ys) False \<longleftrightarrow> set xs \<noteq> set ys)
      \<and> (lan_advertise_refresh_needed None (norm xs) False \<longleftrightarrow> xs \<noteq> [])
      \<and> (lan_advertise_refresh_needed last_adv (norm xs) True \<longleftrightarrow> xs \<noteq> [])"
proof -
  note strict = normalize_strict [unfolded strict_sorted_iff]
  have eq: "normalize_lan_candidate_networks xs = normalize_lan_candidate_networks ys \<longleftrightarrow> set xs = set ys" for xs ys
    using sorted_distinct_set_unique strict normalize_set by metis
  have "normalize_lan_candidate_networks xs = [] \<longleftrightarrow> xs = []"
    using normalize_set [of xs] by (metis set_empty)
  then show ?thesis
    using strict by (simp add: Let_def normalize_set eq lan_advertise_refresh_needed_def)
qed

section \<open>Deliveries\<close>

definition open_clip :: "client_codec \<Rightarrow> session_ctx \<Rightarrow> recent_clip \<Rightarrow> clip_payload option" where
  "open_clip C ctx clip =
     Option.bind (ok (decrypt (cc_prims C) (sc_key ctx) (rc_nonce clip) (rc_ciphertext clip))) (cc_payload_dec C)"

lemma deliver_clip_eq:
  "deliver_clip C ctx now clip st =
     (if rc_sender clip = sc_device_id ctx then st
      else st\<lparr>ss_dedup := snd (dedup_insert now (rc_sender clip) (rc_ts clip) (ss_dedup st)),
              ss_events := ss_events st
                @ (if fst (dedup_insert now (rc_sender clip) (rc_ts clip) (ss_dedup st))
                   then map OnClip (case open_clip C ctx clip of Some p \<Rightarrow> [p] | None \<Rightarrow> []) else [])\<rparr>)"
  by (auto simp: deliver_clip_def open_clip_def emit_def Let_def case_prod_unfold split: sum.splits option.splits)

text \<open>
  C19: The recent clips are delivered like live ones. A batch from the relay's cache is delivered in
  the relay's order, leaving out the device's own clips, those the dedup cache rejects, and those
  that do not decrypt or parse; nothing else of the session changes but the dedup cache, which sees
  every foreign clip of the batch, the unreadable ones included.
\<close>

theorem recent_delivery_spec:
  "let others = filter (\<lambda>c. rc_sender c \<noteq> sc_device_id ctx) clips;
       (verdicts, d) = dedup_run (map (\<lambda>c. (now, rc_sender c, rc_ts c)) others) (ss_dedup st);
       accepted = map snd (filter fst (zip verdicts others))
   in handle_server C ctx now (Recent clips) st =
        st\<lparr>ss_dedup := d, ss_events := ss_events st @ map OnClip (List.map_filter (open_clip C ctx) accepted)\<rparr>"
proof -
  have "fold (deliver_clip C ctx now) clips st =
     (let others = filter (\<lambda>c. rc_sender c \<noteq> sc_device_id ctx) clips;
          run = dedup_run (map (\<lambda>c. (now, rc_sender c, rc_ts c)) others) (ss_dedup st)
      in st\<lparr>ss_dedup := snd run, ss_events := ss_events st
            @ map OnClip (List.map_filter (open_clip C ctx) (map snd (filter fst (zip (fst run) others))))\<rparr>)"
  proof (induction clips arbitrary: st)
    case (Cons c cs)
    show ?case
      unfolding fold_simps Cons.IH
      by (cases "rc_sender c = sc_device_id ctx"; cases "open_clip C ctx c";
          cases "fst (dedup_insert now (rc_sender c) (rc_ts c) (ss_dedup st))")
        (simp_all add: deliver_clip_eq Let_def case_prod_unfold map_filter_simps)
  qed (simp add: Let_def map_filter_simps)
  then show ?thesis by (simp add: handle_server_def Let_def case_prod_unfold)
qed

text \<open>
  C20: An unreadable copy suppresses the genuine one. The dedup cache takes a clip before it is
  decrypted: after a foreign clip that does not open, the genuine clip with the same sender and
  timestamp, arriving within the time to live, is not delivered.
\<close>

theorem unreadable_copy_suppresses:
  assumes sender: "sender \<noteq> sc_device_id ctx"
    and junk: "open_clip C ctx \<lparr>rc_ciphertext = ct', rc_nonce = n', rc_ts = ts, rc_sender = sender\<rparr> = None"
    and order: "in_order now (dd_entries (ss_dedup st))"
    and new: "fst (dedup_insert now sender ts (ss_dedup st))"
    and later: "now \<le> later" "later - now \<le> dd_ttl (ss_dedup st)"
  shows "ss_events (handle_server C ctx later (SClip ct n ts sender)
            (handle_server C ctx now (SClip ct' n' ts sender) st)) = ss_events st"
  using dedup_repeat_rejected [OF order new later] sender junk
  by (simp add: handle_server_def deliver_clip_eq)

theorem unreadable_copy_suppresses_witness:
  "ss_events (handle_server demo_client_codec demo_ctx 9 (SClip (replicate 16 0) (replicate 12 0) 7 [5])
      (handle_server demo_client_codec demo_ctx 8 (SClip [] [] 7 [5]) demo_session_state)) = []
   \<and> ss_events (handle_server demo_client_codec demo_ctx 9 (SClip (replicate 16 0) (replicate 12 0) 7 [5])
      demo_session_state) \<noteq> []"
proof
  have "ss_events (handle_server demo_client_codec demo_ctx 9 (SClip (replicate 16 0) (replicate 12 0) 7 [5])
      (handle_server demo_client_codec demo_ctx 8 (SClip [] [] 7 [5]) demo_session_state)) = ss_events demo_session_state"
    by (rule unreadable_copy_suppresses)
      (simp_all add: demo_session_defs open_clip_def decrypt_def NONCE_LEN_def in_order_def dedup_insert_def)
  then show "ss_events (handle_server demo_client_codec demo_ctx 9 (SClip (replicate 16 0) (replicate 12 0) 7 [5])
      (handle_server demo_client_codec demo_ctx 8 (SClip [] [] 7 [5]) demo_session_state)) = []"
    by (simp add: demo_session_defs)
  show "ss_events (handle_server demo_client_codec demo_ctx 9 (SClip (replicate 16 0) (replicate 12 0) 7 [5])
      demo_session_state) \<noteq> []" by code_simp
qed

section \<open>Dead links\<close>

definition not_frame :: "session_event \<Rightarrow> bool" where
  "not_frame ev \<longleftrightarrow> (case ev of SvFrame _ \<Rightarrow> False | _ \<Rightarrow> True)"

lemma ws_put_times:
  "session_deadline (snd (ws_put ctx f st)) = session_deadline st"
  "ss_probe (snd (ws_put ctx f st)) = ss_probe st" "ss_last_seen (snd (ws_put ctx f st)) = ss_last_seen st"
  by (simp_all add: ws_put_def session_deadline_def split: option.splits)

lemma then_s_state:
  assumes "then_s r k = (Inr x, st)"
  obtains y st1 where "r = (Inr y, st1)" "k y st1 = (Inr x, st)"
  using assms by (cases "(r, k)" rule: then_s.cases) auto

text \<open>Only a frame from the relay can move the deadline to a later time.\<close>

lemma refresh_times: "ss_probe (snd (refresh_lan ctx env force st)) = ss_probe st
    \<and> ss_last_seen (snd (refresh_lan ctx env force st)) = ss_last_seen st"
  by (auto simp: refresh_lan_def send_advertise_def ws_put_def Let_def split: option.splits)

lemma cmd_times:
  "ss_probe (snd (apply_session_cmd C ctx env c st)) = ss_probe st
   \<and> ss_last_seen (snd (apply_session_cmd C ctx env c st)) = ss_last_seen st"
proof (cases c)
  case RefreshLan
  obtain r st1 where "refresh_lan ctx env True st = (r, st1)" by fastforce
  then show ?thesis
    using refresh_times [of ctx env True st] by (cases r) (auto simp: RefreshLan apply_session_cmd_def)
qed (auto simp: apply_session_cmd_def send_clip_def ws_put_def Let_def split: option.splits sum.splits)

lemma step_deadline:
  assumes "not_frame ev" and "session_step C ctx env ev st = (Inr None, st')"
  shows "session_deadline st' \<le> session_deadline st"
proof (cases ev)
  case SvAdvertiseTick
  then show ?thesis
    using assms(2) refresh_times [of ctx env False st]
    by (auto simp: session_step_def session_deadline_def elim!: then_s_state)
next
  case (SvCmd c)
  then show ?thesis
    using assms(2) cmd_times [of C ctx env "the c" st]
    by (auto simp: session_step_def session_deadline_def split: option.splits)
qed (use assms in \<open>auto simp: session_step_def not_frame_def session_deadline_def ws_put_def Let_def
      split: if_splits option.splits\<close>)

lemma silent_loop_ends:
  "\<forall>e \<in> set evs. not_frame (snd e) \<Longrightarrow> \<exists>e \<in> set evs. session_deadline st \<le> se_now (fst e) \<Longrightarrow>
     fst (session_loop C ctx evs st) \<noteq> None"
proof (induction evs arbitrary: st)
  case (Cons e evs)
  obtain env ev where e: "e = (env, ev)" by (cases e)
  show ?case
  proof (cases "session_turn C ctx env ev st")
    case (Pair r st')
    show ?thesis
    proof (cases "r = Inr None")
      case True
      then have early: "se_now env < session_deadline st" and step: "st' = st \<or> session_step C ctx env ev st = (Inr None, st')"
        using Pair by (auto simp: session_turn_def session_step_def split: if_splits)
      have "session_deadline st' \<le> session_deadline st"
        using step step_deadline [of ev] Cons.prems(1) by (auto simp: e)
      then have "\<exists>e \<in> set evs. session_deadline st' \<le> se_now (fst e)"
        using Cons.prems(2) early by (auto simp: e intro: order_trans)
      then show ?thesis using Cons.IH [of st'] Cons.prems(1) Pair True by (simp add: e)
    next
      case False
      then show ?thesis using Pair by (cases r; cases "projr r") (auto simp: e split: sum.splits option.splits)
    qed
  qed
qed simp

text \<open>
  C21: A silent relay does not hold the session. If nothing arrives from the relay, the loop has
  ended by the first turn sixty seconds after the last arrival; and once a reconnect request woke
  the session, by the first turn eight seconds after it, whatever else happens in between, further
  requests, ticks and commands included.
\<close>

theorem silent_session_ends:
  assumes silent: "\<forall>e \<in> set evs. not_frame (snd e)" and turn: "\<exists>e \<in> set evs. t \<le> se_now (fst e)"
  shows "(ss_last_seen st + C_IDLE_TIMEOUT \<le> t \<longrightarrow> fst (session_loop C ctx evs st) \<noteq> None)
    \<and> ((\<forall>p. ss_probe st = Some p \<longrightarrow> p \<le> se_now env + LIVENESS_PROBE_TIMEOUT) \<longrightarrow>
         se_now env + LIVENESS_PROBE_TIMEOUT \<le> t \<longrightarrow>
         fst (session_loop C ctx ((env, SvWakeNotified) # evs) st) \<noteq> None)"
proof (intro conjI impI)
  assume "ss_last_seen st + C_IDLE_TIMEOUT \<le> t"
  then have "session_deadline st \<le> t" by (auto simp: session_deadline_def Let_def split: option.splits)
  then show "fst (session_loop C ctx evs st) \<noteq> None"
    using silent_loop_ends [OF silent] turn by (meson order_trans)
next
  assume probe: "\<forall>p. ss_probe st = Some p \<longrightarrow> p \<le> se_now env + LIVENESS_PROBE_TIMEOUT"
    and t: "se_now env + LIVENESS_PROBE_TIMEOUT \<le> t"
  show "fst (session_loop C ctx ((env, SvWakeNotified) # evs) st) \<noteq> None"
  proof (cases "session_turn C ctx env SvWakeNotified st")
    case (Pair r st')
    show ?thesis
    proof (cases "r = Inr None")
      case True
      then have "session_deadline st' \<le> t"
        using Pair probe t
        by (auto simp: session_turn_def session_step_def session_deadline_def ws_put_def Let_def
            split: if_splits option.splits)
      then have "fst (session_loop C ctx evs st') \<noteq> None"
        using silent_loop_ends [OF silent] turn by (meson order_trans)
      then show ?thesis using Pair True by simp
    next
      case False
      then show ?thesis using Pair by (auto split: sum.splits option.splits)
    qed
  qed
qed

theorem silent_session_ends_witness:
  "fst (session_loop demo_client_codec demo_ctx [(demo_env 60000, SvPingTick)] demo_session_state) \<noteq> None
   \<and> fst (session_loop demo_client_codec demo_ctx [(demo_env 10, SvWakeNotified), (demo_env 8010, SvPingTick)]
       demo_session_state) \<noteq> None"
  using silent_session_ends [of "[(demo_env 60000, SvPingTick)]" 60000 demo_session_state]
    silent_session_ends [of "[(demo_env 8010, SvPingTick)]" 8010 demo_session_state _ _ "demo_env 10"]
  by (simp add: not_frame_def demo_session_defs C_IDLE_TIMEOUT_def LIVENESS_PROBE_TIMEOUT_def)

section \<open>Commands held back\<close>

text \<open>What the commands of the queue put on the wire, when nothing fails: \<open>n\<close> frames are out before.\<close>

definition publish_frame :: "client_codec \<Rightarrow> session_ctx \<Rightarrow> nat \<times> clip_payload \<Rightarrow> ws_frame \<Rightarrow> bool" where
  "publish_frame C ctx e f \<longleftrightarrow>
     (\<exists>plain ct. cc_payload_enc C (snd e) = Inr plain
        \<and> encrypt (cc_prims C) (sc_nonce ctx (fst e)) (sc_key ctx) plain = Inr (ct, sc_nonce ctx (fst e))
        \<and> f = TextMsg (Publish (sc_group ctx) ct (sc_nonce ctx (fst e)) (cp_ts (snd e))))"

lemma send_clip_ok:
  assumes "apply_session_cmd C ctx env (SendClip payload) st = (Inr x, st')"
  shows "x = None \<and> (\<exists>f. publish_frame C ctx (length (ss_out st), payload) f \<and> ss_out st' = ss_out st @ [f])"
  using assms encrypt_nonce
  by (auto simp: apply_session_cmd_def send_clip_def ws_put_def Let_def publish_frame_def
      intro: encrypt_nonce split: option.splits sum.splits)

lemma send_clip_error:
  assumes "apply_session_cmd C ctx env (SendClip payload) st = (Inl e, st')"
  shows "ss_out st' = ss_out st"
  using assms
  by (auto simp: apply_session_cmd_def send_clip_def ws_put_def Let_def split: option.splits sum.splits)

text \<open>
  C22: Held-back clips go out in order, except the one whose send fails. After the flush of clips
  that waited while the relay was suspended, the frames sent are those of a prefix of the queue, in
  its order; without an error that is the whole queue. On an error the clip at which it occurred is
  neither sent nor kept for the next session: only the clips after it are.
\<close>

theorem flush_spec:
  "case flush_pending C ctx env (map SendClip ps) st of
     (Inr x, st', left) \<Rightarrow> x = None \<and> left = []
        \<and> (\<exists>fs. ss_out st' = ss_out st @ fs
             \<and> list_all2 (publish_frame C ctx) (enumerate (length (ss_out st)) ps) fs)
   | (Inl e, st', left) \<Rightarrow>
        (\<exists>sent failed kept fs. ps = sent @ [failed] @ kept \<and> left = map SendClip kept
             \<and> ss_out st' = ss_out st @ fs
             \<and> list_all2 (publish_frame C ctx) (enumerate (length (ss_out st)) sent) fs)"
proof (induction ps arbitrary: st)
  case (Cons p ps)
  obtain r st1 where step: "apply_session_cmd C ctx env (SendClip p) st = (r, st1)" by fastforce
  show ?case
  proof (cases r)
    case (Inl e)
    then show ?thesis
      using step send_clip_error [of C ctx env p st e st1] by (intro exI [of _ "[]"] | simp)+
  next
    case (Inr x)
    then obtain f where x: "x = None" and f: "publish_frame C ctx (length (ss_out st), p) f" "ss_out st1 = ss_out st @ [f]"
      using step send_clip_ok [of C ctx env p st x st1] by auto
    obtain r2 st2 left where flush: "flush_pending C ctx env (map SendClip ps) st1 = (r2, st2, left)"
      by (cases "flush_pending C ctx env (map SendClip ps) st1") auto
    note IH = Cons.IH [of st1, unfolded flush prod.case]
    show ?thesis
    proof (cases r2)
      case (Inl e)
      from IH [unfolded Inl sum.case] obtain sent failed kept fs where
        "ps = sent @ [failed] @ kept" "left = map SendClip kept" "ss_out st2 = ss_out st1 @ fs"
        "list_all2 (publish_frame C ctx) (enumerate (length (ss_out st1)) sent) fs"
        by (elim exE conjE)
      then have "p # ps = (p # sent) @ [failed] @ kept \<and> left = map SendClip kept
        \<and> ss_out st2 = ss_out st @ (f # fs)
        \<and> list_all2 (publish_frame C ctx) (enumerate (length (ss_out st)) (p # sent)) (f # fs)"
        using f by simp
      moreover have all: "flush_pending C ctx env (map SendClip (p # ps)) st = (Inl e, st2, left)"
        using step Inr x flush Inl by simp
      ultimately show ?thesis unfolding all prod.case sum.case by blast
    next
      case (Inr y)
      from IH [unfolded Inr sum.case] obtain fs where "y = None" "left = []" "ss_out st2 = ss_out st1 @ fs"
        "list_all2 (publish_frame C ctx) (enumerate (length (ss_out st1)) ps) fs"
        by (elim exE conjE)
      then have "y = None \<and> left = [] \<and> ss_out st2 = ss_out st @ (f # fs)
        \<and> list_all2 (publish_frame C ctx) (enumerate (length (ss_out st)) (p # ps)) (f # fs)"
        using f by simp
      moreover have all: "flush_pending C ctx env (map SendClip (p # ps)) st = (Inr y, st2, left)"
        using step \<open>r = Inr x\<close> x flush Inr by simp
      ultimately show ?thesis unfolding all prod.case sum.case by blast
    qed
  qed
qed simp

section \<open>One clip out, one clip in\<close>

text \<open>A turn of a live session that is handed a clip to send publishes it sealed.\<close>

lemma session_sends_clip:
  assumes live: "\<not> se_idle_mode env" "se_now env < session_deadline st"
    and works: "sc_send_error ctx (length (ss_out st)) = None"
    and plain: "cc_payload_enc C p = Inr plain"
    and sealed: "encrypt (cc_prims C) (sc_nonce ctx (length (ss_out st))) (sc_key ctx) plain = Inr (ct, nonce)"
  shows "\<exists>st'. session_turn C ctx env (SvCmd (Some (SendClip p))) st = (Inr None, st')
     \<and> ss_out st' = ss_out st @ [TextMsg (Publish (sc_group ctx) ct nonce (cp_ts p))]"
  using assms
  by (cases "se_lan env")
    (simp_all add: session_turn_def session_step_def apply_session_cmd_def send_clip_def ws_put_def Let_def)

text \<open>The LAN peers get the clip first, whatever becomes of it on the way to the relay.\<close>

lemma session_broadcasts_clip:
  assumes "\<not> se_idle_mode env" "se_now env < session_deadline st" "se_lan env = Some lan"
  shows "ss_broadcast (snd (session_turn C ctx env (SvCmd (Some (SendClip p))) st))
     = ss_broadcast st @ [(sc_device_id ctx, cp_ts p, p)]"
  using assms
  by (simp add: session_turn_def session_step_def apply_session_cmd_def send_clip_def ws_put_def Let_def
      split: sum.split option.split)

text \<open>A turn of a live session that receives a clip of another device, not seen lately, hands it over.\<close>

lemma session_hears_clip:
  assumes live: "\<not> se_idle_mode env" "se_now env < session_deadline st"
    and frame: "cc_server_dec C t = Inr (SClip ct nonce ts sender)"
    and foreign: "sender \<noteq> sc_device_id ctx" "fst (dedup_insert (se_now env) sender ts (ss_dedup st))"
    and opens: "decrypt (cc_prims C) (sc_key ctx) nonce ct = Inr plain" "cc_payload_dec C plain = Some p"
  shows "\<exists>st'. session_turn C ctx env (SvFrame (Some (TextIn t))) st = (Inr None, st')
     \<and> ss_events st' = ss_events st @ [OnClip p]"
  using assms
  by (cases "dedup_insert (se_now env) sender ts (ss_dedup st)")
    (simp add: session_turn_def session_step_def on_frame_def handle_server_def deliver_clip_def emit_def Let_def)

end
