(* ===== verification/FileTransfer.thy ===== *)
theory FileTransfer
  imports Crypto
begin

text \<open>
  \<^verbatim>\<open>core/src/file_transfer.rs\<close>: file names, destination paths, the outgoing file that is read in
  chunks, and the incoming file that is written to a \<^verbatim>\<open>.part\<close> file, checked and renamed.
  The file system is explicit state: regular files and directories under (directory, name)
  pairs, and a set of calls that fail, so every \<open>?\<close> on an I/O call has its error branch.
\<close>

section \<open>Constants, configuration, errors\<close>

definition DEFAULT_MAX_FILE_BYTES :: nat where "DEFAULT_MAX_FILE_BYTES = 2 * 1024 * 1024 * 1024"
definition DEFAULT_CHUNK_BYTES :: nat where "DEFAULT_CHUNK_BYTES = 512 * 1024"
definition MAX_FILE_CHUNK_BYTES :: nat where "MAX_FILE_CHUNK_BYTES = 512 * 1024"

definition U64_MAX :: nat where "U64_MAX = 2 ^ 64 - 1"
definition I64_MAX :: int where "I64_MAX = 2 ^ 63 - 1"

definition sat_add_u64 :: "nat \<Rightarrow> nat \<Rightarrow> nat" where
  "sat_add_u64 a b = min (a + b) U64_MAX"

record file_transfer_config =
  max_file_bytes :: nat
  chunk_bytes :: nat

definition default_file_config :: file_transfer_config where
  "default_file_config =
     \<lparr>max_file_bytes = DEFAULT_MAX_FILE_BYTES, chunk_bytes = DEFAULT_CHUNK_BYTES\<rparr>"

definition bounded_chunk_bytes :: "file_transfer_config \<Rightarrow> nat" where
  "bounded_chunk_bytes c = max 1 (min (chunk_bytes c) MAX_FILE_CHUNK_BYTES)"

lemma bounded_chunk_bytes_range:
  "1 \<le> bounded_chunk_bytes c" "bounded_chunk_bytes c \<le> MAX_FILE_CHUNK_BYTES"
  by (auto simp: bounded_chunk_bytes_def MAX_FILE_CHUNK_BYTES_def)

record file_offer =
  fo_transfer_id :: str
  fo_source :: str
  fo_target :: str
  fo_file_name :: str
  fo_size_bytes :: nat
  fo_modified :: "int option"
  fo_mime_type :: "str option"
  fo_sha256_hex :: str

type_synonym path = "str \<times> str"

record sent_file =
  sf_transfer_id :: str
  sf_file_name :: str
  sf_bytes_sent :: nat
  sf_sha256_hex :: str

record received_file =
  rf_transfer_id :: str
  rf_file_name :: str
  rf_path :: path
  rf_size_bytes :: nat
  rf_sha256_hex :: str

datatype ft_error =
    IoError str
  | NotRegularFile
  | FileTooLarge nat nat
  | InvalidFileName str
  | ReservedFileName str
  | InvalidSha256 str
  | OffsetMismatch nat nat
  | SizeMismatch nat nat
  | HashMismatch str str
  | Rejected str
  | Canceled str
  | UnexpectedFrame str
  | PeerMismatch str str

text \<open>The \<open>Display\<close> text of an error, which is what a peer is told.\<close>

fun ft_error_text :: "ft_error \<Rightarrow> str" where
  "ft_error_text (IoError e) = lit ''io: '' @ e"
| "ft_error_text NotRegularFile = lit ''path is not a regular file''"
| "ft_error_text (FileTooLarge sz limit) =
     lit ''file exceeds configured limit: '' @ show_nat sz @ lit '' > '' @ show_nat limit"
| "ft_error_text (InvalidFileName name) = lit ''invalid file name: '' @ name"
| "ft_error_text (ReservedFileName name) = lit ''reserved file name: '' @ name"
| "ft_error_text (InvalidSha256 s) = lit ''invalid sha256: '' @ s"
| "ft_error_text (OffsetMismatch expected got) =
     lit ''unexpected chunk offset: expected '' @ show_nat expected @ lit '', got '' @ show_nat got"
| "ft_error_text (SizeMismatch expected got) =
     lit ''size mismatch: expected '' @ show_nat expected @ lit '', got '' @ show_nat got"
| "ft_error_text (HashMismatch expected got) =
     lit ''hash mismatch: expected '' @ expected @ lit '', got '' @ got"
| "ft_error_text (Rejected reason) = lit ''transfer rejected: '' @ reason"
| "ft_error_text (Canceled reason) = lit ''transfer canceled: '' @ reason"
| "ft_error_text (UnexpectedFrame frame) = lit ''unexpected lan frame: '' @ frame"
| "ft_error_text (PeerMismatch expected got) =
     lit ''peer device mismatch: expected '' @ expected @ lit '', got '' @ got"

section \<open>File names\<close>

definition windows_reserved_names :: "str list" where
  "windows_reserved_names =
     map lit [''CON'', ''PRN'', ''AUX'', ''NUL'',
       ''COM1'', ''COM2'', ''COM3'', ''COM4'', ''COM5'', ''COM6'', ''COM7'', ''COM8'', ''COM9'',
       ''LPT1'', ''LPT2'', ''LPT3'', ''LPT4'', ''LPT5'', ''LPT6'', ''LPT7'', ''LPT8'', ''LPT9'']"

definition is_windows_reserved_name :: "str \<Rightarrow> bool" where
  "is_windows_reserved_name stem \<longleftrightarrow> stem \<in> set windows_reserved_names"

definition is_valid_sha256_hex :: "str \<Rightarrow> bool" where
  "is_valid_sha256_hex s \<longleftrightarrow>
     length (utf8 s) = SHA256_LEN * 2 \<and> list_all is_ascii_hexdigit (utf8 s)"

definition name_has_bad_char :: "str \<Rightarrow> bool" where
  "name_has_bad_char name \<longleftrightarrow> list_ex (\<lambda>c. c = 47 \<or> c = 92 \<or> is_control c) name"

definition trim_dots_spaces :: "str \<Rightarrow> str" where
  "trim_dots_spaces name = trim_where (\<lambda>c. c = 32 \<or> c = 46) name"

definition name_stem_upper :: "str \<Rightarrow> str" where
  "name_stem_upper trimmed =
     map ascii_upper (case split_once 46 trimmed of Some (s, _) \<Rightarrow> s | None \<Rightarrow> trimmed)"

definition sanitize_file_name :: "str \<Rightarrow> ft_error + str" where
  "sanitize_file_name name =
     (if name = [] \<or> name = lit ''.'' \<or> name = lit ''..'' then Inl (InvalidFileName name)
      else if name_has_bad_char name then Inl (InvalidFileName name)
      else
        (let trimmed = trim_dots_spaces name
         in if trimmed = [] then Inl (InvalidFileName name)
            else if is_windows_reserved_name (name_stem_upper trimmed)
                 then Inl (ReservedFileName name)
            else Inr trimmed))"

definition split_name_ext :: "str \<Rightarrow> str \<times> str option" where
  "split_name_ext name =
     (case rsplit_once 46 name of
        Some (stem, ext) \<Rightarrow>
          if stem \<noteq> [] \<and> ext \<noteq> [] then (stem, Some ext) else (name, None)
      | None \<Rightarrow> (name, None))"

text \<open>What the caller may rely on for a name that passed: no separator, no control character,
  not empty, no leading or trailing dot or space (so neither \<^verbatim>\<open>.\<close> nor \<^verbatim>\<open>..\<close>), and no reserved
  device name before its first dot.\<close>

definition safe_file_name :: "str \<Rightarrow> bool" where
  "safe_file_name n \<longleftrightarrow>
     n \<noteq> [] \<and> \<not> name_has_bad_char n
     \<and> hd n \<noteq> 46 \<and> hd n \<noteq> 32 \<and> last n \<noteq> 46 \<and> last n \<noteq> 32
     \<and> \<not> is_windows_reserved_name (name_stem_upper n)"

lemma sanitize_safe: "sanitize_file_name name = Inr n \<Longrightarrow> safe_file_name n"
proof -
  assume "sanitize_file_name name = Inr n"
  then have n: "n = trim_dots_spaces name" "n \<noteq> []" "\<not> name_has_bad_char name"
    "\<not> is_windows_reserved_name (name_stem_upper n)"
    by (auto simp: sanitize_file_name_def Let_def split: if_splits)
  from n(1,2) have "\<not> (hd n = 32 \<or> hd n = 46)" and "\<not> (last n = 32 \<or> last n = 46)"
    using trim_where_ends [of "\<lambda>c. c = 32 \<or> c = 46" name] by (simp_all add: trim_dots_spaces_def)
  moreover have "set n \<subseteq> set name" using n(1) set_trim_where by (simp add: trim_dots_spaces_def)
  then have "\<not> name_has_bad_char n" using n(3) by (auto simp: name_has_bad_char_def list_ex_iff)
  ultimately show ?thesis using n by (simp add: safe_file_name_def)
qed

lemma sanitize_safe_id:
  assumes "safe_file_name n"
  shows "sanitize_file_name n = Inr n"
proof -
  have ends: "n \<noteq> []" "\<not> (hd n = 32 \<or> hd n = 46)" "\<not> (last n = 32 \<or> last n = 46)"
    using assms by (auto simp: safe_file_name_def)
  then have "trim_dots_spaces n = n"
    unfolding trim_dots_spaces_def by (intro trim_where_id) auto
  moreover have "n \<noteq> lit ''.''" "n \<noteq> lit ''..''" using ends by (auto simp: lit_eval)
  ultimately show ?thesis
    using assms by (simp add: sanitize_file_name_def safe_file_name_def Let_def)
qed

lemma sanitize_fixpoint: "sanitize_file_name n = Inr n \<longleftrightarrow> safe_file_name n"
  using sanitize_safe sanitize_safe_id by blast

section \<open>The file system\<close>

datatype fs_entry = FFile bytes "int option" | FDir

datatype fs_call =
    FMetadata path | FOpenRead path | FRead path | FCreateDir str | FCreateNew path
  | FWrite path nat | FSync path | FRename path path

record fs =
  fs_entries :: "path \<rightharpoonup> fs_entry"
  fs_faults :: "fs_call \<Rightarrow> bool"

definition io_fault :: str where "io_fault = lit ''i/o error''"

definition fs_exists :: "fs \<Rightarrow> path \<Rightarrow> bool" where
  "fs_exists fs p \<longleftrightarrow> fs_entries fs p \<noteq> None"

definition fs_content :: "fs \<Rightarrow> path \<Rightarrow> bytes option" where
  "fs_content fs p = (case fs_entries fs p of Some (FFile b m) \<Rightarrow> Some b | _ \<Rightarrow> None)"

definition fs_set :: "path \<Rightarrow> bytes \<Rightarrow> fs \<Rightarrow> fs" where
  "fs_set p b fs = fs\<lparr>fs_entries := (fs_entries fs)(p \<mapsto> FFile b None)\<rparr>"

definition fs_remove_file :: "path \<Rightarrow> fs \<Rightarrow> fs" where
  "fs_remove_file p fs = fs\<lparr>fs_entries := (fs_entries fs)(p := None)\<rparr>"

text \<open>\<open>Path::file_name\<close>: a path that ends in \<^verbatim>\<open>..\<close> has none.\<close>

definition path_file_name :: "path \<Rightarrow> str option" where
  "path_file_name p = (if snd p = lit ''..'' \<or> snd p = [] then None else Some (snd p))"

definition path_display :: "path \<Rightarrow> str" where
  "path_display p = fst p @ lit ''/'' @ snd p"

text \<open>A received file as the host gets it, with its path as text.\<close>

record received_file_record =
  rr_transfer_id :: str
  rr_file_name :: str
  rr_path :: str
  rr_size_bytes :: nat
  rr_sha256_hex :: str

definition received_record :: "received_file \<Rightarrow> received_file_record" where
  "received_record f =
     \<lparr>rr_transfer_id = rf_transfer_id f, rr_file_name = rf_file_name f, rr_path = path_display (rf_path f),
      rr_size_bytes = rf_size_bytes f, rr_sha256_hex = rf_sha256_hex f\<rparr>"

section \<open>Destination paths\<close>

definition numbered_name :: "str \<Rightarrow> str option \<Rightarrow> nat \<Rightarrow> str" where
  "numbered_name stem ext i =
     stem @ lit '' ('' @ show_nat i @ lit '')'' @ (case ext of Some e \<Rightarrow> lit ''.'' @ e | None \<Rightarrow> [])"

text \<open>The loop \<open>for i in 1..10_000\<close>.\<close>

fun first_free :: "fs \<Rightarrow> str \<Rightarrow> str \<Rightarrow> str option \<Rightarrow> nat list \<Rightarrow> path option" where
  "first_free fs dir stem ext [] = None"
| "first_free fs dir stem ext (i # ns) =
     (let next_path = (dir, numbered_name stem ext i)
      in if \<not> fs_exists fs next_path then Some next_path else first_free fs dir stem ext ns)"

definition unique_destination_path :: "fs \<Rightarrow> str \<Rightarrow> str \<Rightarrow> ft_error + path" where
  "unique_destination_path fs dir file_name =
     bind_r (sanitize_file_name file_name) (\<lambda>safe_name.
       let candidate = (dir, safe_name)
       in if \<not> fs_exists fs candidate then Inr candidate
          else
            (let (stem, ext) = split_name_ext safe_name
             in case first_free fs dir stem ext [1..<10000] of
                  Some p \<Rightarrow> Inr p
                | None \<Rightarrow> Inl (IoError (lit ''too many same-name files''))))"

definition part_path_for :: "path \<Rightarrow> str \<Rightarrow> path" where
  "part_path_for final_path transfer_id =
     (let file_name = (case path_file_name final_path of Some s \<Rightarrow> s | None \<Rightarrow> lit ''incoming'');
          safe_id = take 64 (filter (\<lambda>c. is_ascii_alphanumeric c \<or> c = 45) transfer_id)
      in (fst final_path, file_name @ lit ''.'' @ safe_id @ lit ''.part''))"

lemma first_free_Some:
  "first_free fs dir stem ext ns = Some p \<Longrightarrow>
     \<not> fs_exists fs p \<and> (\<exists>i\<in>set ns. p = (dir, numbered_name stem ext i))"
  by (induction ns) (auto simp: Let_def split: if_splits)

lemma first_free_None:
  "first_free fs dir stem ext ns = None \<longleftrightarrow>
     (\<forall>i\<in>set ns. fs_exists fs (dir, numbered_name stem ext i))"
  by (induction ns) (auto simp: Let_def)

lemma part_path_neq: "path_file_name p = Some (snd p) \<Longrightarrow> part_path_for p tid \<noteq> p"
proof -
  assume "path_file_name p = Some (snd p)"
  then have "length (snd (part_path_for p tid)) > length (snd p)"
    by (simp add: part_path_for_def Let_def)
  then show ?thesis by (metis less_irrefl)
qed

section \<open>The outgoing file\<close>

text \<open>
  An open file is its remaining content; \<open>read\<close> on a regular file fills the buffer unless the
  end is nearer. The hash loop of \<open>sha256_file_hex\<close> feeds the digest chunk by chunk.
\<close>

function hash_file_loop :: "nat \<Rightarrow> bytes \<Rightarrow> bytes \<Rightarrow> bytes" where
  "hash_file_loop n rest hashed =
     (if n = 0 \<or> rest = [] then hashed
      else hash_file_loop n (drop n rest) (hashed @ take n rest))"
  by pat_completeness auto
termination
  by (relation "measure (\<lambda>(n, rest, hashed). length rest)") auto

declare hash_file_loop.simps [simp del]

lemma hash_file_loop_all: "0 < n \<Longrightarrow> hash_file_loop n rest hashed = hashed @ rest"
proof (induction n rest hashed rule: hash_file_loop.induct)
  case (1 n rest hashed)
  then show ?case by (subst hash_file_loop.simps) auto
qed

definition sha256_file_hex :: "prims \<Rightarrow> fs \<Rightarrow> path \<Rightarrow> ft_error + str" where
  "sha256_file_hex P fs p =
     (case fs_content fs p of
        None \<Rightarrow> Inl (IoError io_fault)
      | Some content \<Rightarrow>
          if fs_faults fs (FOpenRead p) \<or> fs_faults fs (FRead p) then Inl (IoError io_fault)
          else Inr (hex_digest (sha256 P (hash_file_loop DEFAULT_CHUNK_BYTES content []))))"

lemma sha256_file_hex_Inr:
  "sha256_file_hex P fs p = Inr h \<longleftrightarrow>
     (\<exists>b. fs_content fs p = Some b \<and> \<not> fs_faults fs (FOpenRead p) \<and> \<not> fs_faults fs (FRead p)
        \<and> h = sha256_hex P b)"
  by (auto simp: sha256_file_hex_def sha256_hex_def hash_file_loop_all DEFAULT_CHUNK_BYTES_def
      split: option.splits)

record outgoing_file =
  og_path :: path
  og_rest :: bytes
  og_offer :: file_offer
  og_chunk_bytes :: nat

definition modified_millis :: "int option \<Rightarrow> int option" where
  "modified_millis m =
     (case m of Some t \<Rightarrow> if 0 \<le> t then Some (min t I64_MAX) else None | None \<Rightarrow> None)"

definition outgoing_open ::
  "prims \<Rightarrow> fs \<Rightarrow> str \<Rightarrow> str \<Rightarrow> str \<Rightarrow> path \<Rightarrow> str option \<Rightarrow> file_transfer_config
     \<Rightarrow> ft_error + outgoing_file" where
  "outgoing_open P fs uuid source target p mime config =
     (if fs_faults fs (FMetadata p) then Inl (IoError io_fault)
      else case fs_entries fs p of
        None \<Rightarrow> Inl (IoError io_fault)
      | Some FDir \<Rightarrow> Inl NotRegularFile
      | Some (FFile content modified) \<Rightarrow>
          if length content > max_file_bytes config
          then Inl (FileTooLarge (length content) (max_file_bytes config))
          else
            bind_r (case path_file_name p of
                      None \<Rightarrow> Inl (InvalidFileName (path_display p))
                    | Some s \<Rightarrow> sanitize_file_name s) (\<lambda>file_name.
            bind_r (sha256_file_hex P fs p) (\<lambda>sha.
              if fs_faults fs (FOpenRead p) then Inl (IoError io_fault)
              else Inr \<lparr>og_path = p, og_rest = content,
                        og_offer = \<lparr>fo_transfer_id = uuid, fo_source = source,
                          fo_target = target, fo_file_name = file_name,
                          fo_size_bytes = length content, fo_modified = modified_millis modified,
                          fo_mime_type = mime, fo_sha256_hex = sha\<rparr>,
                        og_chunk_bytes = bounded_chunk_bytes config\<rparr>)))"

text \<open>\<open>read_chunk\<close>: the bytes read (the buffer truncated to them) and the file after them.\<close>

definition read_chunk :: "fs \<Rightarrow> outgoing_file \<Rightarrow> ft_error + bytes \<times> outgoing_file" where
  "read_chunk fs og =
     (if fs_faults fs (FRead (og_path og)) then Inl (IoError io_fault)
      else Inr (take (og_chunk_bytes og) (og_rest og),
                og\<lparr>og_rest := drop (og_chunk_bytes og) (og_rest og)\<rparr>))"

section \<open>The incoming file\<close>

definition validate_offer :: "file_offer \<Rightarrow> file_transfer_config \<Rightarrow> ft_error + unit" where
  "validate_offer offer config =
     (if fo_size_bytes offer > max_file_bytes config
      then Inl (FileTooLarge (fo_size_bytes offer) (max_file_bytes config))
      else bind_r (sanitize_file_name (fo_file_name offer)) (\<lambda>_.
        if \<not> is_valid_sha256_hex (fo_sha256_hex offer)
        then Inl (InvalidSha256 (fo_sha256_hex offer))
        else if trim (fo_transfer_id offer) = []
        then Inl (InvalidFileName (lit ''empty transfer id''))
        else Inr ()))"

record incoming_file =
  in_offer :: file_offer
  in_file :: bool
  in_final_path :: path
  in_part_path :: path
  in_written :: nat
  in_hasher :: bytes
  in_finished :: bool

definition incoming_accept ::
  "fs \<Rightarrow> file_offer \<Rightarrow> str \<Rightarrow> file_transfer_config \<Rightarrow> (ft_error + incoming_file) \<times> fs" where
  "incoming_accept fs offer dir config =
     (case validate_offer offer config of
        Inl e \<Rightarrow> (Inl e, fs)
      | Inr _ \<Rightarrow>
          if fs_faults fs (FCreateDir dir) then (Inl (IoError io_fault), fs)
          else case unique_destination_path fs dir (fo_file_name offer) of
            Inl e \<Rightarrow> (Inl e, fs)
          | Inr final_path \<Rightarrow>
              (let part_path = part_path_for final_path (fo_transfer_id offer)
               in if fs_exists fs part_path \<or> fs_faults fs (FCreateNew part_path)
                  then (Inl (IoError io_fault), fs)
                  else (Inr \<lparr>in_offer = offer, in_file = True, in_final_path = final_path,
                             in_part_path = part_path, in_written = 0, in_hasher = [],
                             in_finished = False\<rparr>, fs_set part_path [] fs)))"

definition write_chunk ::
  "nat \<Rightarrow> bytes \<Rightarrow> incoming_file \<Rightarrow> fs \<Rightarrow> (ft_error + unit) \<times> incoming_file \<times> fs" where
  "write_chunk offset data w fs =
     (if offset \<noteq> in_written w then (Inl (OffsetMismatch (in_written w) offset), w, fs)
      else
        (let next_written = sat_add_u64 (in_written w) (length data)
         in if next_written > fo_size_bytes (in_offer w)
            then (Inl (SizeMismatch (fo_size_bytes (in_offer w)) next_written), w, fs)
            else if \<not> in_file w then (Inl (Canceled (lit ''writer already closed'')), w, fs)
            else if fs_faults fs (FWrite (in_part_path w) offset)
            then (Inl (IoError io_fault), w, fs)
            else (Inr (),
                  w\<lparr>in_hasher := in_hasher w @ data, in_written := next_written\<rparr>,
                  (case fs_content fs (in_part_path w) of
                     Some b \<Rightarrow> fs_set (in_part_path w) (b @ data) fs
                   | None \<Rightarrow> fs))))"

text \<open>\<open>Drop\<close>: a writer that did not finish removes its part file.\<close>

definition drop_writer :: "incoming_file \<Rightarrow> fs \<Rightarrow> fs" where
  "drop_writer w fs = (if in_finished w then fs else fs_remove_file (in_part_path w) fs)"

definition fs_rename :: "path \<Rightarrow> path \<Rightarrow> fs \<Rightarrow> fs" where
  "fs_rename p q fs = fs\<lparr>fs_entries := (fs_entries fs)(q := fs_entries fs p, p := None)\<rparr>"

definition finish_body ::
  "prims \<Rightarrow> incoming_file \<Rightarrow> fs \<Rightarrow> (ft_error + received_file) \<times> incoming_file \<times> fs" where
  "finish_body P w fs =
     (if in_written w \<noteq> fo_size_bytes (in_offer w)
      then (Inl (SizeMismatch (fo_size_bytes (in_offer w)) (in_written w)), w, fs)
      else if in_file w \<and> fs_faults fs (FSync (in_part_path w))
      then (Inl (IoError io_fault), w\<lparr>in_file := False\<rparr>, fs)
      else
        (let w = w\<lparr>in_file := False\<rparr>;
             got = hex_digest (sha256 P (in_hasher w))
         in if got \<noteq> fo_sha256_hex (in_offer w)
            then (Inl (HashMismatch (fo_sha256_hex (in_offer w)) got), w, fs)
            else if fs_faults fs (FRename (in_part_path w) (in_final_path w))
            then (Inl (IoError io_fault), w, fs)
            else (Inr \<lparr>rf_transfer_id = fo_transfer_id (in_offer w),
                       rf_file_name = fo_file_name (in_offer w),
                       rf_path = in_final_path w,
                       rf_size_bytes = in_written w,
                       rf_sha256_hex = fo_sha256_hex (in_offer w)\<rparr>,
                  w\<lparr>in_finished := True\<rparr>,
                  fs_rename (in_part_path w) (in_final_path w) fs)))"

text \<open>\<open>finish\<close> consumes the writer, which is dropped on every path out of it.\<close>

definition finish :: "prims \<Rightarrow> incoming_file \<Rightarrow> fs \<Rightarrow> (ft_error + received_file) \<times> fs" where
  "finish P w fs = (case finish_body P w fs of (r, w', fs') \<Rightarrow> (r, drop_writer w' fs'))"

section \<open>What the writer maintains\<close>

text \<open>
  From acceptance to the end: the part file holds exactly the bytes hashed so far, their count
  is \<open>written\<close>, it never passes the offered size, and everything but the part file is as it was
  when the offer arrived.
\<close>

definition writer_inv :: "fs \<Rightarrow> incoming_file \<Rightarrow> fs \<Rightarrow> bool" where
  "writer_inv fs0 w fs \<longleftrightarrow>
     in_file w \<and> \<not> in_finished w
     \<and> fs_content fs (in_part_path w) = Some (in_hasher w)
     \<and> in_written w = length (in_hasher w)
     \<and> in_written w \<le> fo_size_bytes (in_offer w)
     \<and> fo_size_bytes (in_offer w) < U64_MAX
     \<and> in_part_path w \<noteq> in_final_path w
     \<and> fs_entries fs0 (in_part_path w) = None
     \<and> fs_entries fs0 (in_final_path w) = None
     \<and> (\<forall>p. p \<noteq> in_part_path w \<longrightarrow> fs_entries fs p = fs_entries fs0 p)
     \<and> fs_faults fs = fs_faults fs0"

lemma fs_set_simps [simp]:
  "fs_entries (fs_set p b fs) = (fs_entries fs)(p \<mapsto> FFile b None)"
  "fs_faults (fs_set p b fs) = fs_faults fs"
  "fs_content (fs_set p b fs) p = Some b"
  by (simp_all add: fs_set_def fs_content_def)

lemma fs_remove_simps [simp]:
  "fs_entries (fs_remove_file p fs) = (fs_entries fs)(p := None)"
  "fs_faults (fs_remove_file p fs) = fs_faults fs"
  by (simp_all add: fs_remove_file_def)

lemma unique_destination_Inr:
  assumes "unique_destination_path fs dir name = Inr p"
  shows "fst p = dir" and "\<not> fs_exists fs p" and "path_file_name p = Some (snd p)"
    and "\<exists>safe. sanitize_file_name name = Inr safe
           \<and> (snd p = safe \<or> (\<exists>i\<in>{1..<10000}. snd p =
                numbered_name (fst (split_name_ext safe)) (snd (split_name_ext safe)) i))"
proof -
  from assms obtain safe where safe: "sanitize_file_name name = Inr safe"
    and alt: "(p = (dir, safe) \<and> \<not> fs_exists fs p)
      \<or> first_free fs dir (fst (split_name_ext safe)) (snd (split_name_ext safe)) [1..<10000] = Some p"
    by (auto simp: unique_destination_path_def Let_def split: if_splits prod.splits option.splits)
  from alt have split: "p = (dir, safe) \<and> \<not> fs_exists fs p \<or> (\<not> fs_exists fs p \<and>
      (\<exists>i\<in>{1..<10000}. p = (dir, numbered_name (fst (split_name_ext safe)) (snd (split_name_ext safe)) i)))"
    by (auto dest!: first_free_Some)
  then show "fst p = dir" and "\<not> fs_exists fs p" by auto
  have "safe_file_name safe" using safe by (rule sanitize_safe)
  then have "safe \<noteq> [] \<and> safe \<noteq> lit ''..''" by (auto simp: safe_file_name_def lit_eval)
  moreover have "numbered_name st ex i \<noteq> [] \<and> numbered_name st ex i \<noteq> lit ''..''" for st ex i
  proof -
    have "40 \<in> set (numbered_name st ex i)" by (simp add: numbered_name_def lit_eval)
    moreover have "40 \<notin> set (lit ''..'')" by (simp add: lit_eval)
    ultimately show ?thesis by (metis empty_iff list.set(1))
  qed
  ultimately show "path_file_name p = Some (snd p)"
    using split by (auto simp: path_file_name_def)
  show "\<exists>safe. sanitize_file_name name = Inr safe
      \<and> (snd p = safe \<or> (\<exists>i\<in>{1..<10000}. snd p =
           numbered_name (fst (split_name_ext safe)) (snd (split_name_ext safe)) i))"
    using safe split by force
qed

lemma split_once_takeWhile:
  "(case split_once d s of Some (a, _) \<Rightarrow> a | None \<Rightarrow> s) = takeWhile (\<lambda>c. c \<noteq> d) s"
  by (induction s) (auto split: option.splits)

lemma reserved_no_paren: "40 \<in> set s \<Longrightarrow> \<not> is_windows_reserved_name s"
  by (auto simp: is_windows_reserved_name_def windows_reserved_names_def lit_eval)

text \<open>The numbered alternatives of a safe name are safe themselves.\<close>

lemma numbered_name_safe:
  assumes safe: "safe_file_name n" and split: "split_name_ext n = (stem, ext)"
  shows "safe_file_name (numbered_name stem ext i)"
proof -
  let ?tail = "case ext of Some e \<Rightarrow> lit ''.'' @ e | None \<Rightarrow> []"
  let ?m = "lit '' ('' @ show_nat i @ lit '')''"
  have n: "n = stem @ ?tail" "stem \<noteq> []" "\<And>e. ext = Some e \<Longrightarrow> e \<noteq> []"
    using split safe by (auto simp: split_name_ext_def safe_file_name_def lit_eval
        dest!: rsplit_once_Some split: option.splits prod.splits if_splits)
  have name: "numbered_name stem ext i = stem @ ?m @ ?tail" by (simp add: numbered_name_def)
  have chars: "c \<in> set ?m \<Longrightarrow> c = 32 \<or> c = 40 \<or> c = 41 \<or> (48 \<le> c \<and> c \<le> 57)" for c
    by (auto simp: lit_eval dest: show_nat_digits)
  have "\<not> name_has_bad_char ?m"
    using chars by (fastforce simp: name_has_bad_char_def list_ex_iff is_control_def)
  then have 1: "\<not> name_has_bad_char (stem @ ?m @ ?tail)"
    using safe n(1) by (auto simp: safe_file_name_def name_has_bad_char_def)
  have "hd (stem @ ?m @ ?tail) = hd n" using n by simp
  then have 2: "hd (stem @ ?m @ ?tail) \<noteq> 46" "hd (stem @ ?m @ ?tail) \<noteq> 32"
    using safe by (simp_all add: safe_file_name_def)
  have 3: "last (stem @ ?m @ ?tail) \<noteq> 46 \<and> last (stem @ ?m @ ?tail) \<noteq> 32"
  proof (cases ext)
    case (Some e)
    then have "last (stem @ ?m @ ?tail) = last n" using n by simp
    then show ?thesis using safe by (simp add: safe_file_name_def)
  qed (simp add: lit_eval)
  have 4: "\<not> is_windows_reserved_name (name_stem_upper (stem @ ?m @ ?tail))"
  proof (cases "46 \<in> set stem")
    case True
    then have "takeWhile (\<lambda>c. c \<noteq> 46) (stem @ ?m @ ?tail) = takeWhile (\<lambda>c. c \<noteq> 46) n"
      using n(1) by (auto simp: takeWhile_append1)
    then show ?thesis
      using safe by (simp add: safe_file_name_def name_stem_upper_def split_once_takeWhile)
  next
    case False
    have "\<forall>c\<in>set (stem @ ?m). c \<noteq> 46" using chars False by fastforce
    then have "takeWhile (\<lambda>c. c \<noteq> 46) ((stem @ ?m) @ ?tail)
        = (stem @ ?m) @ takeWhile (\<lambda>c. c \<noteq> 46) ?tail" by (intro takeWhile_append2) blast
    then have "40 \<in> set (takeWhile (\<lambda>c. c \<noteq> 46) (stem @ ?m @ ?tail))"
      by (simp add: lit_eval)
    then have "ascii_upper 40 \<in> set (name_stem_upper (stem @ ?m @ ?tail))"
      by (simp add: name_stem_upper_def split_once_takeWhile)
    then show ?thesis by (intro reserved_no_paren) (simp add: ascii_upper_def)
  qed
  show ?thesis unfolding name safe_file_name_def using n(2) 1 2 3 4 by simp
qed

lemma unique_destination_safe:
  assumes "unique_destination_path fs dir name = Inr p"
  shows "safe_file_name (snd p)"
proof -
  from unique_destination_Inr(4) [OF assms] obtain safe where "sanitize_file_name name = Inr safe"
    and alt: "snd p = safe \<or> (\<exists>i\<in>{1..<10000}. snd p =
           numbered_name (fst (split_name_ext safe)) (snd (split_name_ext safe)) i)" by blast
  from sanitize_safe [OF this(1)] alt show ?thesis
    using numbered_name_safe by (metis prod.collapse)
qed

lemma accept_final_safe:
  assumes "incoming_accept fs offer dir config = (Inr w, fs')"
  shows "safe_file_name (snd (in_final_path w))"
  using assms unique_destination_safe
  by (auto simp: incoming_accept_def Let_def split: sum.splits if_splits)

lemma accept_inv:
  assumes "incoming_accept fs offer dir config = (Inr w, fs')"
    and "max_file_bytes config < U64_MAX"
  shows "writer_inv fs w fs'" and "in_offer w = offer" and "fst (in_final_path w) = dir"
    and "in_hasher w = []" and "validate_offer offer config = Inr ()"
proof -
  from assms(1) obtain p where p: "unique_destination_path fs dir (fo_file_name offer) = Inr p"
    and v: "validate_offer offer config = Inr ()"
    and part: "\<not> fs_exists fs (part_path_for p (fo_transfer_id offer))"
    and w: "w = \<lparr>in_offer = offer, in_file = True, in_final_path = p,
        in_part_path = part_path_for p (fo_transfer_id offer), in_written = 0, in_hasher = [],
        in_finished = False\<rparr>"
    and fs': "fs' = fs_set (part_path_for p (fo_transfer_id offer)) [] fs"
    by (auto simp: incoming_accept_def Let_def split: sum.splits if_splits)
  have "fo_size_bytes offer \<le> max_file_bytes config"
    using v by (auto simp: validate_offer_def split: if_splits)
  then show "writer_inv fs w fs'"
    using assms(2) part unique_destination_Inr(2) [OF p]
      part_path_neq [OF unique_destination_Inr(3) [OF p]]
    by (auto simp: writer_inv_def w fs' fs_exists_def)
  show "in_offer w = offer" "fst (in_final_path w) = dir" "in_hasher w = []"
    "validate_offer offer config = Inr ()"
    using unique_destination_Inr(1) [OF p] v by (simp_all add: w)
qed

lemma write_chunk_inv:
  assumes "writer_inv fs0 w fs" and "write_chunk offset data w fs = (r, w', fs')"
  shows "writer_inv fs0 w' fs'"
  using assms
  by (auto simp: writer_inv_def write_chunk_def Let_def sat_add_u64_def min_def
      split: if_splits option.splits)

lemma write_chunk_frame:
  "write_chunk offset data w fs = (r, w', fs') \<Longrightarrow>
     in_offer w' = in_offer w \<and> in_final_path w' = in_final_path w \<and> in_part_path w' = in_part_path w"
  by (auto simp: write_chunk_def Let_def split: if_splits)

lemma write_chunk_ok:
  assumes "writer_inv fs0 w fs" and "\<not> fs_faults fs (FWrite (in_part_path w) (in_written w))"
    and "in_written w + length data \<le> fo_size_bytes (in_offer w)"
  shows "\<exists>fs'. write_chunk (in_written w) data w fs =
     (Inr (), w\<lparr>in_hasher := in_hasher w @ data, in_written := in_written w + length data\<rparr>, fs')"
  using assms by (auto simp: writer_inv_def write_chunk_def Let_def sat_add_u64_def min_def)

lemma drop_writer_restores:
  assumes "writer_inv fs0 w fs"
  shows "fs_entries (drop_writer w fs) = fs_entries fs0"
  using assms by (auto simp: writer_inv_def drop_writer_def)

lemma finish_Inr:
  assumes inv: "writer_inv fs0 w fs" and fin: "finish P w fs = (Inr rf, fs')"
  shows "fs_content fs' (rf_path rf) = Some (in_hasher w)"
    and "length (in_hasher w) = fo_size_bytes (in_offer w)"
    and "sha256_hex P (in_hasher w) = fo_sha256_hex (in_offer w)"
    and "rf_path rf = in_final_path w"
    and "fs_entries fs' = (fs_entries fs0)(rf_path rf \<mapsto> the (fs_entries fs' (rf_path rf)))"
    and "rf_size_bytes rf = fo_size_bytes (in_offer w)"
    and "rf_sha256_hex rf = fo_sha256_hex (in_offer w)"
    and "rf_transfer_id rf = fo_transfer_id (in_offer w)"
    and "rf_file_name rf = fo_file_name (in_offer w)"
proof -
  from fin inv have w: "in_written w = fo_size_bytes (in_offer w)"
    and h: "hex_digest (sha256 P (in_hasher w)) = fo_sha256_hex (in_offer w)"
    and rf: "rf_path rf = in_final_path w"
    and fs': "fs' = fs_rename (in_part_path w) (in_final_path w) fs"
    by (auto simp: finish_def finish_body_def drop_writer_def Let_def split: if_splits)
  obtain m where e: "fs_entries fs (in_part_path w) = Some (FFile (in_hasher w) m)"
    using inv by (auto simp: writer_inv_def fs_content_def split: option.splits fs_entry.splits)
  have neq: "in_part_path w \<noteq> in_final_path w" using inv by (simp add: writer_inv_def)
  have ent: "fs_entries fs' = (fs_entries fs)(in_final_path w \<mapsto> FFile (in_hasher w) m, in_part_path w := None)"
    using neq by (simp add: fs' fs_rename_def e)
  show "fs_content fs' (rf_path rf) = Some (in_hasher w)"
    using neq by (simp add: fs_content_def ent rf)
  show "length (in_hasher w) = fo_size_bytes (in_offer w)"
    using w inv by (simp add: writer_inv_def)
  show "sha256_hex P (in_hasher w) = fo_sha256_hex (in_offer w)" using h by (simp add: sha256_hex_def)
  show "rf_path rf = in_final_path w" by (rule rf)
  show "fs_entries fs' = (fs_entries fs0)(rf_path rf \<mapsto> the (fs_entries fs' (rf_path rf)))"
    using inv neq by (auto simp: ent rf writer_inv_def)
  show "rf_size_bytes rf = fo_size_bytes (in_offer w)"
    "rf_sha256_hex rf = fo_sha256_hex (in_offer w)"
    "rf_transfer_id rf = fo_transfer_id (in_offer w)"
    "rf_file_name rf = fo_file_name (in_offer w)"
    using fin w by (auto simp: finish_def finish_body_def Let_def split: if_splits)
qed

lemma finish_Inl:
  assumes "writer_inv fs0 w fs" and "finish P w fs = (Inl e, fs')"
  shows "fs_entries fs' = fs_entries fs0"
  using assms by (auto simp: finish_def finish_body_def drop_writer_def writer_inv_def Let_def split: if_splits)

lemma finish_ok:
  assumes "writer_inv fs0 w fs" and "in_written w = fo_size_bytes (in_offer w)"
    and "sha256_hex P (in_hasher w) = fo_sha256_hex (in_offer w)"
    and "\<not> fs_faults fs (FSync (in_part_path w))"
    and "\<not> fs_faults fs (FRename (in_part_path w) (in_final_path w))"
  shows "\<exists>rf fs'. finish P w fs = (Inr rf, fs')"
  using assms by (simp add: finish_def finish_body_def Let_def sha256_hex_def)

section \<open>The properties\<close>


text \<open>
  Destination paths. The path chosen is in the destination directory, free, and under a safe
  name; there is none exactly when the name is refused or the name and its 9,999 numbered
  alternatives are all taken.
\<close>

theorem unique_destination_spec:
  "case unique_destination_path fs dir name of
     Inr p \<Rightarrow> fst p = dir \<and> \<not> fs_exists fs p \<and> safe_file_name (snd p)
   | Inl e \<Rightarrow> (case sanitize_file_name name of
        Inl e' \<Rightarrow> e = e'
      | Inr safe \<Rightarrow> fs_exists fs (dir, safe)
          \<and> (\<forall>i \<in> {1..<10000}. fs_exists fs
               (dir, numbered_name (fst (split_name_ext safe)) (snd (split_name_ext safe)) i)))"
proof (cases "unique_destination_path fs dir name")
  case (Inr p)
  then show ?thesis using unique_destination_Inr [OF Inr] unique_destination_safe [OF Inr] by simp
next
  case (Inl e)
  show ?thesis
  proof (cases "sanitize_file_name name")
    case err: (Inl e')
    with Inl show ?thesis by (simp add: unique_destination_path_def)
  next
    case ok: (Inr safe)
    obtain st ex where split: "split_name_ext safe = (st, ex)" by fastforce
    have "fs_exists fs (dir, safe) \<and> first_free fs dir st ex [1..<10000] = None"
      using Inl unfolding unique_destination_path_def ok bind_r.simps Let_def split
      by (cases "first_free fs dir st ex [1..<10000]") (simp_all del: upt_Suc split: if_splits)
    then have "fs_exists fs (dir, safe)" and "\<forall>i \<in> set [1..<10000]. fs_exists fs (dir, numbered_name st ex i)"
      unfolding first_free_None by blast+
    then show ?thesis unfolding Inl ok sum.case split fst_conv snd_conv set_upt by blast
  qed
qed

theorem unique_destination_spec_witness:
  "case unique_destination_path \<lparr>fs_entries = Map.empty, fs_faults = (\<lambda>_. False)\<rparr> (lit ''d'') (lit ''a'') of
     Inr p \<Rightarrow> fst p = lit ''d'' | Inl e \<Rightarrow> True"
  using unique_destination_spec [of "\<lparr>fs_entries = Map.empty, fs_faults = (\<lambda>_. False)\<rparr>" "lit ''d''" "lit ''a''"]
  by (cases "unique_destination_path \<lparr>fs_entries = Map.empty, fs_faults = (\<lambda>_. False)\<rparr> (lit ''d'') (lit ''a'')")
    (simp_all only: sum.case)

end
