(* ===== verification/ClientRun.thy ===== *)
theory ClientRun
  imports ClientSession FileTransfer
begin

text \<open>
  The worker of \<^verbatim>\<open>core/src/client.rs\<close>: the queue of received files, the delivery of LAN clips
  next to the relay's, the wait while the relay is suspended, the backoff between sessions, and the
  loop that runs sessions. A round of the loop takes a script of what the host, the clock and the
  network do in it.
\<close>

section \<open>Received files\<close>

definition RECEIVED_FILES_CAP :: nat where "RECEIVED_FILES_CAP = 128"

definition push_received :: "'f \<Rightarrow> 'f list \<Rightarrow> 'f list" where
  "push_received file queue =
     (if length queue \<ge> RECEIVED_FILES_CAP then tl queue else queue) @ [file]"

interpretation received_log: bounded_log push_received RECEIVED_FILES_CAP
proof
  fix xs :: "'a list" and x
  show "suffix (push_received x xs) (xs @ [x])"
    by (cases xs) (auto simp: push_received_def suffix_def)
  show "push_received x xs \<noteq> []" by (simp add: push_received_def)
  assume "length xs \<le> RECEIVED_FILES_CAP"
  then show "length (push_received x xs) = min RECEIVED_FILES_CAP (Suc (length xs))"
    by (auto simp: push_received_def RECEIVED_FILES_CAP_def)
qed

section \<open>Clips from both transports\<close>

definition drain_lan_clip :: "session_ctx \<Rightarrow> nat \<Rightarrow> incoming_lan_clip \<Rightarrow> session_state \<Rightarrow> session_state" where
  "drain_lan_clip ctx now c st =
     (if il_sender c = sc_device_id ctx then st
      else
        (let (fresh, d) = dedup_insert now (il_sender c) (il_ts c) (ss_dedup st);
             st = st\<lparr>ss_dedup := d\<rparr>
         in if fresh then emit (OnClip (il_payload c)) st else st))"

text \<open>An arrival on either transport. Both tasks hold the lock of the dedup cache for one insert.\<close>

datatype arrival = ViaRelay recent_clip | ViaLan incoming_lan_clip

fun arrive :: "client_codec \<Rightarrow> session_ctx \<Rightarrow> nat \<times> arrival \<Rightarrow> session_state \<Rightarrow> session_state" where
  "arrive C ctx (now, ViaRelay c) st = deliver_clip C ctx now c st"
| "arrive C ctx (now, ViaLan c) st = drain_lan_clip ctx now c st"

section \<open>Waiting\<close>

definition RECONNECT_STABLE_SESSION :: nat where "RECONNECT_STABLE_SESSION = 30 * 1000"
definition BACKOFF_MIN :: nat where "BACKOFF_MIN = 1 * 1000"
definition BACKOFF_MAX :: nat where "BACKOFF_MAX = 30 * 1000"

datatype suspend_wait = SuspendStop | SuspendResume

datatype suspend_event = SuCmd "cmd option" | SuNotified bool

text \<open>
  One turn of the wait: the idle flag as the loop reads it, then what the select yields, a command
  (None: the channel is closed) or the notification with the flag read after it. None as the result:
  still waiting when the script ends.
\<close>

fun wait_while_relay_suspended ::
  "(bool \<times> suspend_event) list \<Rightarrow> cmd list \<Rightarrow> suspend_wait option \<times> cmd list" where
  "wait_while_relay_suspended [] pending = (None, pending)"
| "wait_while_relay_suspended ((idle, ev) # evs) pending =
     (if \<not> idle then (Some SuspendResume, pending)
      else case ev of
        SuCmd None \<Rightarrow> (Some SuspendStop, pending)
      | SuCmd (Some CmdStop) \<Rightarrow> (Some SuspendStop, pending)
      | SuCmd (Some other) \<Rightarrow> wait_while_relay_suspended evs (pending @ [other])
      | SuNotified idle' \<Rightarrow>
          if \<not> idle' then (Some SuspendResume, pending)
          else wait_while_relay_suspended evs pending)"

text \<open>
  The sleep between sessions. The wakes give their time and the request flag as the loop then reads
  it. The result: cut short or not, and when it ended.
\<close>

fun wait_backoff :: "nat \<Rightarrow> nat \<Rightarrow> bool \<Rightarrow> (nat \<times> bool) list \<Rightarrow> bool \<times> nat" where
  "wait_backoff now deadline True wakes = (True, now)"
| "wait_backoff now deadline False [] = (False, deadline)"
| "wait_backoff now deadline False ((t, requested) # wakes) =
     (if deadline \<le> t then (False, deadline) else wait_backoff t deadline requested wakes)"

section \<open>The loop\<close>

text \<open>
  What happens in a round: the idle flag at its start, the wait while suspended, when the dial
  starts and how it ends, the environment and events of the session, when it ended, the idle flag
  then, whether a reconnect was requested since, and the wakes of the backoff.
\<close>

record round =
  rd_idle :: bool
  rd_suspend :: "(bool \<times> suspend_event) list"
  rd_started :: nat
  rd_connect :: connect_result
  rd_env :: senv
  rd_evs :: "(senv \<times> session_event) list"
  rd_send_error :: "nat \<Rightarrow> str option"
  rd_nonce :: "nat \<Rightarrow> bytes"
  rd_ended :: nat
  rd_idle_after :: bool
  rd_requested :: bool
  rd_wakes :: "(nat \<times> bool) list"

text \<open>The worker: what one session hands to the next, the frames of every dial, and the backoffs
  slept as start and end.\<close>

record run_state =
  rs_pending :: "cmd list"
  rs_backoff :: nat
  rs_events :: "listener_event list"
  rs_dedup :: dedup_cache
  rs_requested :: bool
  rs_dials :: "ws_frame list list"
  rs_broadcast :: "(str \<times> nat \<times> clip_payload) list"
  rs_ingested :: "lan_peer list list"
  rs_waits :: "(nat \<times> nat) list"

datatype run_status = RunNext | RunStopped | RunBusy

definition run_init :: run_state where
  "run_init =
     \<lparr>rs_pending = [], rs_backoff = BACKOFF_MIN, rs_events = [], rs_dedup = dedup_new 128 (10 * 1000),
      rs_requested = False, rs_dials = [], rs_broadcast = [], rs_ingested = [], rs_waits = []\<rparr>"

definition on_state :: "connection_state \<Rightarrow> run_state \<Rightarrow> run_state" where
  "on_state c s = s\<lparr>rs_events := rs_events s @ [OnState c]\<rparr>"

definition back_off :: "round \<Rightarrow> run_state \<Rightarrow> run_state" where
  "back_off r s =
     (let (cut, ended) = wait_backoff (rd_ended r) (rd_ended r + rs_backoff s) (rs_requested s \<or> rd_requested r) (rd_wakes r)
      in s\<lparr>rs_waits := rs_waits s @ [(rd_ended r, ended)], rs_requested := False,
           rs_backoff := (if cut then BACKOFF_MIN else min (rs_backoff s * 2) BACKOFF_MAX)\<rparr>)"

text \<open>The gate at the start of a round.\<close>

definition suspend_gate :: "round \<Rightarrow> run_state \<Rightarrow> run_status \<times> run_state" where
  "suspend_gate r s =
     (if rd_idle r
      then (let s = on_state Disconnected s;
                (w, pending) = wait_while_relay_suspended (rd_suspend r) (rs_pending s);
                s = s\<lparr>rs_pending := pending\<rparr>
            in case w of
                 None \<Rightarrow> (RunBusy, s)
               | Some SuspendStop \<Rightarrow> (RunStopped, on_state Disconnected s)
               | Some SuspendResume \<Rightarrow> (RunNext, s\<lparr>rs_backoff := BACKOFF_MIN\<rparr>))
      else (RunNext, s))"

definition run_session ::
  "client_codec \<Rightarrow> session_ctx \<Rightarrow> round \<Rightarrow> run_state \<Rightarrow> (str + session_exit) option \<times> run_state" where
  "run_session C ctx r s =
     (let s = on_state Connecting s;
          ctx = ctx\<lparr>sc_send_error := rd_send_error r, sc_nonce := rd_nonce r\<rparr>;
          (res, st, pending) =
            session C ctx (rd_connect r) (rd_env r) (rd_evs r) (rs_pending s)
              (session_state_new (rd_started r) (rs_dedup s) (rs_requested s))
      in (res, s\<lparr>rs_events := rs_events s @ ss_events st, rs_dedup := ss_dedup st, rs_pending := pending,
                 rs_requested := ss_reconnect_requested st, rs_dials := rs_dials s @ [ss_out st],
                 rs_broadcast := rs_broadcast s @ ss_broadcast st,
                 rs_ingested := rs_ingested s @ ss_ingested st\<rparr>))"

definition run_round ::
  "client_codec \<Rightarrow> session_ctx \<Rightarrow> round \<Rightarrow> run_state \<Rightarrow> run_status \<times> run_state" where
  "run_round C ctx r s =
     (case suspend_gate r s of
        (RunNext, s) \<Rightarrow>
          (let (res, s) = run_session C ctx r s;
               stable = RECONNECT_STABLE_SESSION \<le> rd_ended r - rd_started r
           in case res of
                None \<Rightarrow> (RunBusy, s)
              | Some (Inr ExitStop) \<Rightarrow> (RunStopped, on_state Disconnected s)
              | Some (Inr ExitReconnect) \<Rightarrow>
                  (let s = on_state Disconnected s
                   in (RunNext,
                       if rd_idle_after r then s
                       else if stable then s\<lparr>rs_backoff := BACKOFF_MIN\<rparr>
                       else back_off r s))
              | Some (Inl e) \<Rightarrow>
                  (let s = on_state (StateError e) s
                   in (RunNext,
                       if rd_idle_after r then s
                       else back_off r (if stable then s\<lparr>rs_backoff := BACKOFF_MIN\<rparr> else s))))
      | stop \<Rightarrow> stop)"

fun run :: "client_codec \<Rightarrow> session_ctx \<Rightarrow> round list \<Rightarrow> run_state \<Rightarrow> run_status \<times> run_state" where
  "run C ctx [] s = (RunNext, s)"
| "run C ctx (r # rs) s =
     (case run_round C ctx r s of
        (RunNext, s') \<Rightarrow> run C ctx rs s'
      | stop \<Rightarrow> stop)"

section \<open>Facts\<close>

lemma wait_backoff_cut: "fst (wait_backoff now deadline requested wakes) = False \<Longrightarrow>
     snd (wait_backoff now deadline requested wakes) = deadline"
  by (induction now deadline requested wakes rule: wait_backoff.induct) (auto split: if_splits)

lemma wait_backoff_bound: "now \<le> deadline \<Longrightarrow> snd (wait_backoff now deadline requested wakes) \<le> deadline"
  by (induction now deadline requested wakes rule: wait_backoff.induct) auto

lemma back_off_waits: "\<exists>w. rs_waits (back_off r s) = rs_waits s @ [(rd_ended r, w)] \<and> w \<le> rd_ended r + rs_backoff s
    \<and> (w < rd_ended r + rs_backoff s \<longrightarrow> rs_backoff (back_off r s) = BACKOFF_MIN)
    \<and> rs_backoff (back_off r s) \<in> {BACKOFF_MIN, min (rs_backoff s * 2) BACKOFF_MAX}"
  using wait_backoff_bound [of "rd_ended r" "rd_ended r + rs_backoff s" "rs_requested s \<or> rd_requested r" "rd_wakes r"]
    wait_backoff_cut [of "rd_ended r" "rd_ended r + rs_backoff s" "rs_requested s \<or> rd_requested r" "rd_wakes r"]
  by (auto simp: back_off_def Let_def case_prod_unfold)

lemma suspend_gate_state:
  assumes "suspend_gate r s = (status, s')"
  shows "rs_waits s' = rs_waits s \<and> rs_backoff s' \<in> {rs_backoff s, BACKOFF_MIN} \<and> rs_dials s' = rs_dials s
    \<and> (\<not> rd_idle r \<longrightarrow> s' = s \<and> status = RunNext)"
  using assms
  by (auto simp: suspend_gate_def on_state_def Let_def case_prod_unfold
      split: if_splits option.splits suspend_wait.splits)

lemma run_session_state:
  assumes "run_session C ctx r s = (res, s')"
  shows "rs_waits s' = rs_waits s \<and> rs_backoff s' = rs_backoff s \<and> length (rs_dials s') = Suc (length (rs_dials s))"
  using assms by (auto simp: run_session_def on_state_def Let_def case_prod_unfold)

text \<open>The invariant of the backoff: in range, and every sleep recorded no longer than the range.\<close>

definition backoff_inv :: "run_state \<Rightarrow> bool" where
  "backoff_inv s \<longleftrightarrow>
     BACKOFF_MIN \<le> rs_backoff s \<and> rs_backoff s \<le> BACKOFF_MAX
     \<and> (\<forall>w \<in> set (rs_waits s). snd w \<le> fst w + BACKOFF_MAX)"

lemmas backoff_consts = BACKOFF_MIN_def BACKOFF_MAX_def RECONNECT_STABLE_SESSION_def

lemma back_off_inv: "backoff_inv s \<Longrightarrow> backoff_inv (back_off r s)"
  using back_off_waits [of r s] by (auto simp: backoff_inv_def backoff_consts)

lemma on_state_inv [simp]: "backoff_inv (on_state c s) = backoff_inv s"
  by (simp add: on_state_def backoff_inv_def)

lemma backoff_reset_inv: "backoff_inv s \<Longrightarrow> backoff_inv (s\<lparr>rs_backoff := BACKOFF_MIN\<rparr>)"
  by (simp add: backoff_inv_def backoff_consts)

lemma run_round_inv:
  assumes "backoff_inv s" and "run_round C ctx r s = (status, s')"
  shows "backoff_inv s'"
proof -
  obtain g s1 where gate: "suspend_gate r s = (g, s1)" by fastforce
  have s1: "backoff_inv s1"
    using assms(1) suspend_gate_state [OF gate] by (auto simp: backoff_inv_def backoff_consts)
  obtain res s2 where sess: "run_session C ctx r s1 = (res, s2)" by fastforce
  have "backoff_inv s2" using s1 run_session_state [OF sess] by (simp add: backoff_inv_def)
  then show ?thesis
    using assms(2) gate sess s1
    by (auto simp: run_round_def Let_def back_off_inv backoff_reset_inv
        split: run_status.splits option.splits sum.splits session_exit.splits if_splits)
qed

lemma run_backoff_inv: "backoff_inv s \<Longrightarrow> run C ctx rs s = (status, s') \<Longrightarrow> backoff_inv s'"
proof (induction rs arbitrary: s)
  case (Cons r rs)
  obtain g s1 where round: "run_round C ctx r s = (g, s1)" by fastforce
  have "backoff_inv s1" using Cons.prems(1) round by (rule run_round_inv)
  then show ?case
    using Cons.IH [of s1] Cons.prems(2) round by (cases g) auto
qed simp

text \<open>A round in which the dial fails at once and nobody intervenes.\<close>

definition failing_round :: "round \<Rightarrow> bool" where
  "failing_round r \<longleftrightarrow>
     \<not> rd_idle r \<and> \<not> rd_idle_after r \<and> \<not> rd_requested r \<and> rd_wakes r = []
     \<and> (\<exists>e. rd_connect r = ConnectError e) \<and> rd_ended r - rd_started r < RECONNECT_STABLE_SESSION"

lemma failing_round_step:
  assumes "failing_round r" and "\<not> rs_requested s"
  shows "\<exists>s'. run_round C ctx r s = (RunNext, s') \<and> \<not> rs_requested s'
    \<and> rs_backoff s' = min (rs_backoff s * 2) BACKOFF_MAX
    \<and> rs_waits s' = rs_waits s @ [(rd_ended r, rd_ended r + rs_backoff s)]
    \<and> rs_dials s' = rs_dials s @ [[]]"
proof -
  obtain e where e: "rd_connect r = ConnectError e" using assms(1) by (auto simp: failing_round_def)
  show ?thesis
    using assms by (simp add: failing_round_def run_round_def suspend_gate_def run_session_def session_def e
        session_state_new_def on_state_def back_off_def Let_def)
qed

lemma failing_rounds:
  "\<forall>r \<in> set rs. failing_round r \<Longrightarrow> \<not> rs_requested s \<Longrightarrow> rs_backoff s = min (BACKOFF_MIN * 2 ^ k) BACKOFF_MAX \<Longrightarrow>
     \<exists>s'. run C ctx rs s = (RunNext, s') \<and> length (rs_dials s') = length (rs_dials s) + length rs
       \<and> map (\<lambda>w. snd w - fst w) (rs_waits s') = map (\<lambda>w. snd w - fst w) (rs_waits s)
           @ map (\<lambda>i. min (BACKOFF_MIN * 2 ^ i) BACKOFF_MAX) [k..<k + length rs]"
proof (induction rs arbitrary: s k)
  case (Cons r rs)
  obtain s1 where s1: "run_round C ctx r s = (RunNext, s1)" "\<not> rs_requested s1"
    "rs_backoff s1 = min (rs_backoff s * 2) BACKOFF_MAX"
    "rs_waits s1 = rs_waits s @ [(rd_ended r, rd_ended r + rs_backoff s)]" "rs_dials s1 = rs_dials s @ [[]]"
    using failing_round_step [of r s C ctx] Cons.prems by auto
  have "rs_backoff s1 = min (BACKOFF_MIN * 2 ^ Suc k) BACKOFF_MAX"
    using s1(3) Cons.prems(3) by (simp add: min_def)
  from Cons.IH [OF _ s1(2) this] Cons.prems(1) obtain s' where
    s': "run C ctx rs s1 = (RunNext, s')" "length (rs_dials s') = length (rs_dials s1) + length rs"
      "map (\<lambda>w. snd w - fst w) (rs_waits s') = map (\<lambda>w. snd w - fst w) (rs_waits s1)
           @ map (\<lambda>i. min (BACKOFF_MIN * 2 ^ i) BACKOFF_MAX) [Suc k..<Suc k + length rs]" by auto
  show ?case
    using s1 s' Cons.prems(3) by (simp add: upt_conv_Cons del: upt_Suc)
qed simp

text \<open>
  A round whose dial fails reads no command and hands nothing to the LAN: only a session does. What
  was held back stays held back.
\<close>

lemma wait_keeps_pending: "\<exists>more. snd (wait_while_relay_suspended evs pending) = pending @ more"
  by (induction evs pending rule: wait_while_relay_suspended.induct)
    (fastforce split: suspend_event.split option.split cmd.split)+

lemma suspend_gate_output:
  "suspend_gate r s = (status, s') \<Longrightarrow> rs_broadcast s' = rs_broadcast s \<and> (\<exists>more. rs_pending s' = rs_pending s @ more)"
  using wait_keeps_pending [of "rd_suspend r" "rs_pending s"]
  by (auto simp: suspend_gate_def on_state_def Let_def case_prod_unfold split: if_splits option.splits suspend_wait.splits)

lemma back_off_output [simp]:
  "rs_broadcast (back_off r s) = rs_broadcast s" "rs_dials (back_off r s) = rs_dials s" "rs_pending (back_off r s) = rs_pending s"
  by (simp_all add: back_off_def Let_def case_prod_unfold)

lemma unreachable_session:
  assumes "rd_connect r \<noteq> ConnectOk"
  shows "\<exists>e s'. run_session C ctx r s = (Some (Inl e), s') \<and> rs_broadcast s' = rs_broadcast s
    \<and> rs_dials s' = rs_dials s @ [[]] \<and> rs_pending s' = rs_pending s"
  using assms
  by (cases "rd_connect r") (simp_all add: run_session_def session_def session_state_new_def on_state_def Let_def)

lemma unreachable_round:
  assumes "rd_connect r \<noteq> ConnectOk" and round: "run_round C ctx r s = (status, s')"
  shows "rs_broadcast s' = rs_broadcast s \<and> concat (rs_dials s') = concat (rs_dials s)
    \<and> (\<exists>more. rs_pending s' = rs_pending s @ more)"
proof -
  obtain g s1 where gate: "suspend_gate r s = (g, s1)" by fastforce
  note g = suspend_gate_output [OF gate] suspend_gate_state [OF gate]
  obtain e s2 where sess: "run_session C ctx r s1 = (Some (Inl e), s2)" "rs_broadcast s2 = rs_broadcast s1"
    "rs_dials s2 = rs_dials s1 @ [[]]" "rs_pending s2 = rs_pending s1"
    using unreachable_session [OF assms(1)] by blast
  show ?thesis
    using g sess round by (cases g) (auto simp: run_round_def gate on_state_def Let_def split: if_splits)
qed

lemma unreachable_run:
  "\<forall>r \<in> set rs. rd_connect r \<noteq> ConnectOk \<Longrightarrow> run C ctx rs s = (status, s') \<Longrightarrow>
     rs_broadcast s' = rs_broadcast s \<and> concat (rs_dials s') = concat (rs_dials s)
     \<and> (\<exists>more. rs_pending s' = rs_pending s @ more)"
proof (induction rs arbitrary: s)
  case (Cons r rs)
  obtain g s1 where round: "run_round C ctx r s = (g, s1)" by fastforce
  note r = unreachable_round [OF _ round]
  show ?case
  proof (cases "g = RunNext")
    case True
    then have "rs_broadcast s' = rs_broadcast s1 \<and> concat (rs_dials s') = concat (rs_dials s1)
      \<and> (\<exists>more. rs_pending s' = rs_pending s1 @ more)"
      using Cons.IH [of s1] Cons.prems round by simp
    with r Cons.prems(1) show ?thesis by auto
  next
    case False
    then have "s' = s1" using Cons.prems(2) round by (cases g) auto
    with r Cons.prems(1) show ?thesis by simp
  qed
qed simp

section \<open>The properties\<close>

text \<open>
  C24: The worker backs off exponentially and never for long. Over any rounds the backoff stays
  between one and thirty seconds and no sleep lasts longer; and a streak of failing dials with
  nobody intervening dials once per round and sleeps 1, 2, 4, 8, 16 and then 30 seconds each. As
  long as no dial succeeds, whatever else happens, nothing is sent: not to the relay, and not to
  the LAN peers either, because only a session reads the commands.
\<close>

theorem backoff_spec:
  shows "let s' = snd (run C ctx rs run_init)
     in BACKOFF_MIN \<le> rs_backoff s' \<and> rs_backoff s' \<le> BACKOFF_MAX
        \<and> (\<forall>w \<in> set (rs_waits s'). snd w \<le> fst w + BACKOFF_MAX)
        \<and> ((\<forall>r \<in> set rs. failing_round r) \<longrightarrow>
             length (rs_dials s') = length rs
             \<and> map (\<lambda>w. snd w - fst w) (rs_waits s') =
                 map (\<lambda>i. min (BACKOFF_MIN * 2 ^ i) BACKOFF_MAX) [0..<length rs])
        \<and> ((\<forall>r \<in> set rs. rd_connect r \<noteq> ConnectOk) \<longrightarrow> rs_broadcast s' = [] \<and> concat (rs_dials s') = [])"
proof -
  obtain status s' where run: "run C ctx rs run_init = (status, s')" by fastforce
  have "backoff_inv run_init" by (simp add: backoff_inv_def run_init_def backoff_consts)
  then have "backoff_inv s'" using run by (rule run_backoff_inv)
  moreover have "rs_backoff run_init = min (BACKOFF_MIN * 2 ^ 0) BACKOFF_MAX" "\<not> rs_requested run_init"
    by (simp_all add: run_init_def backoff_consts)
  moreover have "(\<forall>r \<in> set rs. rd_connect r \<noteq> ConnectOk) \<longrightarrow> rs_broadcast s' = [] \<and> concat (rs_dials s') = []"
    using unreachable_run [OF _ run] by (auto simp: run_init_def)
  ultimately show ?thesis
    using failing_rounds [of rs run_init 0 C ctx] run
    by (auto simp: Let_def backoff_inv_def run_init_def)
qed

definition demo_round :: round where
  "demo_round = \<lparr>rd_idle = False, rd_suspend = [], rd_started = 0, rd_connect = ConnectError [], rd_env = demo_env 0,
     rd_evs = [], rd_send_error = (\<lambda>n. None), rd_nonce = (\<lambda>n. []), rd_ended = 1, rd_idle_after = False,
     rd_requested = False, rd_wakes = []\<rparr>"

theorem backoff_spec_witness:
  "map (\<lambda>w. snd w - fst w) (rs_waits (snd (run demo_client_codec demo_ctx (replicate 6 demo_round) run_init))) =
     [1000, 2000, 4000, 8000, 16000, 30000]"
  using backoff_spec [of demo_client_codec demo_ctx "replicate 6 demo_round"]
  by (simp add: Let_def failing_round_def demo_round_def backoff_consts upt_rec)

text \<open>The commands the wait puts aside, in order.\<close>

definition held_back :: "(bool \<times> suspend_event) list \<Rightarrow> cmd list" where
  "held_back evs = List.map_filter (\<lambda>e. case snd e of SuCmd c \<Rightarrow> c | _ \<Rightarrow> None) evs"

lemma held_back_simps [simp]:
  "held_back [] = []"
  "held_back ((idle, SuCmd (Some c)) # evs) = c # held_back evs"
  "held_back ((idle, SuCmd None) # evs) = held_back evs"
  "held_back ((idle, SuNotified b) # evs) = held_back evs"
  by (simp_all add: held_back_def map_filter_simps)

text \<open>What ends the wait: leaving standby, or the stop command or the closed channel.\<close>

definition resumes :: "bool \<times> suspend_event \<Rightarrow> bool" where
  "resumes e \<longleftrightarrow> \<not> fst e \<or> snd e = SuNotified False"

definition quiet :: "bool \<times> suspend_event \<Rightarrow> bool" where
  "quiet e \<longleftrightarrow> \<not> resumes e \<and> snd e \<noteq> SuCmd None \<and> snd e \<noteq> SuCmd (Some CmdStop)"

lemma wait_eq:
  "wait_while_relay_suspended evs pending =
     (case dropWhile quiet evs of
        [] \<Rightarrow> None
      | e # _ \<Rightarrow> Some (if resumes e then SuspendResume else SuspendStop),
      pending @ held_back (takeWhile quiet evs))"
proof (induction evs pending rule: wait_while_relay_suspended.induct)
  case (2 idle ev evs pending)
  show ?case
  proof (cases idle)
    case True
    show ?thesis
    proof (cases ev)
      case (SuCmd c)
      then show ?thesis
        using "2.IH" True
        by (cases c; cases "the c") (simp_all add: quiet_def resumes_def)
    next
      case (SuNotified b)
      then show ?thesis using "2.IH" True by (cases b) (simp_all add: quiet_def resumes_def)
    qed
  qed (simp add: quiet_def resumes_def)
qed simp

text \<open>
  Standby stops the relay and keeps the commands. In a round that starts in standby the worker
  dials nothing until standby is left; it puts the commands that come before that behind the ones
  already held back, in order; a stop command or a closed channel ends the worker without a dial;
  and if neither happens it goes on waiting.
\<close>

theorem suspended_round_spec:
  assumes idle: "rd_idle r"
  shows "let before = takeWhile quiet (rd_suspend r);
             (status, s') = suspend_gate r s
         in rs_pending s' = rs_pending s @ held_back before
            \<and> CmdStop \<notin> set (held_back before)
            \<and> rs_dials s' = rs_dials s
            \<and> (case dropWhile quiet (rd_suspend r) of
                 [] \<Rightarrow> run_round C ctx r s = (RunBusy, s')
               | e # _ \<Rightarrow>
                   if resumes e then status = RunNext \<and> rs_backoff s' = BACKOFF_MIN
                   else run_round C ctx r s = (RunStopped, s'))"
proof -
  have "CmdStop \<notin> set (held_back evs)" if "\<forall>e \<in> set evs. quiet e" for evs
    using that
  proof (induction evs)
    case (Cons e evs)
    then show ?case
      by (cases e; cases "snd e"; cases "case snd e of SuCmd c \<Rightarrow> c | _ \<Rightarrow> None") (auto simp: quiet_def)
  qed simp
  then have "CmdStop \<notin> set (held_back (takeWhile quiet (rd_suspend r)))"
    by (meson set_takeWhileD)
  then show ?thesis
    using idle
    by (cases "dropWhile quiet (rd_suspend r)")
      (simp_all add: suspend_gate_def run_round_def wait_eq on_state_def Let_def del: dropWhile_eq_Nil_conv)
qed

theorem suspended_round_spec_witness:
  "let r = demo_round\<lparr>rd_idle := True, rd_suspend := [(True, SuCmd (Some CmdFetchRecent)), (True, SuCmd (Some CmdStop))]\<rparr>
   in rs_pending (snd (suspend_gate r run_init)) = [CmdFetchRecent] \<and> rs_dials (snd (suspend_gate r run_init)) = []"
  using suspended_round_spec [of "demo_round\<lparr>rd_idle := True,
      rd_suspend := [(True, SuCmd (Some CmdFetchRecent)), (True, SuCmd (Some CmdStop))]\<rparr>" run_init]
  by (simp add: Let_def case_prod_unfold quiet_def resumes_def run_init_def)

section \<open>Delivery over both transports\<close>

definition arrival_key :: "arrival \<Rightarrow> str \<times> nat" where
  "arrival_key a = (case a of ViaRelay c \<Rightarrow> (rc_sender c, rc_ts c) | ViaLan c \<Rightarrow> (il_sender c, il_ts c))"

definition arrival_clip :: "client_codec \<Rightarrow> session_ctx \<Rightarrow> arrival \<Rightarrow> clip_payload option" where
  "arrival_clip C ctx a = (case a of ViaRelay c \<Rightarrow> open_clip C ctx c | ViaLan c \<Rightarrow> Some (il_payload c))"

lemma arrive_eq:
  "arrive C ctx (now, a) st =
     (if fst (arrival_key a) = sc_device_id ctx then st
      else st\<lparr>ss_dedup := snd (dedup_insert now (fst (arrival_key a)) (snd (arrival_key a)) (ss_dedup st)),
              ss_events := ss_events st
                @ (if fst (dedup_insert now (fst (arrival_key a)) (snd (arrival_key a)) (ss_dedup st))
                   then map OnClip (case arrival_clip C ctx a of Some p \<Rightarrow> [p] | None \<Rightarrow> []) else [])\<rparr>)"
  by (cases a) (simp_all add: deliver_clip_eq drain_lan_clip_def arrival_key_def arrival_clip_def emit_def
      case_prod_unfold Let_def)

definition foreign_arrivals :: "session_ctx \<Rightarrow> (nat \<times> arrival) list \<Rightarrow> (nat \<times> arrival) list" where
  "foreign_arrivals ctx as = filter (\<lambda>a. fst (arrival_key (snd a)) \<noteq> sc_device_id ctx) as"

definition accepted_arrivals :: "session_ctx \<Rightarrow> (nat \<times> arrival) list \<Rightarrow> dedup_cache \<Rightarrow> (nat \<times> arrival) list" where
  "accepted_arrivals ctx as d =
     map snd (filter fst (zip (fst (dedup_run (map (\<lambda>a. (fst a, arrival_key (snd a))) (foreign_arrivals ctx as)) d))
                              (foreign_arrivals ctx as)))"

lemma dedup_run_Cons:
  "fst (dedup_run (e # es) d) =
     fst (dedup_insert (fst e) (fst (snd e)) (snd (snd e)) d)
       # fst (dedup_run es (snd (dedup_insert (fst e) (fst (snd e)) (snd (snd e)) d)))"
  by (cases e) (simp add: case_prod_unfold Let_def)

lemma accepted_arrivals_Cons:
  "accepted_arrivals ctx (a # as) d =
     (if fst (arrival_key (snd a)) = sc_device_id ctx then accepted_arrivals ctx as d
      else let (r, d') = dedup_insert (fst a) (fst (arrival_key (snd a))) (snd (arrival_key (snd a))) d
           in (if r then [a] else []) @ accepted_arrivals ctx as d')"
  by (simp add: accepted_arrivals_def foreign_arrivals_def dedup_run_Cons case_prod_unfold Let_def)

lemma arrivals_events:
  "ss_events (fold (arrive C ctx) as st) = ss_events st
     @ map OnClip (List.map_filter (\<lambda>a. arrival_clip C ctx (snd a)) (accepted_arrivals ctx as (ss_dedup st)))"
proof (induction as arbitrary: st)
  case (Cons a as)
  obtain now x where a: "a = (now, x)" by (cases a)
  show ?case
    unfolding fold_simps Cons.IH a accepted_arrivals_Cons
    by (cases "arrival_clip C ctx x"; cases "fst (arrival_key x) = sc_device_id ctx";
        cases "fst (dedup_insert now (fst (arrival_key x)) (snd (arrival_key x)) (ss_dedup st))")
      (simp_all add: arrive_eq case_prod_unfold Let_def map_filter_simps)
qed (simp add: accepted_arrivals_def foreign_arrivals_def map_filter_simps)

lemma accepted_keys_arrivals:
  "map (\<lambda>a. arrival_key (snd a)) (accepted_arrivals ctx as d)
     = accepted_keys (map (\<lambda>a. (fst a, arrival_key (snd a))) (foreign_arrivals ctx as)) d"
proof -
  have "map (\<lambda>a. arrival_key (snd a)) (map snd (filter fst (zip bs as)))
      = map (\<lambda>e. snd (snd e)) (filter fst (zip bs (map (\<lambda>a. (fst a, arrival_key (snd a))) as)))"
    for bs :: "bool list" and as :: "(nat \<times> arrival) list"
  proof (induction bs arbitrary: as)
    case (Cons b bs)
    then show ?case by (cases as) simp_all
  qed simp
  then show ?thesis by (simp add: accepted_arrivals_def accepted_keys_def)
qed



end
