(* ===== verification/LanPeers.thy ===== *)
theory LanPeers
  imports Protocol Net "HOL-Library.Product_Lexorder"
begin

text \<open>
  How \<^verbatim>\<open>core/src/lan.rs\<close> learns whom to dial: the local networks, the order of the candidates, the
  maps of known peers and of peer addresses, the mDNS events and the relay's snapshots that feed
  them, and the records the user interface reads. The interfaces of the host are an argument.
\<close>

unbundle bit_operations_syntax

section \<open>Addresses\<close>

definition v6_link_local :: "128 word \<Rightarrow> bool" where
  "v6_link_local a \<longleftrightarrow> v6_octet 0 a = 0xfe \<and> v6_octet 1 a AND 0xc0 = 0x80"

fun is_unroutable :: "ip_addr \<Rightarrow> bool" where
  "is_unroutable (V6 a) = v6_link_local a"
| "is_unroutable (V4 a) = False"

fun is_advertisable_private :: "ip_addr \<Rightarrow> bool" where
  "is_advertisable_private (V4 a) = (v4_is_private a \<or> v4_is_link_local a)"
| "is_advertisable_private (V6 a) = (v6_octet 0 a AND 0xfe = 0xfc)"

text \<open>An interface as \<open>if_addrs::get_if_addrs\<close> lists it, and the networks the code keeps of them.\<close>

record iface =
  if_loopback :: bool
  if_ip :: ip_addr
  if_netmask :: ip_addr
  if_prefix_len :: nat

record local_network =
  ln_ip :: ip_addr
  ln_netmask :: ip_addr
  ln_prefix_len :: nat

definition local_private_networks :: "iface list option \<Rightarrow> local_network list" where
  "local_private_networks ifaces =
     (case ifaces of
        None \<Rightarrow> []
      | Some l \<Rightarrow>
          map (\<lambda>i. \<lparr>ln_ip = if_ip i, ln_netmask = if_netmask i, ln_prefix_len = if_prefix_len i\<rparr>)
            (filter (\<lambda>i. \<not> if_loopback i \<and> is_advertisable_private (if_ip i)) l))"

fun same_subnet :: "ip_addr \<Rightarrow> local_network \<Rightarrow> bool" where
  "same_subnet candidate loc =
     (case (candidate, ln_ip loc, ln_netmask loc) of
        (V4 c, V4 l, V4 m) \<Rightarrow> c AND m = l AND m
      | (V6 c, V6 l, V6 m) \<Rightarrow> c AND m = l AND m
      | _ \<Rightarrow> False)"

definition dial_rank :: "local_network list \<Rightarrow> socket_addr \<Rightarrow> nat \<times> nat" where
  "dial_rank nets sa =
     ((if list_ex (same_subnet (sock_ip sa)) nets then 0 else 1),
      (case sock_ip sa of V4 _ \<Rightarrow> 0 | V6 _ \<Rightarrow> 1))"

text \<open>\<open>sort_by_key\<close> is stable, as \<open>sort_key\<close> is.\<close>

definition sort_candidates_for_dial :: "local_network list \<Rightarrow> socket_addr list \<Rightarrow> socket_addr list" where
  "sort_candidates_for_dial nets cands = sort_key (dial_rank nets) cands"

definition is_local_interface_candidate :: "local_network list \<Rightarrow> socket_addr \<Rightarrow> bool" where
  "is_local_interface_candidate nets sa \<longleftrightarrow> list_ex (\<lambda>l. sock_ip sa = ln_ip l) nets"

definition drop_local_interface_candidates :: "local_network list \<Rightarrow> socket_addr list \<Rightarrow> socket_addr list" where
  "drop_local_interface_candidates nets cands = filter (\<lambda>c. \<not> is_local_interface_candidate nets c) cands"

fun private_candidates_loop :: "16 word \<Rightarrow> str list \<Rightarrow> lan_candidate list \<Rightarrow> local_network list \<Rightarrow> lan_candidate list" where
  "private_candidates_loop port out cands [] = cands"
| "private_candidates_loop port out cands (loc # nets) =
     (let s = show_socket (sock_new (ln_ip loc) port)
      in if s \<in> set out then private_candidates_loop port out cands nets
         else private_candidates_loop port (out @ [s])
                (cands @ [\<lparr>lc_addr = s, lc_prefix_len = ln_prefix_len loc\<rparr>]) nets)"

definition local_private_candidate_networks :: "iface list option \<Rightarrow> 16 word \<Rightarrow> lan_candidate list" where
  "local_private_candidate_networks ifaces port =
     private_candidates_loop port [] [] (local_private_networks ifaces)"

definition local_private_candidates :: "iface list option \<Rightarrow> 16 word \<Rightarrow> str list" where
  "local_private_candidates ifaces port = map lc_addr (local_private_candidate_networks ifaces port)"

definition advertise_candidate_networks :: "iface list option \<Rightarrow> 16 word \<Rightarrow> lan_candidate list" where
  "advertise_candidate_networks ifaces port =
     (if port = 0 then [] else local_private_candidate_networks ifaces port)"

definition advertise_candidates :: "iface list option \<Rightarrow> 16 word \<Rightarrow> str list" where
  "advertise_candidates ifaces port = (if port = 0 then [] else local_private_candidates ifaces port)"

section \<open>Names\<close>

definition short_id :: "str \<Rightarrow> str" where
  "short_id device_id = map ascii_lower (take 12 (filter is_ascii_alphanumeric device_id))"

definition group_fingerprint :: "prims \<Rightarrow> str \<Rightarrow> str" where
  "group_fingerprint P group_id = hex_digest (take 8 (sha256 P (as_bytes group_id)))"

definition non_empty_display_name :: "str option \<Rightarrow> str option" where
  "non_empty_display_name v =
     (case v of
        None \<Rightarrow> None
      | Some s \<Rightarrow> (let trimmed = trim s in if trimmed \<noteq> [] then Some trimmed else None))"

section \<open>Peers\<close>

record peer_addr_entry =
  pa_device_id :: str
  pa_display_name :: "str option"
  pa_candidates :: "socket_addr list"

record known_peer =
  kp_peer_did :: str
  kp_candidates :: "socket_addr list"

record lan_peer_record =
  lr_device_id :: str
  lr_display_name :: str
  lr_candidate_count :: nat

text \<open>The registry of live sessions: session key to device id and name.\<close>

type_synonym peer_registry = "(str \<times> str \<times> str) list"
type_synonym peer_addrs = "(str \<times> peer_addr_entry) list"
type_synonym known_peers = "(str \<times> known_peer) list"

definition or_insert :: "'k \<Rightarrow> 'v \<Rightarrow> ('k \<times> 'v) list \<Rightarrow> ('k \<times> 'v) list" where
  "or_insert k v m = (if map_of m k = None then m @ [(k, v)] else m)"

definition U32_MAX :: nat where "U32_MAX = 2 ^ 32 - 1"

definition registry_names :: "peer_registry \<Rightarrow> (str \<times> str) list" where
  "registry_names peers = fold (\<lambda>e. or_insert (fst (snd e)) (snd (snd e))) (sort_key fst peers) []"

definition count_device :: "(str \<times> str) list \<Rightarrow> str \<times> peer_addr_entry \<Rightarrow> (str \<times> str \<times> nat) list \<Rightarrow> (str \<times> str \<times> nat) list" where
  "count_device names e m =
     (let did = pa_device_id (snd e);
          display_name =
            (case map_of names did of
               Some n \<Rightarrow> n
             | None \<Rightarrow> (case non_empty_display_name (pa_display_name (snd e)) of
                  Some n \<Rightarrow> n | None \<Rightarrow> short_id did));
          m = or_insert did (display_name, 0) m
      in case map_of m did of
           Some (name, n) \<Rightarrow>
             AList.update did (name, min U32_MAX (n + length (pa_candidates (snd e)) mod 2 ^ 32)) m
         | None \<Rightarrow> m)"

definition peer_records :: "peer_registry \<Rightarrow> peer_addrs \<Rightarrow> lan_peer_record list" where
  "peer_records peers addrs =
     (let names = registry_names peers;
          by_device = fold (count_device names) addrs [];
          by_device = fold (\<lambda>(did, name). or_insert did (name, 0)) names by_device
      in sort_key (\<lambda>r. (lr_display_name r, lr_device_id r))
           (map (\<lambda>(did, name, n). \<lparr>lr_device_id = did, lr_display_name = name, lr_candidate_count = n\<rparr>) by_device))"

definition candidates_for_peer :: "peer_addrs \<Rightarrow> str \<Rightarrow> socket_addr list" where
  "candidates_for_peer addrs device_id =
     fold (\<lambda>e out. if pa_device_id (snd e) = device_id
                     then fold (\<lambda>c out. if c \<in> set out then out else out @ [c]) (pa_candidates (snd e)) out
                     else out) addrs []"

fun unique_names_loop :: "str list \<Rightarrow> str list \<Rightarrow> peer_registry \<Rightarrow> str list" where
  "unique_names_loop seen out [] = out"
| "unique_names_loop seen out ((k, did, name) # reg) =
     (if did \<in> set seen then unique_names_loop seen out reg
      else unique_names_loop (did # seen) (out @ [name]) reg)"

definition unique_peer_names :: "peer_registry \<Rightarrow> str list" where
  "unique_peer_names reg = unique_names_loop [] [] reg"

section \<open>The relay's snapshots\<close>

abbreviation relay_key :: "str \<Rightarrow> str" where
  "relay_key did \<equiv> lit ''relay:'' @ did"

definition parse_candidates :: "str list \<Rightarrow> socket_addr list" where
  "parse_candidates cs =
     fold (\<lambda>s cands. case parse_socket s of
              Some sa \<Rightarrow> if \<not> is_unroutable (sock_ip sa) \<and> sa \<notin> set cands then cands @ [sa] else cands
            | None \<Rightarrow> cands) cs []"

fun desired_peers :: "str \<Rightarrow> local_network list \<Rightarrow> lan_peer list \<Rightarrow> (str \<times> str option \<times> socket_addr list) list" where
  "desired_peers self nets [] = []"
| "desired_peers self nets (p # ps) =
     (if lp_device_id p = self then desired_peers self nets ps
      else
        (let cands = sort_candidates_for_dial nets
                       (drop_local_interface_candidates nets (parse_candidates (lp_candidates p)))
         in (if cands \<noteq> []
             then [(lp_device_id p, non_empty_display_name (Some (lp_device_name p)), cands)] else [])
            @ desired_peers self nets ps))"

definition mdns_dids :: "known_peers \<Rightarrow> str list" where
  "mdns_dids known = map (\<lambda>e. kp_peer_did (snd e)) known"

definition apply_relay_snapshot_with_local_networks ::
  "str \<Rightarrow> lan_peer list \<Rightarrow> peer_addrs \<Rightarrow> known_peers \<Rightarrow> local_network list \<Rightarrow> peer_addrs \<times> known_peers" where
  "apply_relay_snapshot_with_local_networks self peers addrs known nets =
     (let desired = desired_peers self nets peers;
          addrs = retain_keys (\<lambda>k. \<not> starts_with (lit ''relay:'') k) addrs;
          addrs = fold (\<lambda>(did, name, cands).
                     AList.update (relay_key did)
                       \<lparr>pa_device_id = did, pa_display_name = name, pa_candidates = cands\<rparr>) desired addrs;
          known = retain_keys (\<lambda>k. \<not> starts_with (lit ''relay:'') k) known;
          covered = mdns_dids known;
          known = fold (\<lambda>(did, name, cands) known.
                     if self \<le> did then known
                     else if did \<in> set covered then known
                     else AList.update (relay_key did) \<lparr>kp_peer_did = did, kp_candidates = cands\<rparr> known) desired known
      in (addrs, known))"

definition apply_relay_snapshot ::
  "iface list option \<Rightarrow> str \<Rightarrow> lan_peer list \<Rightarrow> peer_addrs \<Rightarrow> known_peers \<Rightarrow> peer_addrs \<times> known_peers" where
  "apply_relay_snapshot ifaces self peers addrs known =
     apply_relay_snapshot_with_local_networks self peers addrs known (local_private_networks ifaces)"

section \<open>mDNS events\<close>

record resolved_service =
  rs_gid :: "str option"
  rs_did :: "str option"
  rs_port :: "16 word"
  rs_addresses :: "ip_addr list"
  rs_fullname :: str

datatype service_event = ServiceResolved resolved_service | ServiceRemoved str | OtherServiceEvent

definition unwrap_or_empty :: "str option \<Rightarrow> str" where
  "unwrap_or_empty s = (case s of Some x \<Rightarrow> x | None \<Rightarrow> [])"

definition discover_event ::
  "str \<Rightarrow> str \<Rightarrow> iface list option \<Rightarrow> service_event \<Rightarrow> peer_addrs \<times> known_peers \<Rightarrow> peer_addrs \<times> known_peers" where
  "discover_event self fingerprint ifaces ev maps =
     (case (ev, maps) of
        (ServiceResolved info, (addrs, known)) \<Rightarrow>
          (let peer_did = unwrap_or_empty (rs_did info);
               nets = local_private_networks ifaces;
               candidates = sort_candidates_for_dial nets
                 (drop_local_interface_candidates nets
                   (map (\<lambda>a. sock_new a (rs_port info))
                     (filter (\<lambda>a. \<not> is_unroutable a) (rs_addresses info))))
           in if unwrap_or_empty (rs_gid info) \<noteq> fingerprint then maps
              else if peer_did = [] then maps
              else if candidates = [] then maps
              else
                (let addrs = AList.update (rs_fullname info)
                       \<lparr>pa_device_id = peer_did, pa_display_name = None, pa_candidates = candidates\<rparr> addrs
                 in if self \<le> peer_did then (addrs, known)
                    else (addrs, AList.update (rs_fullname info)
                            \<lparr>kp_peer_did = peer_did, kp_candidates = candidates\<rparr> known)))
      | (ServiceRemoved fullname, (addrs, known)) \<Rightarrow>
          (AList.delete fullname addrs, AList.delete fullname known)
      | (OtherServiceEvent, _) \<Rightarrow> maps)"

section \<open>Facts about dial candidates\<close>

lemma set_sort_candidates [simp]: "set (sort_candidates_for_dial nets cs) = set cs"
  by (simp add: sort_candidates_for_dial_def)

lemma sort_candidates_nil [simp]: "sort_candidates_for_dial nets cs = [] \<longleftrightarrow> cs = []"
  using set_sort_candidates [of nets cs] by (metis set_empty)

lemma parse_candidates_set:
  "set (parse_candidates cs) = {sa. \<exists>s \<in> set cs. parse_socket s = Some sa \<and> \<not> is_unroutable (sock_ip sa)}
   \<and> distinct (parse_candidates cs)"
proof (induction cs rule: rev_induct)
  case (snoc s cs)
  then show ?case by (auto simp: parse_candidates_def split: option.splits)
qed (simp add: parse_candidates_def)

text \<open>A candidate list the code may dial: there is one, and none is link-local IPv6.\<close>

definition dialable :: "socket_addr list \<Rightarrow> bool" where
  "dialable cs \<longleftrightarrow> cs \<noteq> [] \<and> (\<forall>c \<in> set cs. \<not> is_unroutable (sock_ip c))"

lemma desired_dialable: "(did, name, cands) \<in> set (desired_peers self nets ps) \<Longrightarrow> did \<noteq> self \<and> dialable cands"
  by (induction ps) (auto simp: Let_def dialable_def drop_local_interface_candidates_def parse_candidates_set
      split: if_splits)

lemma sorted_filter_const: "sorted (map f (filter (\<lambda>c. f c = (r :: 'a :: linorder)) xs))"
  by (induction xs) auto

text \<open>
  The order of dialling. Sorting keeps exactly the candidates; those on a subnet of this host
  come before the others, IPv4 before IPv6 within each of the two, and the order given is kept
  within each of the four classes.
\<close>

theorem dial_order_spec:
  "let s = sort_candidates_for_dial nets cands
   in mset s = mset cands
      \<and> s = concat (map (\<lambda>rank. filter (\<lambda>c. dial_rank nets c = rank) cands) [(0, 0), (0, 1), (1, 0), (1, 1)])"
proof -
  have ranks: "dial_rank nets c \<in> set [(0, 0), (0, 1), (1, 0), (1, 1)]" for c
    by (cases "sock_ip c") (simp_all add: dial_rank_def)
  have "sort_key (dial_rank nets) cands =
      concat (map (\<lambda>rank. filter (\<lambda>c. dial_rank nets c = rank) cands) [(0, 0), (0, 1), (1, 0), (1, 1)])"
  proof (rule properties_for_sort_key)
    show "mset (concat (map (\<lambda>rank. filter (\<lambda>c. dial_rank nets c = rank) cands) [(0, 0), (0, 1), (1, 0), (1, 1)])) = mset cands"
    proof (induction cands)
      case (Cons c cs)
      then show ?case using ranks [of c] by auto
    qed simp
    show "filter (\<lambda>y. dial_rank nets x = dial_rank nets y)
        (concat (map (\<lambda>rank. filter (\<lambda>c. dial_rank nets c = rank) cands) [(0, 0), (0, 1), (1, 0), (1, 1)]))
      = filter (\<lambda>y. dial_rank nets x = dial_rank nets y) cands" for x
      using ranks [of x] by (auto simp: conj_commute cong: conj_cong intro!: filter_cong)
    show "sorted (map (dial_rank nets)
        (concat (map (\<lambda>rank. filter (\<lambda>c. dial_rank nets c = rank) cands) [(0, 0), (0, 1), (1, 0), (1, 1)])))"
      by (auto simp: sorted_append sorted_filter_const)
  qed
  then show ?thesis
    unfolding sort_candidates_for_dial_def Let_def by (intro conjI mset_sort)
qed

section \<open>Facts about the maps\<close>

lemma map_of_fold_update:
  "map_of (fold (\<lambda>x. AList.update (f x) (g x)) xs m) k =
     (case map_of (rev (map (\<lambda>x. (f x, g x)) xs)) k of Some v \<Rightarrow> Some v | None \<Rightarrow> map_of m k)"
proof (induction xs arbitrary: m)
  case (Cons x xs)
  show ?case
    by (simp add: Cons.IH update_conv' map_add_def split: option.splits)
qed simp

lemma wf_fold_update: "wf_map m \<Longrightarrow> wf_map (fold (\<lambda>x. AList.update (f x) (g x)) xs m)"
  by (induction xs arbitrary: m) auto

lemma keys_fold_update: "set (keys (fold (\<lambda>x. AList.update (f x) (g x)) xs m)) = set (keys m) \<union> f ` set xs"
proof (induction xs arbitrary: m)
  case (Cons x xs)
  show ?case unfolding fold_simps Cons.IH set_keys_update by auto
qed simp

lemma fold_if: "fold (\<lambda>x m. if P x then f x m else m) xs m = fold f (filter P xs) m"
  by (induction xs arbitrary: m) auto

definition addr_of_desired :: "str \<times> str option \<times> socket_addr list \<Rightarrow> peer_addr_entry" where
  "addr_of_desired d = \<lparr>pa_device_id = fst d, pa_display_name = fst (snd d), pa_candidates = snd (snd d)\<rparr>"

definition known_of_desired :: "str \<times> str option \<times> socket_addr list \<Rightarrow> known_peer" where
  "known_of_desired d = \<lparr>kp_peer_did = fst d, kp_candidates = snd (snd d)\<rparr>"

definition mdns_known :: "known_peers \<Rightarrow> known_peers" where
  "mdns_known known = retain_keys (\<lambda>k. \<not> starts_with (lit ''relay:'') k) known"

lemma snapshot_eq:
  "apply_relay_snapshot_with_local_networks self peers addrs known nets =
     (fold (\<lambda>d. AList.update (relay_key (fst d)) (addr_of_desired d)) (desired_peers self nets peers)
        (retain_keys (\<lambda>k. \<not> starts_with (lit ''relay:'') k) addrs),
      fold (\<lambda>d. AList.update (relay_key (fst d)) (known_of_desired d))
        (filter (\<lambda>d. fst d < self \<and> fst d \<notin> set (mdns_dids (mdns_known known))) (desired_peers self nets peers))
        (mdns_known known))"
proof -
  have "(\<lambda>(did, name, cands) known. if self \<le> did then known else if did \<in> set covered then known
           else AList.update (relay_key did) \<lparr>kp_peer_did = did, kp_candidates = cands\<rparr> known)
      = (\<lambda>d m. if fst d < self \<and> fst d \<notin> set covered then AList.update (relay_key (fst d)) (known_of_desired d) m else m)"
    for covered
    by (auto simp: fun_eq_iff known_of_desired_def)
  moreover have "(\<lambda>(did, name, cands). AList.update (relay_key did)
        \<lparr>pa_device_id = did, pa_display_name = name, pa_candidates = cands\<rparr>)
      = (\<lambda>d. AList.update (relay_key (fst d)) (addr_of_desired d))"
    by (auto simp: fun_eq_iff addr_of_desired_def)
  ultimately show ?thesis
    unfolding apply_relay_snapshot_with_local_networks_def Let_def mdns_known_def by (simp only: fold_if)
qed

lemma strip_prefix_append [simp]: "strip_prefix p (p @ s) = Some s"
  by simp

lemma map_of_relay_keys:
  "map_of (rev (map (\<lambda>d. (relay_key (fst d), g d)) ds)) k =
     (case strip_prefix (lit ''relay:'') k of
        None \<Rightarrow> None
      | Some did \<Rightarrow> map_of (rev (map (\<lambda>d. (fst d, g d)) ds)) did)"
proof -
  have "map_of (map (\<lambda>d. (relay_key (fst d), g d)) es) k =
     (case strip_prefix (lit ''relay:'') k of
        None \<Rightarrow> None | Some did \<Rightarrow> map_of (map (\<lambda>d. (fst d, g d)) es) did)" for es
  proof (induction es)
    case (Cons d es)
    show ?case
    proof (cases "\<exists>did. k = relay_key did")
      case True
      then obtain did where "k = relay_key did" by blast
      with Cons show ?thesis by simp
    next
      case False
      then have "strip_prefix (lit ''relay:'') k = None" by (auto simp: strip_prefix_None starts_with_iff)
      with Cons False show ?thesis by auto
    qed
  qed (simp split: option.splits)
  then show ?thesis unfolding rev_map .
qed

lemma map_of_not_relay: "map_of (retain_keys (\<lambda>k. \<not> starts_with (lit ''relay:'') k) m) k =
    (if starts_with (lit ''relay:'') k then None else map_of m k)"
  by (simp add: map_of_retain_keys)

lemma map_of_mdns_known: "map_of (mdns_known m) k = (if starts_with (lit ''relay:'') k then None else map_of m k)"
  by (simp add: mdns_known_def map_of_not_relay)

text \<open>
  C27: A relay snapshot replaces what the relay said before, and nothing else. Keys outside the
  relay's name space keep their entries in both maps. Under the key of a device the addresses hold
  the last dialable mention of it in the snapshot, or nothing; the peers to connect to hold the same
  candidates, but only for devices with a smaller id that no mDNS entry covers.
\<close>

theorem relay_snapshot_spec:
  "let desired = desired_peers self nets peers;
       last_of = (\<lambda>did. map_of (rev (map (\<lambda>d. (fst d, snd d)) desired)) did);
       (addrs', known') = apply_relay_snapshot_with_local_networks self peers addrs known nets
   in (\<forall>k. map_of addrs' k = (case strip_prefix (lit ''relay:'') k of
              None \<Rightarrow> map_of addrs k
            | Some did \<Rightarrow> map_option (\<lambda>(name, cands).
                  \<lparr>pa_device_id = did, pa_display_name = name, pa_candidates = cands\<rparr>) (last_of did)))
      \<and> (\<forall>k. map_of known' k = (case strip_prefix (lit ''relay:'') k of
              None \<Rightarrow> map_of known k
            | Some did \<Rightarrow>
                if did < self \<and> did \<notin> set (mdns_dids (mdns_known known))
                then map_option (\<lambda>(name, cands). \<lparr>kp_peer_did = did, kp_candidates = cands\<rparr>) (last_of did)
                else None))"
proof -
  let ?ds = "desired_peers self nets peers"
  let ?P = "\<lambda>d :: str \<times> str option \<times> socket_addr list. fst d < self \<and> fst d \<notin> set (mdns_dids (mdns_known known))"
  have addr: "map_of (rev (map (\<lambda>d. (fst d, addr_of_desired d)) ds)) did =
      map_option (\<lambda>(name, cands). \<lparr>pa_device_id = did, pa_display_name = name, pa_candidates = cands\<rparr>)
        (map_of (rev (map (\<lambda>d. (fst d, snd d)) ds)) did)" for ds did
    by (induction ds rule: rev_induct) (auto simp: addr_of_desired_def)
  have known: "map_of (rev (map (\<lambda>d. (fst d, known_of_desired d)) (filter ?P ds))) did =
      (if did < self \<and> did \<notin> set (mdns_dids (mdns_known known))
       then map_option (\<lambda>(name, cands). \<lparr>kp_peer_did = did, kp_candidates = cands\<rparr>)
        (map_of (rev (map (\<lambda>d. (fst d, snd d)) ds)) did) else None)" for ds did
    by (induction ds rule: rev_induct) (auto simp: known_of_desired_def)
  obtain addrs' known' where maps: "apply_relay_snapshot_with_local_networks self peers addrs known nets = (addrs', known')"
    by fastforce
  have "map_of (fst (apply_relay_snapshot_with_local_networks self peers addrs known nets)) k =
      (case strip_prefix (lit ''relay:'') k of
              None \<Rightarrow> map_of addrs k
            | Some did \<Rightarrow> map_option (\<lambda>(name, cands).
                  \<lparr>pa_device_id = did, pa_display_name = name, pa_candidates = cands\<rparr>)
                (map_of (rev (map (\<lambda>d. (fst d, snd d)) ?ds)) did))" for k
    unfolding snapshot_eq fst_conv map_of_fold_update map_of_relay_keys addr map_of_not_relay
    by (cases "strip_prefix (lit ''relay:'') k") (auto simp: strip_prefix_None split: option.splits)
  moreover have "map_of (snd (apply_relay_snapshot_with_local_networks self peers addrs known nets)) k =
      (case strip_prefix (lit ''relay:'') k of
              None \<Rightarrow> map_of known k
            | Some did \<Rightarrow>
                if did < self \<and> did \<notin> set (mdns_dids (mdns_known known))
                then map_option (\<lambda>(name, cands). \<lparr>kp_peer_did = did, kp_candidates = cands\<rparr>)
                       (map_of (rev (map (\<lambda>d. (fst d, snd d)) ?ds)) did)
                else None)" for k
    unfolding snapshot_eq snd_conv map_of_fold_update map_of_relay_keys known map_of_mdns_known
    by (cases "strip_prefix (lit ''relay:'') k") (auto simp: strip_prefix_None split: option.splits)
  ultimately show ?thesis unfolding maps Let_def prod.case fst_conv snd_conv by (intro conjI allI)
qed

section \<open>The invariant of the two maps\<close>

text \<open>
  Whoever this device would connect to has a smaller id, so never itself, is in the address map
  too, and has candidates, none of them link-local IPv6.
\<close>

definition maps_inv :: "str \<Rightarrow> peer_addrs \<times> known_peers \<Rightarrow> bool" where
  "maps_inv self maps \<longleftrightarrow>
     wf_map (fst maps) \<and> wf_map (snd maps)
     \<and> set (keys (snd maps)) \<subseteq> set (keys (fst maps))
     \<and> (\<forall>e \<in> set (fst maps). dialable (pa_candidates (snd e)))
     \<and> (\<forall>e \<in> set (snd maps). kp_peer_did (snd e) < self \<and> dialable (kp_candidates (snd e)))"

datatype map_event = FromMdns "iface list option" service_event | FromRelay "iface list option" "lan_peer list"

definition maps_step :: "str \<Rightarrow> str \<Rightarrow> map_event \<Rightarrow> peer_addrs \<times> known_peers \<Rightarrow> peer_addrs \<times> known_peers" where
  "maps_step self fingerprint ev maps =
     (case ev of
        FromMdns ifaces e \<Rightarrow> discover_event self fingerprint ifaces e maps
      | FromRelay ifaces peers \<Rightarrow> apply_relay_snapshot ifaces self peers (fst maps) (snd maps))"

lemma update_ball: "\<forall>e \<in> set m. Q (snd e) \<Longrightarrow> Q v \<Longrightarrow> \<forall>e \<in> set (AList.update k v m). Q (snd e)"
  by (induction m) auto

lemma fold_update_ball:
  "\<forall>e \<in> set m. Q (snd e) \<Longrightarrow> \<forall>x \<in> set xs. Q (g x) \<Longrightarrow>
     \<forall>e \<in> set (fold (\<lambda>x. AList.update (f x) (g x)) xs m). Q (snd e)"
proof (induction xs arbitrary: m)
  case (Cons x xs)
  have "\<forall>e \<in> set (AList.update (f x) (g x) m). Q (snd e)"
    using Cons.prems(1) by (rule update_ball) (simp add: Cons.prems(2))
  with Cons.prems(2) show ?case unfolding fold_simps by (intro Cons.IH) simp_all
qed simp

lemma maps_inv_resolved:
  assumes inv: "maps_inv self (addrs, known)" and d: "dialable cands"
  shows "maps_inv self (AList.update k \<lparr>pa_device_id = did, pa_display_name = n, pa_candidates = cands\<rparr> addrs, known)"
    and "did < self \<Longrightarrow> maps_inv self
       (AList.update k \<lparr>pa_device_id = did, pa_display_name = n, pa_candidates = cands\<rparr> addrs,
        AList.update k \<lparr>kp_peer_did = did, kp_candidates = cands\<rparr> known)"
proof -
  have a: "\<forall>e \<in> set (AList.update k \<lparr>pa_device_id = did, pa_display_name = n, pa_candidates = cands\<rparr> addrs).
      dialable (pa_candidates (snd e))"
    using inv d by (intro update_ball) (auto simp: maps_inv_def)
  then show "maps_inv self (AList.update k \<lparr>pa_device_id = did, pa_display_name = n, pa_candidates = cands\<rparr> addrs, known)"
    using inv unfolding maps_inv_def fst_conv snd_conv set_keys_update by auto
  assume "did < self"
  then have "\<forall>e \<in> set (AList.update k \<lparr>kp_peer_did = did, kp_candidates = cands\<rparr> known).
      kp_peer_did (snd e) < self \<and> dialable (kp_candidates (snd e))"
    using inv d by (intro update_ball) (auto simp: maps_inv_def)
  then show "maps_inv self
       (AList.update k \<lparr>pa_device_id = did, pa_display_name = n, pa_candidates = cands\<rparr> addrs,
        AList.update k \<lparr>kp_peer_did = did, kp_candidates = cands\<rparr> known)"
    using inv a unfolding maps_inv_def fst_conv snd_conv set_keys_update by auto
qed

lemma in_set_delete: "e \<in> set (AList.delete k m) \<Longrightarrow> e \<in> set m"
  by (simp add: AList.delete_eq)

lemma set_keys_retain: "set (keys (retain_keys P m)) = {k \<in> set (keys m). P k}"
  by (auto simp: retain_keys_def image_iff)

lemma maps_inv_removed: "maps_inv self (addrs, known) \<Longrightarrow> maps_inv self (AList.delete k addrs, AList.delete k known)"
  unfolding maps_inv_def fst_conv snd_conv set_keys_delete by (auto dest: in_set_delete)

lemma maps_inv_snapshot:
  assumes inv: "maps_inv self (addrs, known)"
  shows "maps_inv self (apply_relay_snapshot_with_local_networks self peers addrs known nets)"
proof -
  let ?ds = "desired_peers self nets peers"
  have dial: "dialable (snd (snd d))" if "d \<in> set ?ds" for d
    using desired_dialable that by (metis prod.collapse)
  show ?thesis
    unfolding snapshot_eq maps_inv_def fst_conv snd_conv
  proof (intro conjI)
    show "wf_map (fold (\<lambda>d. AList.update (relay_key (fst d)) (addr_of_desired d)) ?ds
        (retain_keys (\<lambda>k. \<not> starts_with (lit ''relay:'') k) addrs))"
      using inv by (intro wf_fold_update wf_map_retain_keys) (simp add: maps_inv_def)
    show "wf_map (fold (\<lambda>d. AList.update (relay_key (fst d)) (known_of_desired d))
        (filter (\<lambda>d. fst d < self \<and> fst d \<notin> set (mdns_dids (mdns_known known))) ?ds) (mdns_known known))"
      unfolding mdns_known_def using inv by (intro wf_fold_update wf_map_retain_keys) (simp add: maps_inv_def)
    show "\<forall>e \<in> set (fold (\<lambda>d. AList.update (relay_key (fst d)) (addr_of_desired d)) ?ds
        (retain_keys (\<lambda>k. \<not> starts_with (lit ''relay:'') k) addrs)). dialable (pa_candidates (snd e))"
      using inv dial by (intro fold_update_ball) (auto simp: maps_inv_def retain_keys_def addr_of_desired_def)
    show "\<forall>e \<in> set (fold (\<lambda>d. AList.update (relay_key (fst d)) (known_of_desired d))
        (filter (\<lambda>d. fst d < self \<and> fst d \<notin> set (mdns_dids (mdns_known known))) ?ds) (mdns_known known)).
        kp_peer_did (snd e) < self \<and> dialable (kp_candidates (snd e))"
      using inv dial
      by (intro fold_update_ball) (auto simp: maps_inv_def mdns_known_def retain_keys_def known_of_desired_def)
    show "set (keys (fold (\<lambda>d. AList.update (relay_key (fst d)) (known_of_desired d))
        (filter (\<lambda>d. fst d < self \<and> fst d \<notin> set (mdns_dids (mdns_known known))) ?ds) (mdns_known known)))
      \<subseteq> set (keys (fold (\<lambda>d. AList.update (relay_key (fst d)) (addr_of_desired d)) ?ds
        (retain_keys (\<lambda>k. \<not> starts_with (lit ''relay:'') k) addrs)))"
      unfolding keys_fold_update mdns_known_def set_keys_retain using inv by (auto simp: maps_inv_def)
  qed
qed

lemma maps_step_inv: "maps_inv self maps \<Longrightarrow> maps_inv self (maps_step self fingerprint ev maps)"
proof -
  assume inv: "maps_inv self maps"
  obtain addrs known where maps: "maps = (addrs, known)" by fastforce
  show ?thesis
  proof (cases ev)
    case (FromRelay ifaces peers)
    then show ?thesis
      using inv by (simp add: maps maps_step_def apply_relay_snapshot_def maps_inv_snapshot)
  next
    case (FromMdns ifaces e)
    show ?thesis
    proof (cases e)
      case (ServiceResolved info)
      let ?cands = "sort_candidates_for_dial (local_private_networks ifaces)
         (drop_local_interface_candidates (local_private_networks ifaces)
            (map (\<lambda>a. sock_new a (rs_port info)) (filter (\<lambda>a. \<not> is_unroutable a) (rs_addresses info))))"
      have "dialable ?cands" if "?cands \<noteq> []"
        using that by (auto simp: dialable_def drop_local_interface_candidates_def)
      then show ?thesis
        using maps_inv_resolved [of self addrs known ?cands] inv
        by (auto simp: maps maps_step_def FromMdns ServiceResolved discover_event_def Let_def simp del: sort_candidates_nil)
    qed (use inv in \<open>auto simp: maps maps_step_def FromMdns discover_event_def maps_inv_removed\<close>)
  qed
qed

interpretation peer_maps: machine "maps_step self fingerprint" "maps_inv self" for self fingerprint
  by unfold_locales (rule maps_step_inv)

text \<open>
  Whom this device may connect to. After any sequence of mDNS events and relay snapshots, under
  whatever interfaces, every peer it would connect to has a smaller device id, so it never dials
  itself, is in the address map under the same key, and like every address entry has candidates, no
  link-local IPv6 among them; both maps hold each key once.
\<close>

theorem peer_maps_safe:
  "let (addrs, known) = fold (maps_step self fingerprint) evs ([], [])
   in distinct (keys addrs) \<and> distinct (keys known) \<and> set (keys known) \<subseteq> set (keys addrs)
      \<and> list_all (\<lambda>e. kp_peer_did (snd e) < self) known
      \<and> list_all dialable (map (\<lambda>e. pa_candidates (snd e)) addrs @ map (\<lambda>e. kp_candidates (snd e)) known)"
proof -
  have "maps_inv self ([], [])" by (simp add: maps_inv_def)
  note inv = peer_maps.run_inv [OF this, of fingerprint evs]
  obtain addrs known where run: "fold (maps_step self fingerprint) evs ([], []) = (addrs, known)" by fastforce
  show ?thesis
    using inv unfolding run Let_def prod.case maps_inv_def list_all_iff by auto
qed

lemma mdns_didsI: "map_of m k = Some v \<Longrightarrow> kp_peer_did v = did \<Longrightarrow> did \<in> set (mdns_dids m)"
  by (force simp: mdns_dids_def dest: map_of_SomeD)

lemma desired_known:
  assumes inv: "maps_inv self maps" and small: "did < self" and d: "did \<in> fst ` set (desired_peers self nets peers)"
  shows "did \<in> set (mdns_dids (snd (apply_relay_snapshot_with_local_networks self peers (fst maps) (snd maps) nets)))"
proof (cases "did \<in> set (mdns_dids (mdns_known (snd maps)))")
  case True
  then obtain k v where kv: "(k, v) \<in> set (mdns_known (snd maps))" "kp_peer_did v = did"
    by (auto simp: mdns_dids_def)
  have "wf_map (mdns_known (snd maps))"
    using inv unfolding maps_inv_def mdns_known_def by (intro wf_map_retain_keys) blast
  then have k: "map_of (mdns_known (snd maps)) k = Some v" using kv(1) by (rule map_of_is_SomeI)
  have "\<not> starts_with (lit ''relay:'') k" using kv(1) by (simp add: mdns_known_def retain_keys_def)
  then have "strip_prefix (lit ''relay:'') k = None" by (simp add: strip_prefix_None)
  then have "map_of (snd (apply_relay_snapshot_with_local_networks self peers (fst maps) (snd maps) nets)) k = Some v"
    unfolding snapshot_eq snd_conv map_of_fold_update map_of_relay_keys using k by simp
  then show ?thesis using kv(2) by (rule mdns_didsI)
next
  case False
  let ?ds = "filter (\<lambda>d. fst d < self \<and> fst d \<notin> set (mdns_dids (mdns_known (snd maps)))) (desired_peers self nets peers)"
  obtain x where x: "x \<in> set (desired_peers self nets peers)" "fst x = did" using d by blast
  then have "x \<in> set ?ds" using small False by simp
  then have "did \<in> fst ` set (map (\<lambda>d. (fst d, known_of_desired d)) ?ds)"
    unfolding set_map image_image fst_conv using x(2) by blast
  then obtain v where v: "map_of (rev (map (\<lambda>d. (fst d, known_of_desired d)) ?ds)) did = Some v"
    using map_of_eq_None_iff [of "rev (map (\<lambda>d. (fst d, known_of_desired d)) ?ds)" did]
    unfolding set_rev by (cases "map_of (rev (map (\<lambda>d. (fst d, known_of_desired d)) ?ds)) did") blast+
  from map_of_SomeD [OF this] have "(did, v) \<in> set (map (\<lambda>d. (fst d, known_of_desired d)) ?ds)"
    by (simp only: set_rev)
  then have "kp_peer_did v = did" by (auto simp: known_of_desired_def)
  moreover have "map_of (snd (apply_relay_snapshot_with_local_networks self peers (fst maps) (snd maps) nets)) (relay_key did) = Some v"
    unfolding snapshot_eq snd_conv map_of_fold_update map_of_relay_keys strip_prefix_append by (simp only: v option.case)
  ultimately show ?thesis by (blast intro: mdns_didsI)
qed

text \<open>
  C28: Of two devices that hear of each other exactly one connects. Whatever each learned before, once
  a relay snapshot gives each a dialable address of the other, exactly the device with the larger id
  has the other among the peers it connects to.
\<close>

theorem control_link_one_initiator:
  assumes hears: "b \<in> fst ` set (desired_peers a nets_a peers_a)" "a \<in> fst ` set (desired_peers b nets_b peers_b)"
    and A: "maps_a = fold (maps_step a fingerprint) evs_a ([], [])"
    and B: "maps_b = fold (maps_step b fingerprint) evs_b ([], [])"
  shows "(b \<in> set (mdns_dids (snd (apply_relay_snapshot_with_local_networks a peers_a (fst maps_a) (snd maps_a) nets_a)))
            \<longleftrightarrow> b < a)
       \<and> (a \<in> set (mdns_dids (snd (apply_relay_snapshot_with_local_networks b peers_b (fst maps_b) (snd maps_b) nets_b)))
            \<longleftrightarrow> a < b)"
proof -
  have one: "did \<in> set (mdns_dids (snd (apply_relay_snapshot_with_local_networks self peers (fst maps) (snd maps) nets)))
      \<longleftrightarrow> did < self"
    if "maps = fold (maps_step self fingerprint) evs ([], [])" "did \<in> fst ` set (desired_peers self nets peers)"
    for did self nets peers maps evs
  proof -
    have inv: "maps_inv self maps"
      unfolding that(1) by (rule peer_maps.run_inv) (simp add: maps_inv_def)
    then have "maps_inv self (apply_relay_snapshot_with_local_networks self peers (fst maps) (snd maps) nets)"
      by (intro maps_inv_snapshot) simp
    then show ?thesis using desired_known [OF inv _ that(2)] by (auto simp: maps_inv_def mdns_dids_def)
  qed
  show ?thesis using one [OF A hears(1)] one [OF B hears(2)] by simp
qed

definition demo_lan_peer :: "str \<Rightarrow> lan_peer" where
  "demo_lan_peer did = \<lparr>lp_device_id = did, lp_device_name = [], lp_candidates = [show_socket (SockV4 0 0)]\<rparr>"

lemma demo_desired: "did \<noteq> self \<Longrightarrow> did \<in> fst ` set (desired_peers self [] [demo_lan_peer did])"
  by (simp add: demo_lan_peer_def parse_candidates_def parse_show_socket_v4 drop_local_interface_candidates_def
      is_local_interface_candidate_def del: show_socket.simps)

theorem control_link_one_initiator_witness:
  "[98] \<notin> set (mdns_dids (snd (apply_relay_snapshot_with_local_networks [97] [demo_lan_peer [98]] [] [] [])))
   \<and> [97] \<in> set (mdns_dids (snd (apply_relay_snapshot_with_local_networks [98] [demo_lan_peer [97]] [] [] [])))"
  using control_link_one_initiator [where a = "[97]" and b = "[98]" and nets_a = "[]" and nets_b = "[]"
      and peers_a = "[demo_lan_peer [98]]" and peers_b = "[demo_lan_peer [97]]"
      and maps_a = "([], [])" and maps_b = "([], [])" and evs_a = "[]" and evs_b = "[]"]
    demo_desired [of "[98]" "[97]"] demo_desired [of "[97]" "[98]"]
  by (simp del: desired_peers.simps)

section \<open>The records of the user interface\<close>

definition device_load :: "peer_addrs \<Rightarrow> str \<Rightarrow> nat" where
  "device_load addrs did =
     min U32_MAX (\<Sum>e \<leftarrow> filter (\<lambda>e. pa_device_id (snd e) = did) addrs. length (pa_candidates (snd e)) mod 2 ^ 32)"

lemma device_load_none: "did \<notin> (\<lambda>e. pa_device_id (snd e)) ` set addrs \<Longrightarrow> device_load addrs did = 0"
proof -
  assume "did \<notin> (\<lambda>e. pa_device_id (snd e)) ` set addrs"
  then have "filter (\<lambda>e. pa_device_id (snd e) = did) addrs = []" by (auto simp: filter_empty_conv)
  then show ?thesis by (simp add: device_load_def)
qed

lemma map_of_or_insert: "map_of (or_insert k v m) k' = (if k' = k \<and> map_of m k = None then Some v else map_of m k')"
  by (auto simp: or_insert_def map_add_def split: option.splits)

lemma wf_or_insert: "wf_map m \<Longrightarrow> wf_map (or_insert k v m)"
  by (auto simp: or_insert_def map_of_eq_None_iff)

lemma keys_or_insert: "set (keys (or_insert k v m)) = insert k (set (keys m))"
  by (auto simp: or_insert_def map_of_eq_None_iff dest: map_of_SomeD)

lemma map_of_count_device:
  "map_option snd (map_of (count_device names e m) did) =
     (if did = pa_device_id (snd e)
      then Some (min U32_MAX ((case map_of m did of Some x \<Rightarrow> snd x | None \<Rightarrow> 0)
             + length (pa_candidates (snd e)) mod 2 ^ 32))
      else map_option snd (map_of m did))"
  by (cases "map_of m (pa_device_id (snd e))")
    (auto simp: count_device_def Let_def map_of_or_insert update_conv' split: option.splits prod.splits)

lemma wf_count_device: "wf_map m \<Longrightarrow> wf_map (count_device names e m)"
  unfolding count_device_def Let_def by (auto simp: wf_or_insert split: option.splits prod.splits)

lemma count_devices:
  "map_option snd (map_of (fold (count_device names) addrs []) did) =
     (if did \<in> (\<lambda>e. pa_device_id (snd e)) ` set addrs then Some (device_load addrs did) else None)
   \<and> wf_map (fold (count_device names) addrs [])"
proof (induction addrs rule: rev_induct)
  case (snoc e addrs)
  let ?m = "fold (count_device names) addrs []"
  have load: "device_load (addrs @ [e]) did =
      (if did = pa_device_id (snd e) then min U32_MAX (device_load addrs did + length (pa_candidates (snd e)) mod 2 ^ 32)
       else device_load addrs did)"
    by (simp add: device_load_def min_def)
  have val: "(case map_of ?m did of Some x \<Rightarrow> snd x | None \<Rightarrow> 0) = device_load addrs did"
    using snoc device_load_none [of did addrs] by (cases "map_of ?m did") (simp_all split: if_splits)
  show ?case
    using snoc val load
    by (cases "did = pa_device_id (snd e)") (simp_all add: map_of_count_device wf_count_device)
qed simp

lemma or_insert_rest:
  "wf_map m \<Longrightarrow> wf_map (fold (\<lambda>(did, name). or_insert did (name, 0)) names m)
     \<and> set (keys (fold (\<lambda>(did, name). or_insert did (name, 0)) names m)) = set (keys m) \<union> fst ` set names
     \<and> map_of (fold (\<lambda>(did, name). or_insert did (name, 0)) names m) did =
         (case map_of m did of Some x \<Rightarrow> Some x
          | None \<Rightarrow> map_option (\<lambda>name. (name, 0)) (map_of names did))"
proof (induction names arbitrary: m)
  case (Cons n names)
  obtain d nm where n: "n = (d, nm)" by (cases n)
  have fold: "fold (\<lambda>(did, name). or_insert did (name, 0)) (n # names) m =
      fold (\<lambda>(did, name). or_insert did (name, 0)) names (or_insert d (nm, 0) m)" by (simp add: n)
  note IH = Cons.IH [OF wf_or_insert [OF Cons.prems, of d "(nm, 0)"]]
  show ?case
    unfolding fold using IH
    unfolding keys_or_insert map_of_or_insert by (auto simp: n split: option.splits)
qed (simp split: option.splits)

lemma registry_names_keys: "set (keys (registry_names peers)) = (\<lambda>e. fst (snd e)) ` set peers"
proof -
  have "set (keys (fold (\<lambda>e. or_insert (fst (snd e)) (snd (snd e))) es m)) =
      set (keys m) \<union> (\<lambda>e. fst (snd e)) ` set es" for es :: peer_registry and m
  proof (induction es arbitrary: m)
    case (Cons e es)
    show ?case unfolding fold_simps Cons.IH keys_or_insert by auto
  qed simp
  from this [of "sort_key fst peers" "[]"] show ?thesis by (simp add: registry_names_def)
qed

text \<open>
  One row per device. The rows for the user interface are sorted by name and then id, have each
  device with a live session or a known address exactly once, and count all of its candidates,
  capped at the largest 32-bit number.
\<close>

theorem peer_records_spec:
  "let rs = peer_records peers addrs
   in sorted (map (\<lambda>r. (lr_display_name r, lr_device_id r)) rs)
      \<and> distinct (map lr_device_id rs)
      \<and> set (map lr_device_id rs) = (\<lambda>e. fst (snd e)) ` set peers \<union> (\<lambda>e. pa_device_id (snd e)) ` set addrs
      \<and> map lr_candidate_count rs = map (\<lambda>r. device_load addrs (lr_device_id r)) rs"
proof -
  let ?m = "fold (count_device (registry_names peers)) addrs []"
  let ?all = "fold (\<lambda>(did, name). or_insert did (name, 0)) (registry_names peers) ?m"
  let ?row = "\<lambda>(did, name, n). \<lparr>lr_device_id = did, lr_display_name = name, lr_candidate_count = n\<rparr>"
  let ?rs = "map ?row ?all"
  have wf: "wf_map ?m" using count_devices by blast
  note rest = or_insert_rest [OF wf, of "registry_names peers"]
  have ids: "map lr_device_id ?rs = keys ?all" by (induction ?all) (auto simp: case_prod_unfold)
  have "did \<in> set (keys ?m) \<longleftrightarrow> did \<in> (\<lambda>e. pa_device_id (snd e)) ` set addrs" for did
    using count_devices [of "registry_names peers" addrs did] map_of_eq_None_iff [of ?m did]
    by (cases "map_of ?m did") (simp_all split: if_splits)
  then have keys: "set (keys ?all) = (\<lambda>e. fst (snd e)) ` set peers \<union> (\<lambda>e. pa_device_id (snd e)) ` set addrs"
    using rest registry_names_keys [of peers] by auto
  have "n = device_load addrs did" if "(did, name, n) \<in> set ?all" for did name n
  proof -
    have "wf_map ?all" using rest by blast
    then have "map_of ?all did = Some (name, n)" using that by (rule map_of_is_SomeI)
    then show ?thesis
      using rest [of did] count_devices [of "registry_names peers" addrs did] device_load_none [of did addrs]
      by (cases "map_of ?m did") (auto split: if_splits)
  qed
  then have load: "lr_candidate_count r = device_load addrs (lr_device_id r)" if "r \<in> set ?rs" for r
    using that by auto
  let ?key = "\<lambda>r. (lr_display_name r, lr_device_id r)"
  have rs: "peer_records peers addrs = sort_key ?key ?rs"
    by (simp add: peer_records_def Let_def)
  have perm: "mset (map lr_device_id (sort_key ?key ?rs)) = mset (keys ?all)"
    unfolding ids [symmetric] mset_map mset_sort ..
  show ?thesis
    unfolding Let_def rs
  proof (intro conjI)
    show "distinct (map lr_device_id (sort_key ?key ?rs))"
      using mset_eq_imp_distinct_iff [OF perm] rest by blast
    show "set (map lr_device_id (sort_key ?key ?rs)) =
        (\<lambda>e. fst (snd e)) ` set peers \<union> (\<lambda>e. pa_device_id (snd e)) ` set addrs"
      using mset_eq_setD [OF perm] keys by (rule trans)
    show "map lr_candidate_count (sort_key ?key ?rs) =
        map (\<lambda>r. device_load addrs (lr_device_id r)) (sort_key ?key ?rs)"
      by (rule map_cong [OF refl]) (rule load, simp only: set_sort)
  qed (rule sorted_sort_key)
qed

end
