(* ===== verification/LanFrame.thy ===== *)
theory LanFrame
  imports Protocol FileTransfer
begin

text \<open>
  The LAN wire of \<^verbatim>\<open>core/src/lan.rs\<close>: the messages, the encrypted frame
  \<open>len:u32 BE | nonce:12 | ciphertext\<close>, and the hello exchange. A TCP stream is a record of the
  bytes still to be read with what ends them, the bytes written with an optional limit after
  which writes fail, and the nonces the random generator will draw. \<open>serde_json\<close> is a
  parameter (\<open>codec\<close>), with the contract that it parses back what it printed.
\<close>

definition PROTO_VERSION :: nat where "PROTO_VERSION = 1"
definition FRAME_MAX :: nat where "FRAME_MAX = 1024 * 1024"

datatype lan_message =
    Hello str nat str
  | LanClip str nat clip_payload
  | Ping
  | BlobRequest str
  | BlobChunk bytes bool
  | BlobMiss str
  | FileOfferMsg file_offer
  | FileAccept str
  | FileReject str str
  | FileChunk str nat bytes
  | FileComplete str
  | FileCancel str str

fun frame_label :: "lan_message \<Rightarrow> str" where
  "frame_label (Hello _ _ _) = lit ''hello''"
| "frame_label (LanClip _ _ _) = lit ''clip''"
| "frame_label Ping = lit ''ping''"
| "frame_label (BlobRequest _) = lit ''blob_request''"
| "frame_label (BlobChunk _ _) = lit ''blob_chunk''"
| "frame_label (BlobMiss _) = lit ''blob_miss''"
| "frame_label (FileOfferMsg _) = lit ''file_offer''"
| "frame_label (FileAccept _) = lit ''file_accept''"
| "frame_label (FileReject _ _) = lit ''file_reject''"
| "frame_label (FileChunk _ _ _) = lit ''file_chunk''"
| "frame_label (FileComplete _) = lit ''file_complete''"
| "frame_label (FileCancel _ _) = lit ''file_cancel''"

datatype lan_error = LanIo str | LanMdns str | LanFile ft_error

record codec =
  crypto :: prims
  json_enc :: "lan_message \<Rightarrow> bytes option"
  json_dec :: "bytes \<Rightarrow> lan_message option"

definition codec_contract :: "codec \<Rightarrow> bool" where
  "codec_contract C \<longleftrightarrow>
     aead_contract (crypto C) \<and> (\<forall>m b. json_enc C m = Some b \<longrightarrow> json_dec C b = Some m)"

record conn =
  c_in :: bytes
  c_in_error :: "str option"
  c_out :: bytes
  c_limit :: "nat option"
  c_nonces :: "nat \<Rightarrow> bytes"
  c_drawn :: nat

text \<open>The nonce buffer is a \<open>[u8; 12]\<close>.\<close>

definition nonces_ok :: "conn \<Rightarrow> bool" where
  "nonces_ok c \<longleftrightarrow> (\<forall>i. length (c_nonces c i) = NONCE_LEN)"

text \<open>\<open>?\<close> after an operation on the stream.\<close>

fun then_c :: "('e + 'a) \<times> 'c \<Rightarrow> ('a \<Rightarrow> 'c \<Rightarrow> ('e + 'b) \<times> 'c) \<Rightarrow> ('e + 'b) \<times> 'c" where
  "then_c (Inl e, c) k = (Inl e, c)"
| "then_c (Inr x, c) k = k x c"

lemma then_c_Inr [simp]:
  "then_c r k = (Inr y, c) \<longleftrightarrow> (\<exists>x c'. r = (Inr x, c') \<and> k x c' = (Inr y, c))"
  by (cases r; cases "fst r") auto

section \<open>The length prefix\<close>

definition be32 :: "nat \<Rightarrow> bytes" where
  "be32 n = [word_of_nat (n div 16777216), word_of_nat (n div 65536), word_of_nat (n div 256),
             word_of_nat n]"

definition of_be32 :: "bytes \<Rightarrow> nat" where
  "of_be32 bs = foldl (\<lambda>v b. v * 256 + unat b) 0 bs"

lemma length_be32 [simp]: "length (be32 n) = 4"
  by (simp add: be32_def)

lemma of_be32_be32: "n < 2 ^ 32 \<Longrightarrow> of_be32 (be32 n) = n"
proof -
  assume n: "n < 2 ^ 32"
  have "n div 65536 = n div 256 div 256" "n div 16777216 = n div 256 div 256 div 256"
    by (simp_all add: div_mult2_eq [symmetric])
  moreover have "n div 256 div 256 div 256 < 256" using n by (simp add: div_mult2_eq [symmetric])
  ultimately show ?thesis
    by (simp add: be32_def of_be32_def unat_of_nat)
qed

section \<open>Frames\<close>

text \<open>What \<open>write_frame\<close> puts on the wire, or why it does not.\<close>

definition encode_frame :: "codec \<Rightarrow> bytes \<Rightarrow> bytes \<Rightarrow> lan_message \<Rightarrow> lan_error + bytes" where
  "encode_frame C nonce key msg =
     (case json_enc C msg of
        None \<Rightarrow> Inl (LanIo (lit ''invalid data''))
      | Some plain \<Rightarrow>
          (case encrypt (crypto C) nonce key plain of
             Inl e \<Rightarrow> Inl (LanIo (lit ''encrypt''))
           | Inr (cipher, nonce) \<Rightarrow>
               (let total = NONCE_LEN + length cipher
                in if total > FRAME_MAX then Inl (LanIo (lit ''frame too large for LAN''))
                   else Inr (be32 total @ nonce @ cipher))))"

definition put_bytes :: "bytes \<Rightarrow> conn \<Rightarrow> (lan_error + unit) \<times> conn" where
  "put_bytes bs c =
     (let room = (case c_limit c of None \<Rightarrow> length bs | Some k \<Rightarrow> k - length (c_out c))
      in (if length bs \<le> room then Inr () else Inl (LanIo (lit ''broken pipe'')),
          c\<lparr>c_out := c_out c @ take room bs\<rparr>))"

definition write_frame :: "codec \<Rightarrow> bytes \<Rightarrow> lan_message \<Rightarrow> conn \<Rightarrow> (lan_error + unit) \<times> conn" where
  "write_frame C key msg c =
     (if json_enc C msg = None then (Inl (LanIo (lit ''invalid data'')), c)
      else
        (let c' = c\<lparr>c_drawn := Suc (c_drawn c)\<rparr>
         in case encode_frame C (c_nonces c (c_drawn c)) key msg of
              Inl e \<Rightarrow> (Inl e, c')
            | Inr frame \<Rightarrow> put_bytes frame c'))"

definition read_frame :: "codec \<Rightarrow> bytes \<Rightarrow> conn \<Rightarrow> (lan_error + lan_message option) \<times> conn" where
  "read_frame C key c =
     (if length (c_in c) < 4
      then ((case c_in_error c of None \<Rightarrow> Inr None | Some e \<Rightarrow> Inl (LanIo e)), c\<lparr>c_in := []\<rparr>)
      else
        (let len = of_be32 (take 4 (c_in c));
             rest = drop 4 (c_in c)
         in if len > FRAME_MAX \<or> len \<le> NONCE_LEN
            then (Inl (LanIo (lit ''frame size out of range'')), c\<lparr>c_in := rest\<rparr>)
            else if length rest < len
            then (Inl (LanIo (case c_in_error c of None \<Rightarrow> lit ''early eof'' | Some e \<Rightarrow> e)),
                  c\<lparr>c_in := []\<rparr>)
            else
              (let buf = take len rest;
                   c' = c\<lparr>c_in := drop len rest\<rparr>
               in case decrypt (crypto C) key (take NONCE_LEN buf) (drop NONCE_LEN buf) of
                    Inl e \<Rightarrow> (Inl (LanIo (lit ''AEAD decrypt failed (wrong group key?)'')), c')
                  | Inr plain \<Rightarrow>
                      (case json_dec C plain of
                         None \<Rightarrow> (Inl (LanIo (lit ''invalid data'')), c')
                       | Some msg \<Rightarrow> (Inr (Some msg), c')))))"

text \<open>A frame of a message: what some nonce makes of it.\<close>

definition frame_of :: "codec \<Rightarrow> bytes \<Rightarrow> lan_message \<Rightarrow> bytes \<Rightarrow> bool" where
  "frame_of C key m f \<longleftrightarrow>
     codec_contract C \<and> (\<exists>n. length n = NONCE_LEN \<and> encode_frame C n key m = Inr f)"

lemma read_frame_shrinks:
  "read_frame C key c = (Inr (Some m), c') \<Longrightarrow> length (c_in c') < length (c_in c)"
  by (auto simp: read_frame_def Let_def split: if_splits option.splits sum.splits)

lemma read_frame_frame_of:
  assumes "frame_of C key m f" and "c_in c = f @ rest"
  shows "read_frame C key c = (Inr (Some m), c\<lparr>c_in := rest\<rparr>)"
proof -
  from assms(1) obtain n where n: "length n = NONCE_LEN" and "encode_frame C n key m = Inr f"
    by (auto simp: frame_of_def)
  from this(2) obtain plain cipher where plain: "json_enc C m = Some plain"
    and enc: "encrypt (crypto C) n key plain = Inr (cipher, n)"
    and total: "NONCE_LEN + length cipher \<le> FRAME_MAX"
    and f: "f = be32 (NONCE_LEN + length cipher) @ n @ cipher"
    by (force simp: encode_frame_def encrypt_def Let_def split: option.split_asm if_split_asm)
  have aead: "aead_contract (crypto C)" and json: "json_dec C plain = Some m"
    using assms(1) plain by (auto simp: frame_of_def codec_contract_def)
  have dec: "decrypt (crypto C) key n cipher = Inr plain"
    and len: "length cipher = length plain + AEAD_TAG_LEN"
    using decrypt_encrypt [OF aead n enc] by simp_all
  have "of_be32 (take 4 (c_in c)) = NONCE_LEN + length cipher"
    using total by (simp add: assms(2) f of_be32_be32 FRAME_MAX_def)
  then show ?thesis
    using total len dec json n
    by (simp add: read_frame_def Let_def assms(2) f AEAD_TAG_LEN_def)
qed

lemma read_frame_eof: "c_in c = [] \<Longrightarrow> c_in_error c = None \<Longrightarrow> read_frame C key c = (Inr None, c)"
  by (simp add: read_frame_def)

lemma put_bytes_Inr:
  "put_bytes bs c = (Inr u, c') \<Longrightarrow> c' = c\<lparr>c_out := c_out c @ bs\<rparr>"
  by (auto simp: put_bytes_def Let_def split: if_splits)

lemma put_bytes_nolimit: "c_limit c = None \<Longrightarrow> put_bytes bs c = (Inr (), c\<lparr>c_out := c_out c @ bs\<rparr>)"
  by (simp add: put_bytes_def)

lemma write_frame_Inr:
  assumes "codec_contract C" and "nonces_ok c" and "write_frame C key m c = (Inr u, c')"
  obtains f where "frame_of C key m f"
    and "c' = c\<lparr>c_out := c_out c @ f, c_drawn := Suc (c_drawn c)\<rparr>"
proof -
  from assms(3) obtain f where enc: "encode_frame C (c_nonces c (c_drawn c)) key m = Inr f"
    and put: "put_bytes f (c\<lparr>c_drawn := Suc (c_drawn c)\<rparr>) = (Inr u, c')"
    by (auto simp: write_frame_def Let_def split: if_splits sum.splits)
  have "frame_of C key m f" using assms(1,2) enc by (auto simp: frame_of_def nonces_ok_def)
  moreover from put_bytes_Inr [OF put] have "c' = c\<lparr>c_out := c_out c @ f, c_drawn := Suc (c_drawn c)\<rparr>"
    by simp
  ultimately show thesis by (rule that)
qed

text \<open>Writing never touches the input side, whatever happens.\<close>

lemma write_frame_frame:
  "write_frame C key m c = (r, c') \<Longrightarrow>
     c_in c' = c_in c \<and> c_in_error c' = c_in_error c \<and> c_nonces c' = c_nonces c
     \<and> c_limit c' = c_limit c \<and> prefix (c_out c) (c_out c')"
  by (auto simp: write_frame_def put_bytes_def Let_def split: if_splits sum.splits)

lemma read_frame_frame:
  "read_frame C key c = (r, c') \<Longrightarrow>
     c_out c' = c_out c \<and> c_in_error c' = c_in_error c \<and> c_nonces c' = c_nonces c
     \<and> c_limit c' = c_limit c \<and> suffix (c_in c') (c_in c)"
  by (auto simp: read_frame_def Let_def suffix_drop split: if_splits sum.splits option.splits)

text \<open>A message can be sent when its JSON fits a frame.\<close>

definition sendable :: "codec \<Rightarrow> bytes \<Rightarrow> lan_message \<Rightarrow> bool" where
  "sendable C key m \<longleftrightarrow>
     (\<exists>b. json_enc C m = Some b \<and> NONCE_LEN + length b + AEAD_TAG_LEN \<le> FRAME_MAX
        \<and> (\<forall>n. length n = NONCE_LEN \<longrightarrow> aead_seal (crypto C) key n b \<noteq> None))"

lemma write_frame_ok:
  assumes "codec_contract C" and "nonces_ok c" and "c_limit c = None" and "sendable C key m"
  shows "\<exists>c'. write_frame C key m c = (Inr (), c')"
proof -
  from assms(4) obtain b where b: "json_enc C m = Some b"
    and fits: "NONCE_LEN + length b + AEAD_TAG_LEN \<le> FRAME_MAX"
    and total: "\<And>n. length n = NONCE_LEN \<Longrightarrow> aead_seal (crypto C) key n b \<noteq> None"
    by (auto simp: sendable_def)
  let ?n = "c_nonces c (c_drawn c)"
  have n: "length ?n = NONCE_LEN" using assms(2) by (simp add: nonces_ok_def)
  then obtain ct where ct: "aead_seal (crypto C) key ?n b = Some ct" using total by blast
  have "length ct = length b + AEAD_TAG_LEN"
    using assms(1) aead_seal_length [OF _ n ct] by (simp add: codec_contract_def)
  with fits have "\<not> NONCE_LEN + length ct > FRAME_MAX" by simp
  then show ?thesis
    using assms(3) b ct by (simp add: write_frame_def encode_frame_def encrypt_def put_bytes_nolimit)
qed

section \<open>Streams of frames\<close>

text \<open>
  What a peer relies on when it reads a stream: a codec whose encodings are self-delimiting.
  Then the messages of a stream are read back, in order, whatever follows.
\<close>

locale frame_codec =
  fixes is_frame :: "'m \<Rightarrow> bytes \<Rightarrow> bool"
    and read1 :: "bytes \<Rightarrow> ('m \<times> bytes) option"
  assumes read1_frame: "is_frame m f \<Longrightarrow> read1 (f @ rest) = Some (m, rest)"
    and read1_nil: "read1 [] = None"
    and read1_shorter: "read1 bs = Some (m, rest) \<Longrightarrow> length rest < length bs"
begin

fun read_upto :: "nat \<Rightarrow> bytes \<Rightarrow> 'm list" where
  "read_upto 0 bs = []"
| "read_upto (Suc n) bs = (case read1 bs of None \<Rightarrow> [] | Some (m, rest) \<Rightarrow> m # read_upto n rest)"

lemma stream_round_trip:
  "list_all2 is_frame ms fs \<Longrightarrow> length ms \<le> n \<Longrightarrow> read_upto n (concat fs) = ms"
proof (induction ms fs arbitrary: n rule: list_all2_induct)
  case Nil
  then show ?case by (cases n) (simp_all add: read1_nil)
next
  case (Cons m ms f fs)
  then show ?case by (cases n) (simp_all add: read1_frame)
qed

lemma frame_injective: "is_frame m f \<Longrightarrow> is_frame m' f \<Longrightarrow> m = m'"
  using read1_frame [of m f "[]"] read1_frame [of m' f "[]"] by simp

text \<open>Two streams with the same bytes carry the same messages: no message boundary can shift.\<close>

lemma stream_unambiguous:
  "list_all2 is_frame ms fs \<Longrightarrow> list_all2 is_frame ms' fs' \<Longrightarrow> concat fs = concat fs' \<Longrightarrow> ms = ms'"
  using stream_round_trip [of ms fs "max (length ms) (length ms')"]
    stream_round_trip [of ms' fs' "max (length ms) (length ms')"] by simp

end

definition plain_conn :: "bytes \<Rightarrow> conn" where
  "plain_conn bs = \<lparr>c_in = bs, c_in_error = None, c_out = [], c_limit = None,
     c_nonces = (\<lambda>_. replicate 12 0), c_drawn = 0\<rparr>"

lemma nonces_ok_plain [simp]: "nonces_ok (plain_conn bs)"
  by (simp add: nonces_ok_def plain_conn_def NONCE_LEN_def)

lemma plain_conn_simps [simp]:
  "c_in (plain_conn bs) = bs" "c_in_error (plain_conn bs) = None" "c_out (plain_conn bs) = []"
  "c_limit (plain_conn bs) = None" "(plain_conn bs)\<lparr>c_in := bs'\<rparr> = plain_conn bs'"
  by (simp_all add: plain_conn_def)

definition read_one :: "codec \<Rightarrow> bytes \<Rightarrow> bytes \<Rightarrow> (lan_message \<times> bytes) option" where
  "read_one C key bs = (case read_frame C key (plain_conn bs) of
      (Inr (Some m), c) \<Rightarrow> Some (m, c_in c) | _ \<Rightarrow> None)"

interpretation wire: frame_codec "frame_of C key" "read_one C key" for C key
proof
  show "read_one C key (f @ rest) = Some (m, rest)" if "frame_of C key m f" for m f rest
    using read_frame_frame_of [OF that, of "plain_conn (f @ rest)" rest]
    by (simp add: read_one_def)
  show "read_one C key [] = None" by (simp add: read_one_def read_frame_eof)
  show "length rest < length bs" if "read_one C key bs = Some (m, rest)" for bs m rest
    using that read_frame_shrinks [of C key "plain_conn bs" m]
    by (auto simp: read_one_def split: prod.splits sum.splits option.splits)
qed

section \<open>Hello\<close>

definition write_hello :: "codec \<Rightarrow> bytes \<Rightarrow> str \<Rightarrow> str \<Rightarrow> conn \<Rightarrow> (lan_error + unit) \<times> conn" where
  "write_hello C key device_id device_name c =
     write_frame C key (Hello device_id PROTO_VERSION device_name) c"

definition read_hello :: "codec \<Rightarrow> bytes \<Rightarrow> conn \<Rightarrow> (lan_error + str \<times> str) \<times> conn" where
  "read_hello C key c =
     (case read_frame C key c of
        (Inl e, c') \<Rightarrow> (Inl e, c')
      | (Inr None, c') \<Rightarrow>
          (Inl (LanFile (Canceled (lit ''peer closed during hello handshake''))), c')
      | (Inr (Some m), c') \<Rightarrow>
          (case m of
             Hello device_id v device_name \<Rightarrow> (Inr (device_id, device_name), c')
           | other \<Rightarrow> (Inl (LanFile (UnexpectedFrame (frame_label other))), c')))"

definition reject_file_offer :: "codec \<Rightarrow> bytes \<Rightarrow> str \<Rightarrow> str \<Rightarrow> conn \<Rightarrow> (lan_error + unit) \<times> conn" where
  "reject_file_offer C key transfer_id reason c = write_frame C key (FileReject transfer_id reason) c"

section \<open>A concrete codec\<close>

text \<open>For closed instances: the messages of a table, each printed as its index.\<close>

fun index_of :: "'a \<Rightarrow> 'a list \<Rightarrow> nat option" where
  "index_of x [] = None"
| "index_of x (y # ys) = (if x = y then Some 0 else map_option Suc (index_of x ys))"

lemma index_of_Some: "index_of x xs = Some i \<Longrightarrow> i < length xs \<and> xs ! i = x"
  by (induction xs arbitrary: i) (auto split: if_splits)

definition table_codec :: "lan_message list \<Rightarrow> codec" where
  "table_codec ms =
     \<lparr>crypto = demo_prims,
      json_enc = (\<lambda>m. map_option (\<lambda>i. replicate i 0) (index_of m ms)),
      json_dec = (\<lambda>b. if length b < length ms then Some (ms ! length b) else None)\<rparr>"

lemma table_codec_contract: "codec_contract (table_codec ms)"
  using demo_aead by (auto simp: codec_contract_def table_codec_def dest: index_of_Some)

lemma table_codec_sendable:
  "m \<in> set ms \<Longrightarrow> length ms < 1000 \<Longrightarrow> sendable (table_codec ms) key m"
proof -
  assume m: "m \<in> set ms" and len: "length ms < 1000"
  have "\<exists>i. index_of m ms = Some i" using m by (induction ms) auto
  then obtain i where i: "index_of m ms = Some i" by blast
  with index_of_Some [OF i] len show ?thesis
    by (simp add: sendable_def table_codec_def demo_prims_def NONCE_LEN_def AEAD_TAG_LEN_def FRAME_MAX_def)
qed

section \<open>The properties\<close>

text \<open>A sequence of writes, and of reads until the end of the stream or an error.\<close>

fun write_frames :: "codec \<Rightarrow> bytes \<Rightarrow> lan_message list \<Rightarrow> conn \<Rightarrow> (lan_error + unit) \<times> conn" where
  "write_frames C key [] c = (Inr (), c)"
| "write_frames C key (m # ms) c = then_c (write_frame C key m c) (\<lambda>_ c. write_frames C key ms c)"

fun read_frames :: "codec \<Rightarrow> bytes \<Rightarrow> nat \<Rightarrow> conn \<Rightarrow> lan_message list" where
  "read_frames C key 0 c = []"
| "read_frames C key (Suc n) c =
     (case read_frame C key c of
        (Inr (Some m), c') \<Rightarrow> m # read_frames C key n c'
      | _ \<Rightarrow> [])"

lemma write_frames_sent:
  "codec_contract C \<Longrightarrow> nonces_ok c \<Longrightarrow> write_frames C key ms c = (Inr u, c') \<Longrightarrow>
     \<exists>fs. list_all2 (frame_of C key) ms fs \<and> c_out c' = c_out c @ concat fs"
proof (induction ms arbitrary: c)
  case (Cons m ms)
  from Cons.prems(3) obtain c1 where w: "write_frame C key m c = (Inr (), c1)"
    and rec: "write_frames C key ms c1 = (Inr u, c')" by auto
  from write_frame_Inr [OF Cons.prems(1,2) w] obtain f where f: "frame_of C key m f"
    and c1: "c1 = c\<lparr>c_out := c_out c @ f, c_drawn := Suc (c_drawn c)\<rparr>" .
  have "nonces_ok c1" using Cons.prems(2) by (simp add: c1 nonces_ok_def)
  from Cons.IH [OF Cons.prems(1) this rec] obtain fs where
    "list_all2 (frame_of C key) ms fs" "c_out c' = c_out c1 @ concat fs" by blast
  with f show ?case by (intro exI [of _ "f # fs"]) (simp add: c1)
qed simp

lemma read_frames_read_upto: "read_frames C key n (plain_conn bs) = wire.read_upto C key n bs"
proof (induction n arbitrary: bs)
  case (Suc n)
  obtain r c' where rd: "read_frame C key (plain_conn bs) = (r, c')" by fastforce
  have c': "c' = plain_conn (c_in c')" if "r = Inr (Some m)" for m
    using rd that by (auto simp: read_frame_def Let_def plain_conn_def split: if_splits sum.splits option.splits)
  have "read_frames C key n c' = wire.read_upto C key n (c_in c')" if "r = Inr (Some m)" for m
    using Suc [of "c_in c'"] c' [OF that] by simp
  moreover have "read_one C key bs = (case r of Inr (Some m) \<Rightarrow> Some (m, c_in c') | _ \<Rightarrow> None)"
    by (simp add: read_one_def rd)
  ultimately show ?case by (simp add: rd split: sum.splits option.splits)
qed simp

text \<open>
  C9: The frame stream. Messages written one after another to a connection are read back at the
  other end, all of them, in order and nothing else, with every frame boundary recovered from the
  bytes alone.
\<close>

theorem frame_stream_round_trip:
  assumes "codec_contract C" and "write_frames C key ms (plain_conn []) = (Inr (), c)"
    and "length ms \<le> n"
  shows "read_frames C key n (plain_conn (c_out c)) = ms"
  using write_frames_sent [OF assms(1) nonces_ok_plain assms(2)] wire.stream_round_trip assms(3)
  by (auto simp: read_frames_read_upto)

theorem frame_stream_round_trip_witness:
  "\<exists>c. write_frames (table_codec [Ping, BlobMiss []]) [] [BlobMiss [], Ping] (plain_conn []) = (Inr (), c)
     \<and> read_frames (table_codec [Ping, BlobMiss []]) [] 9 (plain_conn (c_out c)) = [BlobMiss [], Ping]"
proof -
  let ?C = "table_codec [Ping, BlobMiss []]"
  have snd: "m \<in> {Ping, BlobMiss []} \<Longrightarrow> sendable ?C [] m" for m
    by (rule table_codec_sendable) auto
  obtain c1 where w1: "write_frame ?C [] (BlobMiss []) (plain_conn []) = (Inr (), c1)"
    using write_frame_ok [OF table_codec_contract nonces_ok_plain _ snd] by fastforce
  then have "nonces_ok c1" "c_limit c1 = None"
    using write_frame_frame [OF w1] by (simp_all add: nonces_ok_def plain_conn_def NONCE_LEN_def)
  then obtain c2 where "write_frame ?C [] Ping c1 = (Inr (), c2)"
    using write_frame_ok [OF table_codec_contract _ _ snd] by fastforce
  with w1 have w: "write_frames ?C [] [BlobMiss [], Ping] (plain_conn []) = (Inr (), c2)" by simp
  with frame_stream_round_trip [OF table_codec_contract w, of 9] show ?thesis by auto
qed

lemma read_frame_sealed:
  assumes "aead_contract (crypto C)" and "read_frame C key c = (Inr (Some m), c')"
  shows "\<exists>len nonce plain cipher. c_in c = len @ nonce @ cipher @ c_in c' \<and> length len = 4
     \<and> of_be32 len = NONCE_LEN + length cipher \<and> length nonce = NONCE_LEN
     \<and> encrypt (crypto C) nonce key plain = Inr (cipher, nonce) \<and> json_dec C plain = Some m"
proof -
  let ?len = "of_be32 (take 4 (c_in c))" and ?rest = "drop 4 (c_in c)"
  from assms(2) obtain plain where n: "\<not> length (c_in c) < 4" "\<not> ?len \<le> NONCE_LEN" "\<not> length ?rest < ?len"
    and dec: "decrypt (crypto C) key (take NONCE_LEN (take ?len ?rest)) (drop NONCE_LEN (take ?len ?rest)) = Inr plain"
    and m: "json_dec C plain = Some m" and c': "c_in c' = drop ?len ?rest"
    by (auto simp: read_frame_def Let_def split: if_splits option.splits sum.splits)
  have "c_in c = take 4 (c_in c) @ take NONCE_LEN (take ?len ?rest) @ drop NONCE_LEN (take ?len ?rest) @ c_in c'"
    unfolding c' by (metis append.assoc append_take_drop_id)
  moreover have "length (take NONCE_LEN (take ?len ?rest)) = NONCE_LEN"
    "?len = NONCE_LEN + length (drop NONCE_LEN (take ?len ?rest))" "length (take 4 (c_in c)) = 4"
    using n by auto
  ultimately show ?thesis
    using decrypt_authentic [OF assms(1) dec] m by blast
qed

text \<open>
  Only holders of the group key are heard. A message is delivered by \<open>read_frame\<close> only if the
  bytes read are a frame that sealing the message's JSON under this very key and some nonce
  produces, so without the key no message can be injected or altered.
\<close>

theorem read_frame_authentic:
  assumes "aead_contract (crypto C)" and "read_frame C key c = (Inr (Some m), c')"
  shows "\<exists>len nonce plain cipher. c_in c = len @ nonce @ cipher @ c_in c' \<and> length len = 4
     \<and> of_be32 len = NONCE_LEN + length cipher \<and> length nonce = NONCE_LEN
     \<and> encrypt (crypto C) nonce key plain = Inr (cipher, nonce) \<and> json_dec C plain = Some m"
  using assms by (rule read_frame_sealed)

theorem read_frame_authentic_witness:
  "\<exists>f nonce plain cipher. frame_of (table_codec [Ping]) [] Ping f
     \<and> encrypt demo_prims nonce [] plain = Inr (cipher, nonce)"
proof -
  obtain c where "write_frame (table_codec [Ping]) [] Ping (plain_conn []) = (Inr (), c)"
    using write_frame_ok [OF table_codec_contract nonces_ok_plain _ table_codec_sendable] by fastforce
  from write_frame_Inr [OF table_codec_contract nonces_ok_plain this] obtain f where
    f: "frame_of (table_codec [Ping]) [] Ping f" by blast
  have "read_frame (table_codec [Ping]) [] (plain_conn (f @ [])) = (Inr (Some Ping), plain_conn [])"
    using read_frame_frame_of [OF f, of "plain_conn (f @ [])"] by simp
  from read_frame_authentic [OF _ this] demo_aead f show ?thesis
    by (auto simp: table_codec_def)
qed

text \<open>
  A full file chunk fits a frame. With JSON no longer than the field names, the escaped
  transfer id, a 20-digit offset and the base64 text need, a chunk of at most 512 KiB of a transfer
  whose id has at most 1,000 bytes is never refused for its size.
\<close>

theorem file_chunk_fits_frame:
  assumes "codec_contract C" and "nonces_ok c" and "c_limit c = None"
    and "json_enc C (FileChunk tid offset data) = Some json"
    and "length json \<le> 100 + 6 * length tid + 20 + 4 * ((length data + 2) div 3)"
    and "length tid \<le> 1000" and "length data \<le> MAX_FILE_CHUNK_BYTES"
    and "\<forall>n. aead_seal (crypto C) key n json \<noteq> None"
  shows "\<exists>c'. write_frame C key (FileChunk tid offset data) c = (Inr (), c')"
proof -
  have "(length data + 2) div 3 \<le> (524288 + 2) div 3"
    using assms(7) unfolding MAX_FILE_CHUNK_BYTES_def by (intro div_le_mono) simp
  then have "NONCE_LEN + length json + AEAD_TAG_LEN \<le> FRAME_MAX"
    using assms(5,6) by (simp add: NONCE_LEN_def AEAD_TAG_LEN_def FRAME_MAX_def)
  then have "sendable C key (FileChunk tid offset data)"
    using assms(4,8) unfolding sendable_def by blast
  with assms(1-3) show ?thesis by (rule write_frame_ok)
qed

theorem file_chunk_fits_frame_witness:
  "\<exists>c'. write_frame (table_codec [FileChunk [] 0 [5]]) [] (FileChunk [] 0 [5]) (plain_conn []) = (Inr (), c')"
  by (rule file_chunk_fits_frame [where json = "[]"])
    (simp_all add: table_codec_contract nonces_ok_plain MAX_FILE_CHUNK_BYTES_def,
     simp_all add: table_codec_def demo_prims_def)

end
