(* ===== verification/BlobCache.thy ===== *)
theory BlobCache
  imports Stores
begin

text \<open>
  \<open>BlobCache\<close> of \<^verbatim>\<open>core/src/lan.rs\<close>: ciphertexts under their SHA-256, evicted oldest first until
  at most 64 MiB and 32 entries are held. The mutex makes each operation atomic.
\<close>

definition BLOB_CACHE_MAX_BYTES :: nat where "BLOB_CACHE_MAX_BYTES = 64 * 1024 * 1024"
definition BLOB_CACHE_MAX_ENTRIES :: nat where "BLOB_CACHE_MAX_ENTRIES = 32"

record blob_cache =
  bc_map :: "(str \<times> bytes) list"
  bc_order :: "str list"
  bc_bytes :: nat

definition blob_cache_new :: blob_cache where
  "blob_cache_new = \<lparr>bc_map = [], bc_order = [], bc_bytes = 0\<rparr>"

definition blob_cache_get :: "str \<Rightarrow> blob_cache \<Rightarrow> bytes option" where
  "blob_cache_get sha g = map_of (bc_map g) sha"

definition cache_over :: "blob_cache \<Rightarrow> bool" where
  "cache_over g \<longleftrightarrow> bc_bytes g > BLOB_CACHE_MAX_BYTES \<or> length (bc_map g) > BLOB_CACHE_MAX_ENTRIES"

text \<open>The loop of \<open>insert\<close>; it ends because each round pops the order queue.\<close>

function cache_evict :: "blob_cache \<Rightarrow> blob_cache" where
  "cache_evict g =
     (if cache_over g then
        (case bc_order g of
           [] \<Rightarrow> g
         | old # order \<Rightarrow>
             cache_evict
               (case map_of (bc_map g) old of
                  Some v \<Rightarrow> g\<lparr>bc_order := order, bc_map := AList.delete old (bc_map g),
                              bc_bytes := bc_bytes g - length v\<rparr>
                | None \<Rightarrow> g\<lparr>bc_order := order\<rparr>))
      else g)"
  by pat_completeness auto
termination
  by (relation "measure (\<lambda>g. length (bc_order g))") (auto split: option.splits)

declare cache_evict.simps [simp del]

definition blob_cache_insert :: "str \<Rightarrow> bytes \<Rightarrow> blob_cache \<Rightarrow> blob_cache" where
  "blob_cache_insert sha data g =
     (if map_of (bc_map g) sha \<noteq> None then g
      else cache_evict (g\<lparr>bc_bytes := bc_bytes g + length data, bc_order := bc_order g @ [sha],
                          bc_map := AList.update sha data (bc_map g)\<rparr>))"

text \<open>
  The three fields agree; without the caps this is what the eviction loop keeps, with them it is
  the invariant of the cache.
\<close>

definition cache_agree :: "blob_cache \<Rightarrow> bool" where
  "cache_agree g \<longleftrightarrow>
     wf_map (bc_map g) \<and> distinct (bc_order g) \<and> set (bc_order g) = set (keys (bc_map g))
     \<and> bc_bytes g = map_bytes (\<lambda>b. b) (bc_map g)"

definition cache_inv :: "blob_cache \<Rightarrow> bool" where
  "cache_inv g \<longleftrightarrow> cache_agree g \<and> \<not> cache_over g"

lemma cache_inv_new: "cache_inv blob_cache_new"
  by (simp add: cache_inv_def cache_agree_def cache_over_def blob_cache_new_def)

lemma cache_evict_shorter: "length (bc_order (cache_evict g)) \<le> length (bc_order g)"
proof (induction g rule: cache_evict.induct)
  case (1 g)
  then show ?case
    by (subst cache_evict.simps) (fastforce split: list.splits option.splits)
qed

text \<open>
  What eviction does: it drops a prefix of the queue, oldest first, and the shortest one that
  brings the cache back under both caps.
\<close>

definition evicts_to :: "blob_cache \<Rightarrow> blob_cache \<Rightarrow> str list \<Rightarrow> bool" where
  "evicts_to g g' dropped \<longleftrightarrow>
     bc_order g = dropped @ bc_order g'
     \<and> map_of (bc_map g') = (map_of (bc_map g)) |` (- set dropped)
     \<and> (dropped \<noteq> [] \<longrightarrow> (\<exists>v. map_of (bc_map g) (last dropped) = Some v
           \<and> (bc_bytes g' + length v > BLOB_CACHE_MAX_BYTES
              \<or> Suc (length (bc_map g')) > BLOB_CACHE_MAX_ENTRIES)))"

lemma cache_evict_same:
  assumes "bc_order (cache_evict g) = bc_order g"
  shows "cache_evict g = g"
proof (cases "cache_over g \<and> bc_order g \<noteq> []")
  case True
  then obtain old order where ord: "bc_order g = old # order" by (cases "bc_order g") auto
  let ?g = "case map_of (bc_map g) old of
      Some v \<Rightarrow> g\<lparr>bc_order := order, bc_map := AList.delete old (bc_map g), bc_bytes := bc_bytes g - length v\<rparr>
    | None \<Rightarrow> g\<lparr>bc_order := order\<rparr>"
  have "cache_evict g = cache_evict ?g" using True ord by (subst cache_evict.simps) simp
  moreover have "bc_order ?g = order" by (simp split: option.splits)
  ultimately have "length (bc_order (cache_evict g)) \<le> length order"
    by (metis cache_evict_shorter)
  with assms ord show ?thesis by simp
next
  case False
  then show ?thesis by (subst cache_evict.simps) (auto split: list.splits)
qed

lemma cache_evict_spec:
  "cache_agree g \<Longrightarrow> cache_inv (cache_evict g) \<and> (\<exists>dropped. evicts_to g (cache_evict g) dropped)"
proof (induction g rule: cache_evict.induct)
  case (1 g)
  show ?case
  proof (cases "cache_over g")
    case False
    then have eq: "cache_evict g = g" by (simp add: cache_evict.simps)
    show ?thesis unfolding eq
      using False "1.prems" by (auto simp: cache_inv_def evicts_to_def intro!: exI [of _ "[]"])
  next
    case True
    have "bc_order g \<noteq> []" using True "1.prems" by (auto simp: cache_over_def cache_agree_def)
    then obtain old order where ord: "bc_order g = old # order" by (cases "bc_order g") auto
    then have old: "old \<in> set (keys (bc_map g))" using "1.prems" by (auto simp: cache_agree_def)
    then obtain v where v: "map_of (bc_map g) old = Some v"
      by (cases "map_of (bc_map g) old") (auto simp: map_of_eq_None_iff)
    let ?g = "g\<lparr>bc_order := order, bc_map := AList.delete old (bc_map g), bc_bytes := bc_bytes g - length v\<rparr>"
    have eq: "cache_evict g = cache_evict ?g"
      using True by (subst cache_evict.simps) (simp add: ord v)
    have "set order = set (keys (AList.delete old (bc_map g)))"
      unfolding set_keys_delete using "1.prems" by (simp add: cache_agree_def ord) (metis Diff_insert_absorb)
    then have agree: "cache_agree ?g"
      using "1.prems" ord v by (simp add: cache_agree_def map_bytes_delete)
    from "1.IH" [OF True ord] agree v
    obtain dropped where inv: "cache_inv (cache_evict ?g)" and d: "evicts_to ?g (cache_evict ?g) dropped"
      by auto
    have "evicts_to g (cache_evict ?g) (old # dropped)"
    proof (cases "dropped = []")
      case none: True
      have stop: "cache_evict ?g = ?g"
        using d none cache_evict_same [of ?g] by (simp add: evicts_to_def)
      have "length v \<le> bc_bytes g"
        using "1.prems" v map_bytes_lookup by (fastforce simp: cache_agree_def)
      moreover have "length (AList.delete old (bc_map g)) = length (bc_map g) - 1"
        using "1.prems" old by (simp add: cache_agree_def length_delete)
      moreover have "0 < length (bc_map g)" using old by (cases "bc_map g") auto
      ultimately show ?thesis
        using True v ord d none
        by (auto simp: evicts_to_def stop cache_over_def alist_simps restrict_map_def fun_eq_iff)
    next
      case False
      then show ?thesis
        using d ord by (auto simp: evicts_to_def alist_simps restrict_map_def fun_eq_iff split: if_splits)
    qed
    with inv show ?thesis unfolding eq by blast
  qed
qed

definition cache_pushed :: "str \<Rightarrow> bytes \<Rightarrow> blob_cache \<Rightarrow> blob_cache" where
  "cache_pushed sha data g =
     g\<lparr>bc_bytes := bc_bytes g + length data, bc_order := bc_order g @ [sha],
       bc_map := AList.update sha data (bc_map g)\<rparr>"

lemma cache_insert_cases:
  "blob_cache_insert sha data g =
     (if map_of (bc_map g) sha \<noteq> None then g else cache_evict (cache_pushed sha data g))"
  by (simp add: blob_cache_insert_def cache_pushed_def)

lemma cache_pushed_agree:
  assumes "cache_agree g" and "map_of (bc_map g) sha = None"
  shows "cache_agree (cache_pushed sha data g)"
proof -
  have "sha \<notin> set (keys (bc_map g))" using assms(2) by (simp add: map_of_eq_None_iff)
  then show ?thesis
    using assms(1) by (auto simp: cache_agree_def cache_pushed_def update_new)
qed

lemma cache_insert_inv:
  assumes "cache_inv g"
  shows "cache_inv (blob_cache_insert sha data g)"
proof (cases "map_of (bc_map g) sha")
  case None
  then have "cache_agree (cache_pushed sha data g)"
    using assms cache_pushed_agree by (simp add: cache_inv_def)
  then show ?thesis using None cache_evict_spec by (simp add: cache_insert_cases)
qed (use assms in \<open>simp add: cache_insert_cases\<close>)

lemma cache_insert_map:
  assumes "cache_inv g" and "map_of (bc_map g) sha = None"
  obtains dropped where
    "map_of (bc_map (blob_cache_insert sha data g)) = ((map_of (bc_map g))(sha \<mapsto> data)) |` (- set dropped)"
    and "evicts_to (cache_pushed sha data g) (blob_cache_insert sha data g) dropped"
proof -
  have "cache_agree (cache_pushed sha data g)"
    using assms cache_pushed_agree by (simp add: cache_inv_def)
  then obtain dropped where
    "evicts_to (cache_pushed sha data g) (cache_evict (cache_pushed sha data g)) dropped"
    using cache_evict_spec by blast
  with assms(2) that show thesis
    by (simp add: cache_insert_cases evicts_to_def cache_pushed_def alist_simps)
qed

lemma restrict_SomeD: "(m |` A) k = Some v \<Longrightarrow> m k = Some v"
  by (simp add: restrict_map_def split: if_splits)

text \<open>An insert never changes what another key holds, at most forgets it.\<close>

lemma cache_insert_other:
  assumes "cache_inv g" and "k \<noteq> sha" and "blob_cache_get k (blob_cache_insert sha data g) = Some b"
  shows "blob_cache_get k g = Some b"
proof (cases "map_of (bc_map g) sha")
  case None
  from cache_insert_map [OF assms(1) None, of data] obtain dropped where
    "map_of (bc_map (blob_cache_insert sha data g)) = ((map_of (bc_map g))(sha \<mapsto> data)) |` (- set dropped)" .
  then have "((map_of (bc_map g))(sha \<mapsto> data)) k = Some b"
    using assms(3) unfolding blob_cache_get_def by (metis restrict_SomeD)
  then show ?thesis using assms(2) by (simp add: blob_cache_get_def)
qed (use assms in \<open>simp add: cache_insert_cases\<close>)

lemma cache_put_value:
  assumes "cache_inv g" and "blob_cache_get sha (blob_cache_insert sha data g) = Some b"
  shows "blob_cache_get sha g = Some b \<or> b = data"
proof (cases "map_of (bc_map g) sha")
  case None
  from cache_insert_map [OF assms(1) None, of data] obtain dropped where
    "map_of (bc_map (blob_cache_insert sha data g)) = ((map_of (bc_map g))(sha \<mapsto> data)) |` (- set dropped)" .
  then have "((map_of (bc_map g))(sha \<mapsto> data)) sha = Some b"
    using assms(2) unfolding blob_cache_get_def by (metis restrict_SomeD)
  then show ?thesis by simp
qed (use assms in \<open>simp add: cache_insert_cases\<close>)

text \<open>A content within the byte cap is there right after its insertion, whatever was evicted.\<close>

lemma cache_get_insert:
  assumes inv: "cache_inv g" and size: "length data \<le> BLOB_CACHE_MAX_BYTES"
  shows "blob_cache_get sha (blob_cache_insert sha data g) =
     (case blob_cache_get sha g of Some b \<Rightarrow> Some b | None \<Rightarrow> Some data)"
proof (cases "map_of (bc_map g) sha")
  case None
  let ?g = "cache_pushed sha data g" and ?g' = "cache_evict (cache_pushed sha data g)"
  have agree: "cache_agree ?g" using inv None cache_pushed_agree by (simp add: cache_inv_def)
  then obtain dropped where inv': "cache_inv ?g'" and d: "evicts_to ?g ?g' dropped"
    using cache_evict_spec by blast
  have "sha \<notin> set dropped"
  proof
    assume sha: "sha \<in> set dropped"
    have order: "bc_order g @ [sha] = dropped @ bc_order ?g'"
      using d by (simp add: evicts_to_def cache_pushed_def)
    have "distinct (bc_order ?g)" using agree by (simp only: cache_agree_def)
    moreover have "bc_order ?g = bc_order g @ [sha]" by (simp add: cache_pushed_def)
    ultimately have dist: "distinct (dropped @ bc_order ?g')" by (simp only: order)
    have empty: "bc_order ?g' = []"
    proof (rule ccontr)
      assume ne: "bc_order ?g' \<noteq> []"
      then have "last (bc_order ?g') = sha" using order by (metis last_appendR last_snoc)
      with ne have "sha \<in> set (bc_order ?g')" by (metis last_in_set)
      with sha dist show False by (meson disjoint_iff distinct_append)
    qed
    have agree': "cache_agree ?g'" using inv' by (simp add: cache_inv_def)
    have map': "bc_map ?g' = []" using agree' empty by (simp add: cache_agree_def)
    have bytes': "bc_bytes ?g' = 0" using agree' map' by (simp add: cache_agree_def)
    have "last dropped = sha" using order empty by (metis append_Nil2 last_snoc)
    moreover have "map_of (bc_map ?g) sha = Some data" by (simp add: cache_pushed_def alist_simps)
    moreover have "dropped \<noteq> []" using sha by auto
    ultimately have "0 + length data > BLOB_CACHE_MAX_BYTES \<or> Suc 0 > BLOB_CACHE_MAX_ENTRIES"
      using d map' bytes' unfolding evicts_to_def by (metis list.size(3) option.inject)
    with size show False by (simp add: BLOB_CACHE_MAX_ENTRIES_def)
  qed
  moreover have "map_of (bc_map ?g') = ((map_of (bc_map g))(sha \<mapsto> data)) |` (- set dropped)"
    using d by (simp add: evicts_to_def cache_pushed_def alist_simps)
  ultimately show ?thesis using None by (simp add: blob_cache_get_def cache_insert_cases)
qed (simp add: blob_cache_get_def cache_insert_cases)

text \<open>The cache as the code fills it: every content under its own digest.\<close>

definition cache_put :: "prims \<Rightarrow> bytes \<Rightarrow> blob_cache \<Rightarrow> blob_cache" where
  "cache_put P data g = blob_cache_insert (sha256_hex P data) data g"

definition cache_addressed :: "prims \<Rightarrow> blob_cache \<Rightarrow> bool" where
  "cache_addressed P g \<longleftrightarrow>
     cache_inv g \<and> (\<forall>(k, b) \<in> set (bc_map g). k = sha256_hex P b)"

lemma cache_addressed_get:
  "cache_addressed P g \<Longrightarrow> blob_cache_get k g = Some b \<Longrightarrow> k = sha256_hex P b"
  by (auto simp: cache_addressed_def blob_cache_get_def dest!: map_of_SomeD)

lemma cache_put_addressed:
  assumes "cache_addressed P g"
  shows "cache_addressed P (cache_put P data g)"
proof -
  let ?k = "sha256_hex P data" and ?g = "cache_put P data g"
  have inv: "cache_inv ?g" using assms cache_insert_inv by (simp add: cache_addressed_def cache_put_def)
  have "k = sha256_hex P b" if "(k, b) \<in> set (bc_map ?g)" for k b
  proof -
    have get: "blob_cache_get k ?g = Some b"
      using that inv by (simp add: blob_cache_get_def cache_inv_def cache_agree_def map_of_eq_Some_iff)
    show ?thesis
    proof (cases "k = ?k")
      case True
      have "blob_cache_get ?k ?g = Some b" using get True by simp
      then show ?thesis
        using cache_addressed_get [OF assms] cache_put_value [of g ?k data b] assms True
        by (auto simp: cache_addressed_def cache_put_def)
    next
      case False
      then have "blob_cache_get k g = Some b"
        using cache_insert_other get assms by (simp add: cache_put_def cache_addressed_def)
      with assms show ?thesis by (rule cache_addressed_get)
    qed
  qed
  with inv show ?thesis by (auto simp: cache_addressed_def)
qed

interpretation cache: content_store "cache_put P" "cache_addressed P" blob_cache_get
  "\<lambda>k b. k = sha256_hex P b" bc_bytes "\<lambda>_. BLOB_CACHE_MAX_BYTES" for P
proof
  show "cache_addressed P (cache_put P e s)" if "cache_addressed P s" for s e
    using that by (rule cache_put_addressed)
  show "k = sha256_hex P b" if "cache_addressed P s" "blob_cache_get k s = Some b" for s k b
    using that by (rule cache_addressed_get)
  show "bc_bytes s \<le> BLOB_CACHE_MAX_BYTES" if "cache_addressed P s" for s
    using that by (simp add: cache_addressed_def cache_inv_def cache_over_def)
qed

section \<open>The properties\<close>

text \<open>
  The cache stays within its bounds. After any inserts, under any keys and of any sizes, it
  holds at most 64 MiB in at most 32 entries, its byte counter is the sum of what it holds, and it
  holds nothing that was not inserted under that key.
\<close>

lemma cache_run:
  "cache_inv g \<Longrightarrow> cache_inv (fold (\<lambda>(k, b). blob_cache_insert k b) es g)
     \<and> set (bc_map (fold (\<lambda>(k, b). blob_cache_insert k b) es g)) \<subseteq> set (bc_map g) \<union> set es"
proof (induction es arbitrary: g)
  case (Cons e es)
  obtain k b where e: "e = (k, b)" by fastforce
  have inv: "cache_inv (blob_cache_insert k b g)" using Cons.prems by (rule cache_insert_inv)
  have "set (bc_map (blob_cache_insert k b g)) \<subseteq> insert (k, b) (set (bc_map g))"
  proof clarify
    fix k' b' assume a: "(k', b') \<in> set (bc_map (blob_cache_insert k b g))" "(k', b') \<notin> set (bc_map g)"
    have get: "blob_cache_get k' (blob_cache_insert k b g) = Some b'"
      using a(1) inv by (simp add: blob_cache_get_def cache_inv_def cache_agree_def map_of_eq_Some_iff)
    have "blob_cache_get k' g \<noteq> Some b'" using a(2) by (auto simp: blob_cache_get_def dest: map_of_SomeD)
    with get Cons.prems show "k' = k \<and> b' = b"
      using cache_insert_other cache_put_value by metis
  qed
  with Cons.IH [OF inv] show ?case by (auto simp: e)
qed simp

theorem blob_cache_bounded:
  "let g = fold (\<lambda>(k, b). blob_cache_insert k b) es blob_cache_new
   in bc_bytes g = map_bytes (\<lambda>b. b) (bc_map g) \<and> bc_bytes g \<le> 64 * 1024 * 1024
      \<and> length (bc_map g) \<le> 32 \<and> set (bc_map g) \<subseteq> set es"
  using cache_run [OF cache_inv_new, of es]
  by (simp add: Let_def cache_inv_def cache_agree_def cache_over_def blob_cache_new_def
      BLOB_CACHE_MAX_BYTES_def BLOB_CACHE_MAX_ENTRIES_def)

text \<open>
  Eviction is oldest first and no more than needed. An insert keeps every entry that is newer
  than some entry it keeps, drops an entry only if keeping it too would break a cap, and what was
  just inserted (if it fits at all) is there.
\<close>

theorem blob_cache_insert_spec:
  assumes "cache_inv g" and "blob_cache_get sha g = None" and "length data \<le> BLOB_CACHE_MAX_BYTES"
  shows "blob_cache_get sha (blob_cache_insert sha data g) = Some data
     \<and> (\<exists>dropped kept. bc_order g = dropped @ kept \<and> bc_order (blob_cache_insert sha data g) = kept @ [sha]
          \<and> (\<forall>k \<in> set kept. blob_cache_get k (blob_cache_insert sha data g) = blob_cache_get k g)
          \<and> (dropped = [] \<or> (\<exists>v. blob_cache_get (last dropped) g = Some v
               \<and> (bc_bytes (blob_cache_insert sha data g) + length v > BLOB_CACHE_MAX_BYTES
                  \<or> Suc (length (bc_map (blob_cache_insert sha data g))) > BLOB_CACHE_MAX_ENTRIES))))"
proof -
  let ?g' = "blob_cache_insert sha data g"
  have none: "map_of (bc_map g) sha = None" using assms(2) by (simp add: blob_cache_get_def)
  have new: "sha \<notin> set (bc_order g)"
    using assms(1) none by (simp add: cache_inv_def cache_agree_def map_of_eq_None_iff)
  have got: "blob_cache_get sha ?g' = Some data"
    using cache_get_insert [OF assms(1,3), of sha] assms(2) by simp
  obtain dropped where m: "map_of (bc_map ?g') = ((map_of (bc_map g))(sha \<mapsto> data)) |` (- set dropped)"
    and ev: "evicts_to (cache_pushed sha data g) ?g' dropped"
    by (rule cache_insert_map [OF assms(1) none])
  have order: "bc_order g @ [sha] = dropped @ bc_order ?g'"
    using ev by (simp add: evicts_to_def cache_pushed_def)
  have sha: "sha \<notin> set dropped"
  proof
    assume "sha \<in> set dropped"
    then have "blob_cache_get sha ?g' = None" unfolding blob_cache_get_def m by simp
    with got show False by simp
  qed
  then have "bc_order ?g' \<noteq> []" using order by (metis append_Nil2 in_set_conv_decomp)
  then obtain kept where kept: "bc_order ?g' = kept @ [sha]"
    using order by (metis append_butlast_last_id last_appendR last_snoc)
  then have split: "bc_order g = dropped @ kept" using order by simp
  have "distinct (bc_order g)" using assms(1) by (simp add: cache_inv_def cache_agree_def)
  then have disj: "set kept \<inter> set dropped = {}" by (auto simp: split)
  have "\<forall>k \<in> set kept. blob_cache_get k ?g' = blob_cache_get k g"
    unfolding blob_cache_get_def m using disj new split by (auto simp: restrict_map_def)
  moreover have "dropped = [] \<or> (\<exists>v. blob_cache_get (last dropped) g = Some v
               \<and> (bc_bytes ?g' + length v > BLOB_CACHE_MAX_BYTES \<or> Suc (length (bc_map ?g')) > BLOB_CACHE_MAX_ENTRIES))"
  proof (cases "dropped = []")
    case False
    then have "last dropped \<noteq> sha" using sha by (metis last_in_set)
    then show ?thesis
      using ev False by (auto simp: evicts_to_def cache_pushed_def alist_simps blob_cache_get_def)
  qed simp
  ultimately show ?thesis using got split kept by blast
qed

theorem blob_cache_insert_spec_witness:
  "blob_cache_get (lit ''h'') (blob_cache_insert (lit ''h'') [7] blob_cache_new) = Some [7]"
  using blob_cache_insert_spec [OF cache_inv_new, of "lit ''h''" "[7]"]
  by (simp add: blob_cache_get_def [of _ blob_cache_new] blob_cache_new_def [THEN arg_cong [of _ _ bc_map]]
      BLOB_CACHE_MAX_BYTES_def)

end
