(* ===== verification/LanTransfer.thy ===== *)
theory LanTransfer
  imports LanFrame BlobCache
begin

text \<open>
  The byte transfers of \<^verbatim>\<open>core/src/lan.rs\<close> over one dedicated stream: sending a file, receiving
  an offered file, and the blob exchange. Each handler is a function of the stream (and of the
  file system where it touches it); its loops end because every frame read shortens the input.
\<close>

record send_file_request =
  sr_source :: str
  sr_source_name :: str
  sr_target :: str
  sr_path :: path
  sr_mime :: "str option"
  sr_config :: file_transfer_config

section \<open>Sending a file\<close>

text \<open>Waiting for the answer to an offer; pings and repeated hellos are skipped.\<close>

function await_accept :: "codec \<Rightarrow> bytes \<Rightarrow> str \<Rightarrow> conn \<Rightarrow> (lan_error + unit) \<times> conn" where
  "await_accept C key tid c =
     (case read_frame C key c of
        (Inl e, c') \<Rightarrow> (Inl e, c')
      | (Inr None, c') \<Rightarrow>
          (Inl (LanFile (Canceled (lit ''peer closed before accepting file offer''))), c')
      | (Inr (Some m), c') \<Rightarrow>
          (case m of
             FileAccept t \<Rightarrow>
               if t = tid then (Inr (), c')
               else (Inl (LanFile (UnexpectedFrame (frame_label m))), c')
           | FileReject t reason \<Rightarrow> (Inl (LanFile (Rejected reason)), c')
           | Ping \<Rightarrow> await_accept C key tid c'
           | Hello d v n \<Rightarrow> await_accept C key tid c'
           | _ \<Rightarrow> (Inl (LanFile (UnexpectedFrame (frame_label m))), c')))"
  by pat_completeness auto
termination
  by (relation "measure (\<lambda>(C, key, tid, c). length (c_in c))") (auto dest!: read_frame_shrinks [OF sym])

declare await_accept.simps [simp del]

function send_chunks ::
  "codec \<Rightarrow> fs \<Rightarrow> bytes \<Rightarrow> nat \<Rightarrow> outgoing_file \<Rightarrow> conn \<Rightarrow> (lan_error + nat) \<times> conn" where
  "send_chunks C fs key offset og c =
     (case read_chunk fs og of
        Inl e \<Rightarrow> (Inl (LanFile e), c)
      | Inr (buf, og') \<Rightarrow>
          if buf = [] then (Inr offset, c)
          else
            (case write_frame C key (FileChunk (fo_transfer_id (og_offer og)) offset buf) c of
               (Inl e, c') \<Rightarrow> (Inl e, c')
             | (Inr _, c') \<Rightarrow> send_chunks C fs key (offset + length buf) og' c'))"
  by pat_completeness auto
termination
  by (relation "measure (\<lambda>(C, fs, key, offset, og, c). length (og_rest og))")
    (auto simp: read_chunk_def split: if_splits)

declare send_chunks.simps [simp del]

definition send_file_to_stream ::
  "codec \<Rightarrow> fs \<Rightarrow> str \<Rightarrow> bytes \<Rightarrow> send_file_request \<Rightarrow> conn \<Rightarrow> (lan_error + sent_file) \<times> conn" where
  "send_file_to_stream C fs uuid key request c =
     (case outgoing_open (crypto C) fs uuid (sr_source request) (sr_target request)
             (sr_path request) (sr_mime request) (sr_config request) of
        Inl e \<Rightarrow> (Inl (LanFile e), c)
      | Inr og \<Rightarrow>
          (let offer = og_offer og in
           then_c (write_hello C key (sr_source request) (sr_source_name request) c) (\<lambda>_ c.
           then_c (read_hello C key c) (\<lambda>(peer_device_id, _) c.
           if peer_device_id \<noteq> sr_target request
           then (Inl (LanFile (PeerMismatch (sr_target request) peer_device_id)), c)
           else
             then_c (write_frame C key (FileOfferMsg offer) c) (\<lambda>_ c.
             then_c (await_accept C key (fo_transfer_id offer) c) (\<lambda>_ c.
             then_c (send_chunks C fs key 0 og c) (\<lambda>offset c.
             then_c (write_frame C key (FileComplete (fo_transfer_id offer)) c) (\<lambda>_ c.
               (Inr \<lparr>sf_transfer_id = fo_transfer_id offer, sf_file_name = fo_file_name offer,
                     sf_bytes_sent = offset, sf_sha256_hex = fo_sha256_hex offer\<rparr>, c)))))))))"

text \<open>
  Dialing: each candidate address connects (giving a stream), is refused, or times out; the
  first that connects is used.
\<close>

datatype 'a dial = Connected 'a | Refused | DialTimeout

fun dial_first :: "('k \<Rightarrow> 'a dial) \<Rightarrow> 'k list \<Rightarrow> 'a option" where
  "dial_first connect [] = None"
| "dial_first connect (cand # cands) =
     (case connect cand of
        Connected s \<Rightarrow> Some s
      | Refused \<Rightarrow> dial_first connect cands
      | DialTimeout \<Rightarrow> dial_first connect cands)"

lemma dial_first_None:
  "dial_first connect cands = None \<longleftrightarrow> (\<forall>cand\<in>set cands. \<forall>s. connect cand \<noteq> Connected s)"
  by (induction cands) (auto split: dial.splits)

lemma dial_first_Some:
  "dial_first connect cands = Some s \<Longrightarrow>
     \<exists>pre cand post. cands = pre @ cand # post \<and> connect cand = Connected s
        \<and> (\<forall>p\<in>set pre. \<forall>s. connect p \<noteq> Connected s)"
proof (induction cands)
  case (Cons a cands)
  show ?case
  proof (cases "connect a")
    case (Connected s')
    with Cons.prems show ?thesis by (intro exI [of _ "[]"]) auto
  next
    case Refused
    with Cons obtain pre cand post where "cands = pre @ cand # post" "connect cand = Connected s"
      "\<forall>p\<in>set pre. \<forall>s. connect p \<noteq> Connected s" by auto
    with Refused show ?thesis by (intro exI [of _ "a # pre"] exI [of _ cand] exI [of _ post]) simp
  next
    case DialTimeout
    with Cons obtain pre cand post where "cands = pre @ cand # post" "connect cand = Connected s"
      "\<forall>p\<in>set pre. \<forall>s. connect p \<noteq> Connected s" by auto
    with DialTimeout show ?thesis by (intro exI [of _ "a # pre"] exI [of _ cand] exI [of _ post]) simp
  qed
qed simp

text \<open>Only the error is kept of a failed send: the stream is dropped with it.\<close>

definition send_file_to_candidates ::
  "codec \<Rightarrow> fs \<Rightarrow> str \<Rightarrow> ('k \<Rightarrow> conn dial) \<Rightarrow> 'k list \<Rightarrow> bytes \<Rightarrow> send_file_request
     \<Rightarrow> (lan_error + sent_file) \<times> conn option" where
  "send_file_to_candidates C fs uuid connect cands key request =
     (case dial_first connect cands of
        None \<Rightarrow> (Inl (LanIo (lit ''no advertised address was reachable for file transfer'')), None)
      | Some c \<Rightarrow>
          (case send_file_to_stream C fs uuid key request c of (r, c') \<Rightarrow> (r, Some c')))"

definition lan_send_file ::
  "codec \<Rightarrow> fs \<Rightarrow> str \<Rightarrow> ('k \<Rightarrow> conn dial) \<Rightarrow> 'k list \<Rightarrow> bytes \<Rightarrow> send_file_request
     \<Rightarrow> (lan_error + sent_file) \<times> conn option" where
  "lan_send_file C fs uuid connect cands key request =
     (if cands = [] then (Inl (LanIo (lit ''no LAN candidates for file transfer'')), None)
      else send_file_to_candidates C fs uuid connect cands key request)"

section \<open>Receiving a file\<close>

text \<open>The loop over chunks; the writer is dropped on every path out of it.\<close>

function receive_chunks ::
  "codec \<Rightarrow> bytes \<Rightarrow> incoming_file \<Rightarrow> fs \<Rightarrow> conn \<Rightarrow> (lan_error + received_file) \<times> fs \<times> conn" where
  "receive_chunks C key w fs c =
     (case read_frame C key c of
        (Inl e, c') \<Rightarrow> (Inl e, drop_writer w fs, c')
      | (Inr None, c') \<Rightarrow>
          (Inl (LanFile (Canceled (lit ''peer closed before file transfer completed''))),
           drop_writer w fs, c')
      | (Inr (Some m), c') \<Rightarrow>
          (case m of
             FileChunk tid offset data \<Rightarrow>
               if tid \<noteq> fo_transfer_id (in_offer w)
               then (Inl (LanFile (UnexpectedFrame (frame_label m))), drop_writer w fs, c')
               else
                 (case write_chunk offset data w fs of
                    (Inl e, w', fs') \<Rightarrow>
                      (Inl (LanFile e), drop_writer w' fs',
                       snd (write_frame C key (FileCancel tid (ft_error_text e)) c'))
                  | (Inr _, w', fs') \<Rightarrow> receive_chunks C key w' fs' c')
           | FileComplete tid \<Rightarrow>
               if tid \<noteq> fo_transfer_id (in_offer w)
               then (Inl (LanFile (UnexpectedFrame (frame_label m))), drop_writer w fs, c')
               else (case finish (crypto C) w fs of (r, fs') \<Rightarrow> (map_err LanFile r, fs', c'))
           | FileCancel tid reason \<Rightarrow> (Inl (LanFile (Canceled reason)), drop_writer w fs, c')
           | _ \<Rightarrow> (Inl (LanFile (UnexpectedFrame (frame_label m))), drop_writer w fs, c')))"
  by pat_completeness auto
termination
  by (relation "measure (\<lambda>(C, key, w, fs, c). length (c_in c))") (auto dest!: read_frame_shrinks [OF sym])

declare receive_chunks.simps [simp del]

definition receive_offered_file ::
  "codec \<Rightarrow> bytes \<Rightarrow> str \<Rightarrow> str \<Rightarrow> str \<Rightarrow> file_transfer_config \<Rightarrow> file_offer \<Rightarrow> fs \<Rightarrow> conn
     \<Rightarrow> (lan_error + received_file) \<times> fs \<times> conn" where
  "receive_offered_file C key self_id peer_id dir config offer fs c =
     (let reject = (\<lambda>reason err.
            (case reject_file_offer C key (fo_transfer_id offer) reason c of
               (Inl e, c') \<Rightarrow> (Inl e, fs, c')
             | (Inr _, c') \<Rightarrow> (Inl (LanFile err), fs, c')))
      in if fo_target offer \<noteq> self_id
         then reject (lit ''file offer targeted a different device'')
                (PeerMismatch self_id (fo_target offer))
         else if fo_source offer \<noteq> peer_id
         then reject (lit ''file offer source did not match handshake'')
                (PeerMismatch peer_id (fo_source offer))
         else
           (case incoming_accept fs offer dir config of
              (Inl e, fs') \<Rightarrow>
                (case reject_file_offer C key (fo_transfer_id offer) (ft_error_text e) c of
                   (Inl e', c') \<Rightarrow> (Inl e', fs', c')
                 | (Inr _, c') \<Rightarrow> (Inl (LanFile e), fs', c'))
            | (Inr w, fs') \<Rightarrow>
                (case write_frame C key (FileAccept (fo_transfer_id offer)) c of
                   (Inl e, c') \<Rightarrow> (Inl e, drop_writer w fs', c')
                 | (Inr _, c') \<Rightarrow> receive_chunks C key w fs' c')))"

definition receive_file_from_stream ::
  "codec \<Rightarrow> bytes \<Rightarrow> str \<Rightarrow> str \<Rightarrow> str \<Rightarrow> file_transfer_config \<Rightarrow> fs \<Rightarrow> conn
     \<Rightarrow> (lan_error + received_file) \<times> fs \<times> conn" where
  "receive_file_from_stream C key self_id self_name dir config fs c =
     (case write_hello C key self_id self_name c of
        (Inl e, c1) \<Rightarrow> (Inl e, fs, c1)
      | (Inr _, c1) \<Rightarrow>
          (case read_hello C key c1 of
             (Inl e, c2) \<Rightarrow> (Inl e, fs, c2)
           | (Inr (peer_id, _), c2) \<Rightarrow>
               (case read_frame C key c2 of
                  (Inl e, c3) \<Rightarrow> (Inl e, fs, c3)
                | (Inr None, c3) \<Rightarrow>
                    (Inl (LanFile (Canceled (lit ''peer closed before sending file offer''))), fs, c3)
                | (Inr (Some m), c3) \<Rightarrow>
                    (case m of
                       FileOfferMsg offer \<Rightarrow>
                         receive_offered_file C key self_id peer_id dir config offer fs c3
                     | other \<Rightarrow> (Inl (LanFile (UnexpectedFrame (frame_label other))), fs, c3)))))"

section \<open>What the two sides exchange\<close>

text \<open>The chunk messages of a content, cut into pieces of at most \<open>k\<close> bytes.\<close>

function chunk_msgs :: "str \<Rightarrow> nat \<Rightarrow> nat \<Rightarrow> bytes \<Rightarrow> lan_message list" where
  "chunk_msgs tid k offset rest =
     (if take k rest = [] then []
      else FileChunk tid offset (take k rest)
             # chunk_msgs tid k (offset + length (take k rest)) (drop k rest))"
  by pat_completeness auto
termination
  by (relation "measure (\<lambda>(tid, k, offset, rest). length rest)") auto

declare chunk_msgs.simps [simp del]

lemma send_chunks_sent:
  assumes "codec_contract C" and "nonces_ok c" and "send_chunks C fs key offset og c = (Inr n, c')"
    and "0 < og_chunk_bytes og"
  shows "\<exists>frames. list_all2 (frame_of C key)
            (chunk_msgs (fo_transfer_id (og_offer og)) (og_chunk_bytes og) offset (og_rest og)) frames
          \<and> c_out c' = c_out c @ concat frames \<and> n = offset + length (og_rest og)
          \<and> nonces_ok c'"
  using assms
proof (induction C fs key offset og c rule: send_chunks.induct)
  case (1 C fs key offset og c)
  let ?k = "og_chunk_bytes og" and ?tid = "fo_transfer_id (og_offer og)"
  let ?og = "og\<lparr>og_rest := drop ?k (og_rest og)\<rparr>"
  have read: "read_chunk fs og = Inr (take ?k (og_rest og), ?og)"
    using "1.prems"(3) by (auto simp: send_chunks.simps [of C fs key offset og c] read_chunk_def split: if_splits)
  show ?case
  proof (cases "take ?k (og_rest og) = []")
    case True
    then show ?thesis
      using "1.prems" by (subst chunk_msgs.simps) (auto simp: send_chunks.simps [of C fs key offset og c] read)
  next
    case False
    from "1.prems"(3) False obtain c1 where
      w: "write_frame C key (FileChunk ?tid offset (take ?k (og_rest og))) c = (Inr (), c1)"
      and rec: "send_chunks C fs key (offset + length (take ?k (og_rest og))) ?og c1 = (Inr n, c')"
      by (subst (asm) send_chunks.simps) (auto simp: read split: prod.splits sum.splits)
    from write_frame_Inr [OF "1.prems"(1,2) w] obtain f where
      f: "frame_of C key (FileChunk ?tid offset (take ?k (og_rest og))) f"
      and c1: "c1 = c\<lparr>c_out := c_out c @ f, c_drawn := Suc (c_drawn c)\<rparr>" .
    have "nonces_ok c1" using "1.prems"(2) by (simp add: c1 nonces_ok_def)
    from "1.IH" [OF read refl False w [symmetric] refl "1.prems"(1) this rec] "1.prems"(4)
    obtain frames where
      fr: "list_all2 (frame_of C key) (chunk_msgs ?tid ?k (offset + length (take ?k (og_rest og)))
             (drop ?k (og_rest og))) frames"
      and out: "c_out c' = c_out c1 @ concat frames" and ok': "nonces_ok c'"
      and n: "n = offset + length (take ?k (og_rest og)) + length (drop ?k (og_rest og))"
      by auto
    have "list_all2 (frame_of C key) (chunk_msgs ?tid ?k offset (og_rest og)) (f # frames)"
      using fr f False by (subst chunk_msgs.simps) simp
    moreover have "c_out c' = c_out c @ concat (f # frames)" using out by (simp add: c1)
    moreover have "n = offset + length (og_rest og)" using n by simp
    ultimately show ?thesis using ok' by blast
  qed
qed

lemma receive_chunks_all:
  assumes "list_all2 (frame_of C key) (chunk_msgs tid k offset data @ [FileComplete tid]) frames"
    and "c_in c = concat frames @ rest" and "writer_inv fs0 w fs" and "0 < k"
    and "fo_transfer_id (in_offer w) = tid" and "in_written w = offset"
    and "offset + length data = fo_size_bytes (in_offer w)"
    and "\<forall>n. \<not> fs_faults fs (FWrite (in_part_path w) n)"
  shows "\<exists>w' fs' c'. receive_chunks C key w fs c =
            (case finish (crypto C) w' fs' of (r, fs'') \<Rightarrow> (map_err LanFile r, fs'', c'))
          \<and> writer_inv fs0 w' fs' \<and> in_hasher w' = in_hasher w @ data
          \<and> in_written w' = fo_size_bytes (in_offer w') \<and> in_offer w' = in_offer w
          \<and> in_final_path w' = in_final_path w \<and> in_part_path w' = in_part_path w
          \<and> c_out c' = c_out c \<and> c_in c' = rest"
  using assms
proof (induction tid k offset data arbitrary: frames c w fs rule: chunk_msgs.induct)
  case (1 tid k offset data)
  show ?case
  proof (cases "take k data = []")
    case True
    then have data: "data = []" using "1.prems"(4) by simp
    from True "1.prems"(1) obtain f where f: "frame_of C key (FileComplete tid) f" "frames = [f]"
      by (subst (asm) chunk_msgs.simps) (auto simp: list_all2_Cons1)
    have "read_frame C key c = (Inr (Some (FileComplete tid)), c\<lparr>c_in := rest\<rparr>)"
      using read_frame_frame_of [OF f(1)] "1.prems"(2) f(2) by simp
    then have "receive_chunks C key w fs c =
        (case finish (crypto C) w fs of (r, fs'') \<Rightarrow> (map_err LanFile r, fs'', c\<lparr>c_in := rest\<rparr>))"
      using "1.prems"(5) by (subst receive_chunks.simps) simp
    then show ?thesis
      using "1.prems" data
      by (intro exI [of _ w] exI [of _ fs] exI [of _ "c\<lparr>c_in := rest\<rparr>"]) auto
  next
    case False
    let ?d = "take k data"
    from False "1.prems"(1) obtain f frames' where
      f: "frame_of C key (FileChunk tid offset ?d) f" "frames = f # frames'"
      and fr: "list_all2 (frame_of C key)
                 (chunk_msgs tid k (offset + length ?d) (drop k data) @ [FileComplete tid]) frames'"
      by (subst (asm) chunk_msgs.simps) (auto simp: list_all2_Cons1)
    let ?c = "c\<lparr>c_in := concat frames' @ rest\<rparr>"
    have rd: "read_frame C key c = (Inr (Some (FileChunk tid offset ?d)), ?c)"
      using read_frame_frame_of [OF f(1)] "1.prems"(2) f(2) by simp
    let ?w = "w\<lparr>in_hasher := in_hasher w @ ?d, in_written := in_written w + length ?d\<rparr>"
    have bound: "in_written w + length ?d \<le> fo_size_bytes (in_offer w)"
      using "1.prems"(6,7) by simp
    from write_chunk_ok [OF "1.prems"(3) _ bound] "1.prems"(8)
    obtain fs1 where wc: "write_chunk offset ?d w fs = (Inr (), ?w, fs1)"
      using "1.prems"(6) by auto
    have inv1: "writer_inv fs0 ?w fs1" by (rule write_chunk_inv [OF "1.prems"(3) wc])
    have faults: "fs_faults fs1 = fs_faults fs"
      using inv1 "1.prems"(3) by (simp add: writer_inv_def)
    have step: "receive_chunks C key w fs c = receive_chunks C key ?w fs1 ?c"
      using rd wc "1.prems"(5) by (subst receive_chunks.simps) simp
    have "\<exists>w' fs' c'. receive_chunks C key ?w fs1 ?c =
            (case finish (crypto C) w' fs' of (r, fs'') \<Rightarrow> (map_err LanFile r, fs'', c'))
          \<and> writer_inv fs0 w' fs' \<and> in_hasher w' = in_hasher ?w @ drop k data
          \<and> in_written w' = fo_size_bytes (in_offer w') \<and> in_offer w' = in_offer ?w
          \<and> in_final_path w' = in_final_path ?w \<and> in_part_path w' = in_part_path ?w
          \<and> c_out c' = c_out ?c \<and> c_in c' = rest"
      using "1.prems" by (intro "1.IH" [OF False fr _ inv1]) (auto simp: faults)
    then show ?thesis unfolding step by simp
  qed
qed

text \<open>
  What a received file stands for: exactly one new entry, whose bytes have the size and the
  digest of the offer.
\<close>

definition delivered :: "prims \<Rightarrow> fs \<Rightarrow> file_offer \<Rightarrow> received_file \<Rightarrow> fs \<Rightarrow> bool" where
  "delivered P fs0 offer rf fs' \<longleftrightarrow>
     (\<exists>b m. fs_entries fs' = (fs_entries fs0)(rf_path rf \<mapsto> FFile b m)
        \<and> length b = rf_size_bytes rf \<and> sha256_hex P b = rf_sha256_hex rf)
     \<and> rf_size_bytes rf = fo_size_bytes offer \<and> rf_sha256_hex rf = fo_sha256_hex offer
     \<and> rf_transfer_id rf = fo_transfer_id offer \<and> rf_file_name rf = fo_file_name offer"

lemma receive_chunks_result:
  assumes "writer_inv fs0 w fs" and "receive_chunks C key w fs c = (r, fs', c')"
  shows "case r of
      Inl e \<Rightarrow> fs_entries fs' = fs_entries fs0
    | Inr rf \<Rightarrow> rf_path rf = in_final_path w \<and> delivered (crypto C) fs0 (in_offer w) rf fs'"
  using assms
proof (induction C key w fs c arbitrary: r rule: receive_chunks.induct)
  case (1 C key w fs c)
  have drop_w: "fs_entries (drop_writer w fs) = fs_entries fs0"
    by (rule drop_writer_restores [OF "1.prems"(1)])
  obtain rm c1 where rd: "read_frame C key c = (rm, c1)" by fastforce
  consider (chunk) offset data where "rm = Inr (Some (FileChunk (fo_transfer_id (in_offer w)) offset data))"
    | (complete) "rm = Inr (Some (FileComplete (fo_transfer_id (in_offer w))))"
    | (other) "(\<forall>offset data. rm \<noteq> Inr (Some (FileChunk (fo_transfer_id (in_offer w)) offset data)))
        \<and> rm \<noteq> Inr (Some (FileComplete (fo_transfer_id (in_offer w))))"
    by blast
  then show ?case
  proof cases
    case chunk
    obtain wr w' fs1 where wc: "write_chunk offset data w fs = (wr, w', fs1)" by (cases "write_chunk offset data w fs") auto
    have inv': "writer_inv fs0 w' fs1" by (rule write_chunk_inv [OF "1.prems"(1) wc])
    show ?thesis
    proof (cases wr)
      case (Inl e)
      with chunk rd wc "1.prems"(2) have "(r, fs', c') = (Inl (LanFile e), drop_writer w' fs1,
          snd (write_frame C key (FileCancel (fo_transfer_id (in_offer w)) (ft_error_text e)) c1))"
        by (subst (asm) receive_chunks.simps) simp
      then show ?thesis using drop_writer_restores [OF inv'] by simp
    next
      case (Inr u)
      with chunk rd wc "1.prems"(2) have rec: "receive_chunks C key w' fs1 c1 = (r, fs', c')"
        by (subst (asm) receive_chunks.simps) simp
      have "case r of
          Inl e \<Rightarrow> fs_entries fs' = fs_entries fs0
        | Inr rf \<Rightarrow> rf_path rf = in_final_path w' \<and> delivered (crypto C) fs0 (in_offer w') rf fs'"
        using "1.IH" [OF rd [symmetric] chunk refl refl _ wc [symmetric] Inr refl inv' rec] by simp
      then show ?thesis using write_chunk_frame [OF wc] by (auto split: sum.splits)
    qed
  next
    case complete
    obtain fr fs1 where fin: "finish (crypto C) w fs = (fr, fs1)" by fastforce
    with complete rd "1.prems"(2) have res: "r = map_err LanFile fr" "fs' = fs1"
      by (auto simp: receive_chunks.simps [of C key w fs c])
    show ?thesis
    proof (cases fr)
      case (Inl e)
      then show ?thesis using finish_Inl [OF "1.prems"(1)] fin res by simp
    next
      case (Inr rf)
      note f = finish_Inr [OF "1.prems"(1) fin [unfolded Inr]]
      obtain m where "fs_entries fs1 (rf_path rf) = Some (FFile (in_hasher w) m)"
        using f(1) by (auto simp: fs_content_def split: option.splits fs_entry.splits)
      then have "delivered (crypto C) fs0 (in_offer w) rf fs1"
        using f by (auto simp: delivered_def)
      then show ?thesis using f(4) res Inr by simp
    qed
  next
    case other
    then have "\<exists>e. r = Inl e \<and> fs' = drop_writer w fs"
      using rd "1.prems"(2)
      by (auto simp: receive_chunks.simps [of C key w fs c] split: sum.splits option.splits lan_message.splits if_splits)
    then show ?thesis using drop_w by auto
  qed
qed

lemma read_hello_frame:
  "read_hello C key c = (r, c') \<Longrightarrow> c_out c' = c_out c \<and> c_nonces c' = c_nonces c \<and> c_limit c' = c_limit c"
  by (auto simp: read_hello_def dest!: read_frame_frame
      split: prod.splits sum.splits option.splits lan_message.splits)

lemma await_accept_frame:
  "await_accept C key tid c = (r, c') \<Longrightarrow>
     c_out c' = c_out c \<and> c_nonces c' = c_nonces c \<and> c_limit c' = c_limit c"
proof (induction C key tid c rule: await_accept.induct)
  case (1 C key tid c)
  obtain rm c1 where rd: "read_frame C key c = (rm, c1)" by fastforce
  show ?case
    using "1.IH" [OF rd [symmetric]] "1.prems" read_frame_frame [OF rd]
    by (subst (asm) await_accept.simps)
      (auto simp: rd split: sum.splits option.splits lan_message.splits if_splits)
qed

section \<open>The receiver\<close>

lemma receive_offered_result:
  assumes "receive_offered_file C key self_id peer_id dir config offer fs c = (r, fs', c')"
    and "max_file_bytes config < U64_MAX"
  shows "case r of
      Inl e \<Rightarrow> fs_entries fs' = fs_entries fs
    | Inr rf \<Rightarrow> fst (rf_path rf) = dir \<and> \<not> fs_exists fs (rf_path rf) \<and> safe_file_name (snd (rf_path rf))
        \<and> fo_target offer = self_id \<and> fo_source offer = peer_id
        \<and> fo_size_bytes offer \<le> max_file_bytes config \<and> delivered (crypto C) fs offer rf fs'"
proof (cases "fo_target offer \<noteq> self_id \<or> fo_source offer \<noteq> peer_id")
  case True
  then show ?thesis using assms(1)
    by (auto simp: receive_offered_file_def Let_def split: prod.splits sum.splits if_splits)
next
  case False
  obtain ra fs1 where acc: "incoming_accept fs offer dir config = (ra, fs1)" by fastforce
  show ?thesis
  proof (cases ra)
    case (Inl e)
    then have "fs1 = fs" using acc by (auto simp: incoming_accept_def Let_def split: sum.splits if_splits)
    then show ?thesis using assms(1) False acc Inl
      by (auto simp: receive_offered_file_def Let_def split: prod.splits sum.splits)
  next
    case (Inr w)
    note a = accept_inv [OF acc [unfolded Inr] assms(2)]
    obtain wr c1 where wf: "write_frame C key (FileAccept (fo_transfer_id offer)) c = (wr, c1)" by fastforce
    show ?thesis
    proof (cases wr)
      case (Inl e)
      then show ?thesis using assms(1) False acc Inr wf drop_writer_restores [OF a(1)]
        by (auto simp: receive_offered_file_def Let_def)
    next
      case (Inr u)
      have rec: "receive_chunks C key w fs1 c1 = (r, fs', c')"
        using assms(1) False acc \<open>ra = Inr w\<close> wf Inr by (simp add: receive_offered_file_def Let_def)
      have fresh: "\<not> fs_exists fs (in_final_path w)"
        using a(1) by (simp add: writer_inv_def fs_exists_def)
      have le: "fo_size_bytes offer \<le> max_file_bytes config"
        using a(5) by (auto simp: validate_offer_def split: if_splits)
      have "safe_file_name (snd (in_final_path w))"
        using accept_final_safe [OF acc [unfolded \<open>ra = Inr w\<close>]] .
      then show ?thesis
        using receive_chunks_result [OF a(1) rec] a(2,3) fresh le False by (auto split: sum.splits)
    qed
  qed
qed

lemma receive_file_result:
  assumes "receive_file_from_stream C key self_id self_name dir config fs c = (r, fs', c')"
    and "max_file_bytes config < U64_MAX"
  shows "case r of
      Inl e \<Rightarrow> fs_entries fs' = fs_entries fs
    | Inr rf \<Rightarrow> fst (rf_path rf) = dir \<and> \<not> fs_exists fs (rf_path rf) \<and> safe_file_name (snd (rf_path rf))
        \<and> (\<exists>offer. fo_size_bytes offer \<le> max_file_bytes config \<and> fo_target offer = self_id
             \<and> delivered (crypto C) fs offer rf fs')"
proof (cases "\<exists>peer_id offer c3. receive_offered_file C key self_id peer_id dir config offer fs c3 = (r, fs', c')")
  case True
  then obtain peer_id offer c3 where
    "receive_offered_file C key self_id peer_id dir config offer fs c3 = (r, fs', c')" by blast
  from receive_offered_result [OF this assms(2)] show ?thesis by (fastforce split: sum.splits)
next
  case False
  then have "(\<exists>e. r = Inl e) \<and> fs' = fs"
    using assms(1)
    by (auto simp: receive_file_from_stream_def split: prod.splits sum.splits option.splits lan_message.splits)
  then show ?thesis by auto
qed

section \<open>End to end\<close>

lemma send_file_sent:
  assumes "codec_contract C" and "nonces_ok c"
    and "send_file_to_stream C fs uuid key request c = (Inr sent, c')"
  obtains og frames where
    "outgoing_open (crypto C) fs uuid (sr_source request) (sr_target request)
       (sr_path request) (sr_mime request) (sr_config request) = Inr og"
    and "list_all2 (frame_of C key)
      ([Hello (sr_source request) PROTO_VERSION (sr_source_name request), FileOfferMsg (og_offer og)]
       @ chunk_msgs (fo_transfer_id (og_offer og)) (og_chunk_bytes og) 0 (og_rest og)
       @ [FileComplete (fo_transfer_id (og_offer og))]) frames"
    and "c_out c' = c_out c @ concat frames" and "sf_bytes_sent sent = length (og_rest og)"
    and "sf_sha256_hex sent = fo_sha256_hex (og_offer og)"
    and "sf_transfer_id sent = fo_transfer_id (og_offer og)"
proof -
  from assms(3) obtain og where og: "outgoing_open (crypto C) fs uuid (sr_source request) (sr_target request)
       (sr_path request) (sr_mime request) (sr_config request) = Inr og"
    by (auto simp: send_file_to_stream_def split: sum.splits)
  from assms(3) obtain c1 pid pname c2 c3 c4 n c5 where
    s1: "write_hello C key (sr_source request) (sr_source_name request) c = (Inr (), c1)"
    and s2: "read_hello C key c1 = (Inr (pid, pname), c2)"
    and s3: "write_frame C key (FileOfferMsg (og_offer og)) c2 = (Inr (), c3)"
    and s4: "await_accept C key (fo_transfer_id (og_offer og)) c3 = (Inr (), c4)"
    and s5: "send_chunks C fs key 0 og c4 = (Inr n, c5)"
    and s6: "write_frame C key (FileComplete (fo_transfer_id (og_offer og))) c5 = (Inr (), c')"
    and sent: "sf_bytes_sent sent = n" "sf_sha256_hex sent = fo_sha256_hex (og_offer og)"
      "sf_transfer_id sent = fo_transfer_id (og_offer og)"
    by (auto simp: send_file_to_stream_def og Let_def split: prod.splits if_splits)
  from write_frame_Inr [OF assms(1,2) s1 [unfolded write_hello_def]] obtain f1 where
    f1: "frame_of C key (Hello (sr_source request) PROTO_VERSION (sr_source_name request)) f1"
    and c1: "c1 = c\<lparr>c_out := c_out c @ f1, c_drawn := Suc (c_drawn c)\<rparr>" .
  have c2: "c_out c2 = c_out c @ f1" "nonces_ok c2"
    using read_hello_frame [OF s2] assms(2) by (simp_all add: c1 nonces_ok_def)
  from write_frame_Inr [OF assms(1) c2(2) s3] obtain f2 where
    f2: "frame_of C key (FileOfferMsg (og_offer og)) f2"
    and c3: "c3 = c2\<lparr>c_out := c_out c2 @ f2, c_drawn := Suc (c_drawn c2)\<rparr>" .
  have c4: "c_out c4 = c_out c @ f1 @ f2" "nonces_ok c4"
    using await_accept_frame [OF s4] c2 by (simp_all add: c3 nonces_ok_def)
  have "0 < og_chunk_bytes og"
    using og bounded_chunk_bytes_range(1) [of "sr_config request"]
    by (auto simp: outgoing_open_def split: if_splits option.splits fs_entry.splits)
  from send_chunks_sent [OF assms(1) c4(2) s5 this] obtain frames where
    fr: "list_all2 (frame_of C key)
          (chunk_msgs (fo_transfer_id (og_offer og)) (og_chunk_bytes og) 0 (og_rest og)) frames"
    and c5: "c_out c5 = c_out c4 @ concat frames" "n = length (og_rest og)" "nonces_ok c5" by auto
  from write_frame_Inr [OF assms(1) c5(3) s6] obtain f3 where
    f3: "frame_of C key (FileComplete (fo_transfer_id (og_offer og))) f3"
    and c6: "c' = c5\<lparr>c_out := c_out c5 @ f3, c_drawn := Suc (c_drawn c5)\<rparr>" .
  show thesis
  proof (rule that [OF og, of "[f1, f2] @ frames @ [f3]"])
    show "list_all2 (frame_of C key)
      ([Hello (sr_source request) PROTO_VERSION (sr_source_name request), FileOfferMsg (og_offer og)]
       @ chunk_msgs (fo_transfer_id (og_offer og)) (og_chunk_bytes og) 0 (og_rest og)
       @ [FileComplete (fo_transfer_id (og_offer og))]) ([f1, f2] @ frames @ [f3])"
      using f1 f2 f3 fr by (auto intro: list_all2_appendI)
    show "c_out c' = c_out c @ concat ([f1, f2] @ frames @ [f3])"
      using c4 c5 c6 by simp
  qed (use sent c5 in simp_all)
qed

text \<open>What an opened file promises about its offer.\<close>

lemma outgoing_open_Inr:
  assumes "outgoing_open P fs uuid source target p mime config = Inr og"
  shows "fs_content fs p = Some (og_rest og)" and "fo_size_bytes (og_offer og) = length (og_rest og)"
    and "fo_sha256_hex (og_offer og) = sha256_hex P (og_rest og)"
    and "fo_source (og_offer og) = source" and "fo_target (og_offer og) = target"
    and "fo_transfer_id (og_offer og) = uuid" and "safe_file_name (fo_file_name (og_offer og))"
    and "og_chunk_bytes og = bounded_chunk_bytes config"
    and "path_file_name p = Some s \<Longrightarrow> sanitize_file_name s = Inr (fo_file_name (og_offer og))"
proof -
  from assms obtain content modified s sha n where e: "fs_entries fs p = Some (FFile content modified)"
    and s: "path_file_name p = Some s" and name: "sanitize_file_name s = Inr n"
    and sha: "sha256_file_hex P fs p = Inr sha"
    and og: "og = \<lparr>og_path = p, og_rest = content,
                og_offer = \<lparr>fo_transfer_id = uuid, fo_source = source, fo_target = target,
                  fo_file_name = n, fo_size_bytes = length content,
                  fo_modified = modified_millis modified, fo_mime_type = mime, fo_sha256_hex = sha\<rparr>,
                og_chunk_bytes = bounded_chunk_bytes config\<rparr>"
    by (auto simp: outgoing_open_def split: if_splits option.splits fs_entry.splits)
  show content: "fs_content fs p = Some (og_rest og)" by (simp add: og fs_content_def e)
  show "fo_sha256_hex (og_offer og) = sha256_hex P (og_rest og)"
    using sha content by (auto simp: sha256_file_hex_Inr og)
  show "safe_file_name (fo_file_name (og_offer og))" using sanitize_safe [OF name] by (simp add: og)
  show "path_file_name p = Some s' \<Longrightarrow> sanitize_file_name s' = Inr (fo_file_name (og_offer og))" for s'
    using s name by (simp add: og)
  show "fo_size_bytes (og_offer og) = length (og_rest og)" "fo_source (og_offer og) = source"
    "fo_target (og_offer og) = target" "fo_transfer_id (og_offer og) = uuid"
    "og_chunk_bytes og = bounded_chunk_bytes config"
    by (simp_all add: og)
qed


lemma hex_valid_sha: "sha_contract P \<Longrightarrow> is_valid_sha256_hex (sha256_hex P b)"
proof -
  assume P: "sha_contract P"
  have lower: "list_all is_lower_hex (sha256_hex P b)" by (rule sha256_hex_lower)
  then have "utf8 (sha256_hex P b) = sha256_hex P b" by (intro utf8_ascii lower_hex_ascii)
  moreover have "list_all is_ascii_hexdigit (sha256_hex P b)"
    using lower by (auto simp: list_all_iff is_lower_hex_def is_ascii_hexdigit_def)
  ultimately show ?thesis
    using sha256_hex_length [OF P] by (simp add: is_valid_sha256_hex_def SHA256_LEN_def)
qed

text \<open>An offer made by \<open>outgoing_open\<close> is accepted when its destination is free.\<close>

lemma accept_ok:
  assumes "sha_contract P" and "outgoing_open P fsA uuid source target p mime cfgA = Inr og"
    and "length (og_rest og) \<le> max_file_bytes config" and "trim uuid \<noteq> []"
    and "\<forall>call. \<not> fs_faults fs call"
    and "unique_destination_path fs dir (fo_file_name (og_offer og)) = Inr dest"
    and "\<not> fs_exists fs (part_path_for dest uuid)"
  shows "\<exists>w fs'. incoming_accept fs (og_offer og) dir config = (Inr w, fs')"
proof -
  note og = outgoing_open_Inr [OF assms(2)]
  have "sanitize_file_name (fo_file_name (og_offer og)) = Inr (fo_file_name (og_offer og))"
    using og(7) by (rule sanitize_safe_id)
  then have "validate_offer (og_offer og) config = Inr ()"
    using assms(3,4) og hex_valid_sha [OF assms(1)] by (simp add: validate_offer_def)
  then show ?thesis
    using assms(5-7) og(6) by (simp add: incoming_accept_def Let_def)
qed

text \<open>The receiver, fed with everything the sender wrote, ends with the sender's content.\<close>

lemma receive_offered_ok:
  assumes C: "codec_contract C" and sha: "sha_contract (crypto C)"
    and "open": "outgoing_open (crypto C) fsA uuid source self_id p mime cfgA = Inr og"
    and fr: "list_all2 (frame_of C key)
         (chunk_msgs uuid (og_chunk_bytes og) 0 (og_rest og) @ [FileComplete uuid]) frames"
    and c: "c_in c = concat frames" "nonces_ok c" "c_limit c = None"
    and size: "length (og_rest og) \<le> max_file_bytes config" "max_file_bytes config < U64_MAX"
    and uuid: "trim uuid \<noteq> []" and faults: "\<forall>call. \<not> fs_faults fs call"
    and dest: "unique_destination_path fs dir (fo_file_name (og_offer og)) = Inr dest"
      "\<not> fs_exists fs (part_path_for dest uuid)"
    and accept: "sendable C key (FileAccept uuid)"
  shows "\<exists>rf fs' c'. receive_offered_file C key self_id source dir config (og_offer og) fs c
             = (Inr rf, fs', c')
           \<and> fs_content fs' (rf_path rf) = Some (og_rest og)
           \<and> (\<exists>fa. frame_of C key (FileAccept uuid) fa \<and> c_out c' = c_out c @ fa)"
proof -
  note og = outgoing_open_Inr [OF "open"]
  obtain w fs1 where acc: "incoming_accept fs (og_offer og) dir config = (Inr w, fs1)"
    using accept_ok [OF sha "open" size(1) uuid faults dest] by blast
  note a = accept_inv [OF acc size(2)]
  have wr: "in_written w = 0" using a(1,4) by (simp add: writer_inv_def)
  have f1: "fs_faults fs1 = fs_faults fs" using a(1) by (simp add: writer_inv_def)
  obtain c1 where w1: "write_frame C key (FileAccept uuid) c = (Inr (), c1)"
    using write_frame_ok [OF C c(2,3) accept] by blast
  have c1: "c_in c1 = concat frames @ []" using write_frame_frame [OF w1] c(1) by simp
  obtain fa where fa: "frame_of C key (FileAccept uuid) fa" "c_out c1 = c_out c @ fa"
    by (rule write_frame_Inr [OF C c(2) w1]) (use that in auto)
  have k: "0 < og_chunk_bytes og" using og(8) bounded_chunk_bytes_range(1) [of cfgA] by simp
  have "\<exists>w' fs' c'. receive_chunks C key w fs1 c1 =
            (case finish (crypto C) w' fs' of (r, fs'') \<Rightarrow> (map_err LanFile r, fs'', c'))
          \<and> writer_inv fs w' fs' \<and> in_hasher w' = in_hasher w @ og_rest og
          \<and> in_written w' = fo_size_bytes (in_offer w') \<and> in_offer w' = in_offer w
          \<and> in_final_path w' = in_final_path w \<and> in_part_path w' = in_part_path w
          \<and> c_out c' = c_out c1 \<and> c_in c' = []"
    by (rule receive_chunks_all [OF fr c1 a(1) k]) (use a og wr faults f1 in auto)
  then obtain w2 fs2 c2 where
    rc: "receive_chunks C key w fs1 c1 =
            (case finish (crypto C) w2 fs2 of (r, fs'') \<Rightarrow> (map_err LanFile r, fs'', c2))"
    and w2: "writer_inv fs w2 fs2" "in_hasher w2 = og_rest og"
      "in_written w2 = fo_size_bytes (in_offer w2)" "in_offer w2 = og_offer og" "c_out c2 = c_out c1"
    using a by auto
  have f2: "fs_faults fs2 = fs_faults fs" using w2(1) by (simp add: writer_inv_def)
  obtain rf fs3 where fin: "finish (crypto C) w2 fs2 = (Inr rf, fs3)"
    using finish_ok [OF w2(1,3)] w2(2,4) og(3) faults f2 by fastforce
  have "receive_offered_file C key self_id source dir config (og_offer og) fs c = (Inr rf, fs3, c2)"
    using og acc w1 rc fin by (simp add: receive_offered_file_def Let_def)
  then show ?thesis using finish_Inr(1) [OF w2(1) fin] w2(2,5) fa by auto
qed

text \<open>The sender runs to the end when its answers are there and its messages fit.\<close>

lemma send_chunks_ok:
  assumes "codec_contract C" and "nonces_ok c" and "c_limit c = None"
    and "\<forall>p. \<not> fs_faults fs (FRead p)"
    and "\<forall>m \<in> set (chunk_msgs (fo_transfer_id (og_offer og)) (og_chunk_bytes og) offset (og_rest og)).
           sendable C key m"
  shows "\<exists>n c'. send_chunks C fs key offset og c = (Inr n, c') \<and> c_limit c' = None"
  using assms
proof (induction C fs key offset og c rule: send_chunks.induct)
  case (1 C fs key offset og c)
  let ?k = "og_chunk_bytes og" and ?tid = "fo_transfer_id (og_offer og)"
  let ?og = "og\<lparr>og_rest := drop ?k (og_rest og)\<rparr>"
  have "\<not> fs_faults fs (FRead (og_path og))" using "1.prems"(4) by blast
  then have read: "read_chunk fs og = Inr (take ?k (og_rest og), ?og)"
    by (simp add: read_chunk_def)
  show ?case
  proof (cases "take ?k (og_rest og) = []")
    case True
    then show ?thesis
      using "1.prems"(3) by (subst send_chunks.simps) (simp add: read)
  next
    case False
    have msgs: "chunk_msgs ?tid ?k offset (og_rest og)
        = FileChunk ?tid offset (take ?k (og_rest og))
          # chunk_msgs ?tid ?k (offset + length (take ?k (og_rest og))) (drop ?k (og_rest og))"
      using False by (subst chunk_msgs.simps) simp
    have "sendable C key (FileChunk ?tid offset (take ?k (og_rest og)))"
      using "1.prems"(5) unfolding msgs by simp
    from write_frame_ok [OF "1.prems"(1-3) this] obtain c1 where
      w: "write_frame C key (FileChunk ?tid offset (take ?k (og_rest og))) c = (Inr (), c1)" by blast
    have c1: "nonces_ok c1" "c_limit c1 = None"
      using write_frame_frame [OF w] "1.prems"(2,3) by (simp_all add: nonces_ok_def)
    have rest: "\<forall>m \<in> set (chunk_msgs (fo_transfer_id (og_offer ?og)) (og_chunk_bytes ?og)
         (offset + length (take ?k (og_rest og))) (og_rest ?og)). sendable C key m"
      using "1.prems"(5) unfolding msgs by simp
    from "1.IH" [OF read refl False w [symmetric] refl "1.prems"(1) c1 "1.prems"(4) rest]
    show ?thesis using w False by (subst send_chunks.simps) (simp add: read)
  qed
qed

text \<open>Pings before the acceptance are passed over.\<close>

lemma await_accept_pings:
  "list_all2 (frame_of C key) (replicate k Ping) fps \<Longrightarrow> frame_of C key (FileAccept uuid) fa \<Longrightarrow>
     c_in c = concat fps @ fa \<Longrightarrow> await_accept C key uuid c = (Inr (), c\<lparr>c_in := []\<rparr>)"
proof (induction k arbitrary: fps c)
  case 0
  then have "c_in c = fa @ []" by simp
  then show ?case using read_frame_frame_of [OF "0.prems"(2)] by (subst await_accept.simps) simp
next
  case (Suc k)
  then obtain fp fps' where fps: "fps = fp # fps'" "frame_of C key Ping fp" "list_all2 (frame_of C key) (replicate k Ping) fps'"
    by (auto simp: list_all2_Cons1)
  have "c_in c = fp @ concat fps' @ fa" using Suc.prems(3) fps(1) by simp
  then have "read_frame C key c = (Inr (Some Ping), c\<lparr>c_in := concat fps' @ fa\<rparr>)"
    using read_frame_frame_of [OF fps(2)] by simp
  then show ?case
    using Suc.IH [OF fps(3) Suc.prems(2), of "c\<lparr>c_in := concat fps' @ fa\<rparr>"] by (subst await_accept.simps) simp
qed

lemma send_file_ok:
  assumes C: "codec_contract C" and c: "nonces_ok c" "c_limit c = None"
    and "open": "outgoing_open (crypto C) fs uuid (sr_source request) (sr_target request)
            (sr_path request) (sr_mime request) (sr_config request) = Inr og"
    and faults: "\<forall>p. \<not> fs_faults fs (FRead p)"
    and msgs: "\<forall>m \<in> set ([Hello (sr_source request) PROTO_VERSION (sr_source_name request),
                          FileOfferMsg (og_offer og), FileComplete uuid]
                         @ chunk_msgs uuid (og_chunk_bytes og) 0 (og_rest og)). sendable C key m"
    and peer: "frame_of C key (Hello (sr_target request) v name) fh"
      "list_all2 (frame_of C key) (replicate k Ping) fps"
      "frame_of C key (FileAccept uuid) fa" "c_in c = fh @ concat fps @ fa"
  shows "\<exists>sent c'. send_file_to_stream C fs uuid key request c = (Inr sent, c')"
proof -
  note og = outgoing_open_Inr [OF "open"]
  obtain c1 where w1: "write_hello C key (sr_source request) (sr_source_name request) c = (Inr (), c1)"
    using write_frame_ok [OF C c] msgs by (fastforce simp: write_hello_def)
  have c1: "nonces_ok c1" "c_limit c1 = None" "c_in c1 = fh @ concat fps @ fa"
    using write_frame_frame [OF w1 [unfolded write_hello_def]] c peer(4) by (simp_all add: nonces_ok_def)
  let ?c2 = "c1\<lparr>c_in := concat fps @ fa\<rparr>"
  have r2: "read_hello C key c1 = (Inr (sr_target request, name), ?c2)"
    using read_frame_frame_of [OF peer(1) c1(3)] by (simp add: read_hello_def)
  have c2: "nonces_ok ?c2" "c_limit ?c2 = None" using c1 by (simp_all add: nonces_ok_def)
  obtain c3 where w3: "write_frame C key (FileOfferMsg (og_offer og)) ?c2 = (Inr (), c3)"
    using write_frame_ok [OF C c2] msgs by fastforce
  have c3: "nonces_ok c3" "c_limit c3 = None" "c_in c3 = concat fps @ fa"
    using write_frame_frame [OF w3] c2 by (simp_all add: nonces_ok_def)
  have r4: "await_accept C key uuid c3 = (Inr (), c3\<lparr>c_in := []\<rparr>)"
    by (rule await_accept_pings [OF peer(2,3) c3(3)])
  let ?c4 = "c3\<lparr>c_in := []\<rparr>"
  have c4: "nonces_ok ?c4" "c_limit ?c4 = None" using c3 by (simp_all add: nonces_ok_def)
  obtain n c5 where s5: "send_chunks C fs key 0 og ?c4 = (Inr n, c5)" and l5: "c_limit c5 = None"
    using send_chunks_ok [OF C c4 faults] msgs og(6) by (metis Un_iff set_append)
  have "nonces_ok c5"
    using send_chunks_sent [OF C c4(1) s5] og(8) bounded_chunk_bytes_range(1) [of "sr_config request"]
    by (auto simp: less_eq_Suc_le)
  with l5 obtain c6 where "write_frame C key (FileComplete uuid) c5 = (Inr (), c6)"
    using write_frame_ok [OF C] msgs by fastforce
  then show ?thesis
    using w1 r2 w3 r4 s5 og(6) by (simp add: send_file_to_stream_def "open" Let_def)
qed

section \<open>Blobs\<close>

definition BLOB_CHUNK :: nat where "BLOB_CHUNK = 512 * 1024"

function serve_chunks :: "codec \<Rightarrow> bytes \<Rightarrow> bytes \<Rightarrow> nat \<Rightarrow> conn \<Rightarrow> (lan_error + unit) \<times> conn" where
  "serve_chunks C key blob off c =
     (if off < length blob then
        (let end_at = min (off + BLOB_CHUNK) (length blob)
         in case write_frame C key (BlobChunk (take (end_at - off) (drop off blob)) (end_at = length blob)) c of
              (Inl e, c') \<Rightarrow> (Inl e, c')
            | (Inr _, c') \<Rightarrow> serve_chunks C key blob end_at c')
      else (Inr (), c))"
  by pat_completeness auto
termination
  by (relation "measure (\<lambda>(C, key, blob, off, c). length blob - off)") (auto simp: BLOB_CHUNK_def)

declare serve_chunks.simps [simp del]

definition serve_blob ::
  "codec \<Rightarrow> bytes \<Rightarrow> blob_cache \<Rightarrow> str \<Rightarrow> conn \<Rightarrow> (lan_error + unit) \<times> conn" where
  "serve_blob C key cache sha c =
     (case blob_cache_get sha cache of
        None \<Rightarrow> write_frame C key (BlobMiss sha) c
      | Some blob \<Rightarrow>
          if blob = [] then write_frame C key (BlobChunk [] True) c
          else serve_chunks C key blob 0 c)"

text \<open>
  The reading loop of \<open>fetch_blob\<close>. A frame that does not come within ten seconds, an I/O error
  and the end of the stream have one outcome, None.
\<close>

function fetch_loop :: "codec \<Rightarrow> bytes \<Rightarrow> nat \<Rightarrow> bytes \<Rightarrow> conn \<Rightarrow> bytes option" where
  "fetch_loop C key max_bytes buf c =
     (case read_frame C key c of
        (Inl e, c') \<Rightarrow> None
      | (Inr None, c') \<Rightarrow> None
      | (Inr (Some m), c') \<Rightarrow>
          (case m of
             BlobChunk data is_last \<Rightarrow>
               if length (buf @ data) > max_bytes then None
               else if is_last then Some (buf @ data)
               else fetch_loop C key max_bytes (buf @ data) c'
           | BlobMiss s \<Rightarrow> None
           | Ping \<Rightarrow> fetch_loop C key max_bytes buf c'
           | Hello d v n \<Rightarrow> fetch_loop C key max_bytes buf c'
           | LanClip s t p \<Rightarrow> fetch_loop C key max_bytes buf c'
           | _ \<Rightarrow> None))"
  by pat_completeness auto
termination
  by (relation "measure (\<lambda>(C, key, mb, buf, c). length (c_in c))") (auto dest!: read_frame_shrinks [OF sym])

declare fetch_loop.simps [simp del]

definition fetch_blob ::
  "codec \<Rightarrow> ('k \<Rightarrow> conn dial) \<Rightarrow> 'k list \<Rightarrow> bytes \<Rightarrow> str \<Rightarrow> str \<Rightarrow> str \<Rightarrow> nat \<Rightarrow> bytes option" where
  "fetch_blob C connect cands key self_id self_name sha max_bytes =
     (case dial_first connect cands of
        None \<Rightarrow> None
      | Some c \<Rightarrow>
          (case write_frame C key (Hello self_id PROTO_VERSION self_name) c of
             (Inl e, c1) \<Rightarrow> None
           | (Inr _, c1) \<Rightarrow>
               (case write_frame C key (BlobRequest sha) c1 of
                  (Inl e, c2) \<Rightarrow> None
                | (Inr _, c2) \<Rightarrow> fetch_loop C key max_bytes [] c2)))"

definition lan_fetch_blob ::
  "codec \<Rightarrow> ('k \<Rightarrow> conn dial) \<Rightarrow> 'k list \<Rightarrow> bytes \<Rightarrow> str \<Rightarrow> str \<Rightarrow> str \<Rightarrow> nat \<Rightarrow> bytes option" where
  "lan_fetch_blob C connect cands key self_id self_name sha max_bytes =
     (if cands = [] then None
      else fetch_blob C connect cands key self_id self_name sha max_bytes)"

text \<open>The chunk messages of a blob from an offset on.\<close>

function blob_msgs :: "bytes \<Rightarrow> nat \<Rightarrow> lan_message list" where
  "blob_msgs blob off =
     (if off < length blob then
        (let end_at = min (off + BLOB_CHUNK) (length blob)
         in BlobChunk (take (end_at - off) (drop off blob)) (end_at = length blob) # blob_msgs blob end_at)
      else [])"
  by pat_completeness auto
termination
  by (relation "measure (\<lambda>(blob, off). length blob - off)") (auto simp: BLOB_CHUNK_def)

declare blob_msgs.simps [simp del]

lemma serve_chunks_sent:
  assumes "codec_contract C" and "nonces_ok c" and "serve_chunks C key blob off c = (Inr u, c')"
  shows "\<exists>frames. list_all2 (frame_of C key) (blob_msgs blob off) frames
     \<and> c_out c' = c_out c @ concat frames"
  using assms
proof (induction C key blob off c rule: serve_chunks.induct)
  case (1 C key blob off c)
  show ?case
  proof (cases "off < length blob")
    case False
    then show ?thesis
      using "1.prems" by (auto simp: blob_msgs.simps [of blob off] serve_chunks.simps [of C key blob off])
  next
    case True
    let ?upto = "min (off + BLOB_CHUNK) (length blob)"
    let ?m = "BlobChunk (take (?upto - off) (drop off blob)) (?upto = length blob)"
    from "1.prems"(3) True obtain c1 where w: "write_frame C key ?m c = (Inr (), c1)"
      and rec: "serve_chunks C key blob ?upto c1 = (Inr u, c')"
      by (subst (asm) serve_chunks.simps) (auto simp: Let_def split: prod.splits sum.splits)
    from write_frame_Inr [OF "1.prems"(1,2) w] obtain f where f: "frame_of C key ?m f"
      and c1: "c1 = c\<lparr>c_out := c_out c @ f, c_drawn := Suc (c_drawn c)\<rparr>" .
    have "nonces_ok c1" using "1.prems"(2) by (simp add: c1 nonces_ok_def)
    from "1.IH" [OF True refl w [symmetric] refl "1.prems"(1) this rec] obtain frames where
      "list_all2 (frame_of C key) (blob_msgs blob ?upto) frames" "c_out c' = c_out c1 @ concat frames"
      by blast
    with f True show ?thesis
      by (intro exI [of _ "f # frames"]) (simp add: blob_msgs.simps [of blob off] Let_def c1)
  qed
qed

lemma fetch_loop_all:
  assumes "list_all2 (frame_of C key) (blob_msgs blob off) frames" and "off < length blob"
    and "c_in c = concat frames @ rest" and "length buf + (length blob - off) \<le> max_bytes"
  shows "fetch_loop C key max_bytes buf c = Some (buf @ drop off blob)"
  using assms
proof (induction blob off arbitrary: frames c buf rule: blob_msgs.induct)
  case (1 blob off)
  let ?upto = "min (off + BLOB_CHUNK) (length blob)"
  let ?d = "take (?upto - off) (drop off blob)"
  from "1.prems"(1,2) obtain f frames' where f: "frame_of C key (BlobChunk ?d (?upto = length blob)) f"
    and frames: "frames = f # frames'"
    and fr: "list_all2 (frame_of C key) (blob_msgs blob ?upto) frames'"
    by (subst (asm) blob_msgs.simps) (auto simp: Let_def list_all2_Cons1)
  let ?c = "c\<lparr>c_in := concat frames' @ rest\<rparr>"
  have rd: "read_frame C key c = (Inr (Some (BlobChunk ?d (?upto = length blob))), ?c)"
    using read_frame_frame_of [OF f] "1.prems"(3) frames by simp
  have le: "\<not> length (buf @ ?d) > max_bytes" using "1.prems"(2,4) by auto
  show ?case
  proof (cases "?upto = length blob")
    case True
    then show ?thesis
      using rd le by (subst fetch_loop.simps) simp
  next
    case False
    then have e: "?upto = off + BLOB_CHUNK" "off + BLOB_CHUNK < length blob" by auto
    have "fetch_loop C key max_bytes (buf @ ?d) ?c = Some ((buf @ ?d) @ drop ?upto blob)"
      by (rule "1.IH" [OF "1.prems"(2) refl fr]) (use e "1.prems"(4) in auto)
    moreover have "fetch_loop C key max_bytes buf c = fetch_loop C key max_bytes (buf @ ?d) ?c"
      using False rd le e by (subst fetch_loop.simps) simp
    moreover have "?d @ drop ?upto blob = drop off blob"
      using e append_take_drop_id [of BLOB_CHUNK "drop off blob"] by (simp add: add.commute)
    ultimately show ?thesis by simp
  qed
qed

text \<open>A blob whose chunks can be sent is served to the end.\<close>

lemma serve_chunks_ok:
  assumes "codec_contract C" and "nonces_ok c" and "c_limit c = None"
    and "\<forall>m \<in> set (blob_msgs blob off). sendable C key m"
  shows "\<exists>c'. serve_chunks C key blob off c = (Inr (), c')"
  using assms
proof (induction C key blob off c rule: serve_chunks.induct)
  case (1 C key blob off c)
  show ?case
  proof (cases "off < length blob")
    case False
    then show ?thesis by (simp add: serve_chunks.simps)
  next
    case True
    let ?upto = "min (off + BLOB_CHUNK) (length blob)"
    let ?m = "BlobChunk (take (?upto - off) (drop off blob)) (?upto = length blob)"
    have msgs: "blob_msgs blob off = ?m # blob_msgs blob ?upto"
      using True by (subst blob_msgs.simps) (simp add: Let_def)
    then obtain c1 where w: "write_frame C key ?m c = (Inr (), c1)"
      using write_frame_ok [OF "1.prems"(1-3)] "1.prems"(4) by fastforce
    have c1: "nonces_ok c1" "c_limit c1 = None"
      using write_frame_frame [OF w] "1.prems"(2,3) by (simp_all add: nonces_ok_def)
    have "\<forall>m \<in> set (blob_msgs blob ?upto). sendable C key m" using "1.prems"(4) msgs by simp
    from "1.IH" [OF True refl w [symmetric] refl "1.prems"(1) c1 this]
    show ?thesis using True w by (subst serve_chunks.simps) (simp add: Let_def)
  qed
qed

lemma serve_blob_ok:
  assumes C: "codec_contract C" and c: "nonces_ok c" "c_limit c = None"
    and cached: "blob_cache_get sha cache = Some blob" "blob \<noteq> []"
    and msgs: "\<forall>m \<in> set (blob_msgs blob 0). sendable C key m"
  shows "\<exists>frames c'. serve_blob C key cache sha c = (Inr (), c')
     \<and> list_all2 (frame_of C key) (blob_msgs blob 0) frames \<and> c_out c' = c_out c @ concat frames"
proof -
  obtain c' where s: "serve_chunks C key blob 0 c = (Inr (), c')" using serve_chunks_ok [OF C c msgs] by blast
  then show ?thesis using serve_chunks_sent [OF C c(1) s] cached by (auto simp: serve_blob_def)
qed

text \<open>The requester passes over the hello and the pings in front of the chunks.\<close>

lemma fetch_loop_skips:
  assumes "frame_of C key m f" and "m = Ping \<or> (\<exists>d v n. m = Hello d v n)" and "c_in c = f @ rest"
  shows "fetch_loop C key max_bytes buf c = fetch_loop C key max_bytes buf (c\<lparr>c_in := rest\<rparr>)"
  using read_frame_frame_of [OF assms(1,3)] assms(2) by (subst fetch_loop.simps) auto

text \<open>A fetch from the first address that connects, over the stream of a session that serves the blob.\<close>

lemma fetch_blob_served:
  assumes C: "codec_contract C"
    and msgs: "sendable C key (Hello self_id PROTO_VERSION self_name)" "sendable C key (BlobRequest sha)"
    and hello: "frame_of C key (Hello did v name) fh" and ping: "frame_of C key Ping fp"
    and chunks: "list_all2 (frame_of C key) (blob_msgs blob 0) frames" and blob: "blob \<noteq> []" "length blob \<le> max_bytes"
    and dial: "dial_first connect cands = Some (plain_conn (fh @ fp @ concat frames))"
  shows "lan_fetch_blob C connect cands key self_id self_name sha max_bytes = Some blob"
proof -
  let ?c = "plain_conn (fh @ fp @ concat frames)"
  obtain c1 where w1: "write_frame C key (Hello self_id PROTO_VERSION self_name) ?c = (Inr (), c1)"
    using write_frame_ok [OF C nonces_ok_plain _ msgs(1)] by fastforce
  have c1: "nonces_ok c1" "c_limit c1 = None" "c_in c1 = fh @ fp @ concat frames"
    using write_frame_frame [OF w1] by (simp_all add: nonces_ok_def plain_conn_def NONCE_LEN_def)
  obtain c2 where w2: "write_frame C key (BlobRequest sha) c1 = (Inr (), c2)"
    using write_frame_ok [OF C c1(1,2) msgs(2)] by blast
  have c2: "c_in c2 = fh @ fp @ concat frames" using write_frame_frame [OF w2] c1(3) by simp
  have "fetch_loop C key max_bytes [] c2 = fetch_loop C key max_bytes [] (c2\<lparr>c_in := fp @ concat frames\<rparr>)"
    using fetch_loop_skips [OF hello _ c2] by blast
  also have "\<dots> = fetch_loop C key max_bytes [] (c2\<lparr>c_in := concat frames\<rparr>)"
    using fetch_loop_skips [OF ping, of "c2\<lparr>c_in := fp @ concat frames\<rparr>" "concat frames"] by simp
  also have "\<dots> = Some blob"
    using fetch_loop_all [OF chunks, of "c2\<lparr>c_in := concat frames\<rparr>" "[]" "[]" max_bytes] blob by simp
  finally have "fetch_loop C key max_bytes [] c2 = Some blob" .
  moreover have "cands \<noteq> []" using dial by auto
  ultimately show ?thesis using dial w1 w2 by (simp add: lan_fetch_blob_def fetch_blob_def)
qed

text \<open>Whatever a peer sends, the buffer returned is within the bound.\<close>

lemma fetch_loop_bounded: "fetch_loop C key max_bytes buf c = Some b \<Longrightarrow> length b \<le> max_bytes"
proof (induction C key max_bytes buf c rule: fetch_loop.induct)
  case (1 C key max_bytes buf c)
  obtain rm c1 where rd: "read_frame C key c = (rm, c1)" by fastforce
  show ?case
    using "1.IH" [OF rd [symmetric]] "1.prems"
    by (subst (asm) fetch_loop.simps)
      (auto simp: rd split: sum.splits option.splits lan_message.splits if_splits)
qed

section \<open>The properties\<close>

text \<open>
  A file sent to a peer arrives. The sender, answered by a hello and an acceptance, completes;
  the receiver fed with the bytes the sender wrote completes, answers with exactly such a hello
  and an acceptance, and then holds the source file's content under a new name in its directory.
\<close>

theorem file_transfer_end_to_end:
  assumes C: "codec_contract C" and sha: "sha_contract (crypto C)"
    and "open": "outgoing_open (crypto C) fsA uuid (sr_source request) (sr_target request)
            (sr_path request) (sr_mime request) (sr_config request) = Inr og"
    and "\<forall>call. \<not> fs_faults fsA call" and faults: "\<forall>call. \<not> fs_faults fsB call"
    and msgs: "\<forall>m \<in> set ([Hello (sr_source request) PROTO_VERSION (sr_source_name request),
                          FileOfferMsg (og_offer og), FileComplete uuid]
                         @ chunk_msgs uuid (og_chunk_bytes og) 0 (og_rest og)). sendable C key m"
    and peer: "frame_of C key (Hello (sr_target request) PROTO_VERSION self_name) fh"
      "frame_of C key (FileAccept uuid) fa"
    and peer_msgs: "sendable C key (Hello (sr_target request) PROTO_VERSION self_name)"
      "sendable C key (FileAccept uuid)"
    and size: "length (og_rest og) \<le> max_file_bytes config" "max_file_bytes config < U64_MAX"
    and uuid: "trim uuid \<noteq> []"
    and dest: "unique_destination_path fsB dir (fo_file_name (og_offer og)) = Inr dest"
      "\<not> fs_exists fsB (part_path_for dest uuid)"
  shows "\<exists>sent ca rf fsB' cb.
     send_file_to_stream C fsA uuid key request (plain_conn (fh @ fa)) = (Inr sent, ca)
     \<and> receive_file_from_stream C key (sr_target request) self_name dir config fsB (plain_conn (c_out ca))
         = (Inr rf, fsB', cb)
     \<and> fs_content fsA (sr_path request) = Some (og_rest og)
     \<and> fs_content fsB' (rf_path rf) = Some (og_rest og)
     \<and> sf_bytes_sent sent = length (og_rest og)
     \<and> fst (rf_path rf) = dir \<and> \<not> fs_exists fsB (rf_path rf)
     \<and> fs_entries fsB' = (fs_entries fsB)(rf_path rf := fs_entries fsB' (rf_path rf))"
proof -
  note og = outgoing_open_Inr [OF "open"]
  obtain sent ca where send: "send_file_to_stream C fsA uuid key request (plain_conn (fh @ fa)) = (Inr sent, ca)"
    using send_file_ok [OF C _ _ "open" _ msgs peer(1) _ peer(2), of "plain_conn (fh @ fa)" 0 "[]"] assms(4) by fastforce
  from send_file_sent [OF C nonces_ok_plain send] "open" og(6) obtain frames where
    fr: "list_all2 (frame_of C key)
      ([Hello (sr_source request) PROTO_VERSION (sr_source_name request), FileOfferMsg (og_offer og)]
       @ chunk_msgs uuid (og_chunk_bytes og) 0 (og_rest og) @ [FileComplete uuid]) frames"
    and out: "c_out ca = concat frames" and n: "sf_bytes_sent sent = length (og_rest og)"
    by (metis append_Nil outgoing_open_Inr(6) plain_conn_simps(3) sum.inject(2))
  from fr obtain f1 f2 frames' where frames: "frames = f1 # f2 # frames'"
    and f1: "frame_of C key (Hello (sr_source request) PROTO_VERSION (sr_source_name request)) f1"
    and f2: "frame_of C key (FileOfferMsg (og_offer og)) f2"
    and fr': "list_all2 (frame_of C key)
       (chunk_msgs uuid (og_chunk_bytes og) 0 (og_rest og) @ [FileComplete uuid]) frames'"
    by (auto simp: list_all2_Cons1)
  let ?cb = "plain_conn (c_out ca)"
  obtain c1 where w1: "write_hello C key (sr_target request) self_name ?cb = (Inr (), c1)"
    using write_frame_ok [OF C nonces_ok_plain _ peer_msgs(1)] by (fastforce simp: write_hello_def)
  have c1: "c_in c1 = f1 @ f2 @ concat frames'" "nonces_ok c1" "c_limit c1 = None"
    using write_frame_frame [OF w1 [unfolded write_hello_def]] out frames
    by (simp_all add: nonces_ok_def plain_conn_def NONCE_LEN_def)
  let ?c2 = "c1\<lparr>c_in := f2 @ concat frames'\<rparr>" and ?c3 = "c1\<lparr>c_in := concat frames'\<rparr>"
  have r2: "read_hello C key c1 = (Inr (sr_source request, sr_source_name request), ?c2)"
    using read_frame_frame_of [OF f1 c1(1)] by (simp add: read_hello_def)
  have r3: "read_frame C key ?c2 = (Inr (Some (FileOfferMsg (og_offer og))), ?c3)"
    using read_frame_frame_of [OF f2, of ?c2 "concat frames'"] by simp
  have c3: "c_in ?c3 = concat frames'" "nonces_ok ?c3" "c_limit ?c3 = None"
    using c1 by (simp_all add: nonces_ok_def)
  obtain rf fsB' cb where
    ro: "receive_offered_file C key (sr_target request) (sr_source request) dir config (og_offer og) fsB ?c3
           = (Inr rf, fsB', cb)"
    and content: "fs_content fsB' (rf_path rf) = Some (og_rest og)"
    using receive_offered_ok [OF C sha "open" fr' c3 size uuid faults dest peer_msgs(2)] by blast
  have recv: "receive_file_from_stream C key (sr_target request) self_name dir config fsB ?cb = (Inr rf, fsB', cb)"
    using w1 r2 r3 ro by (simp add: receive_file_from_stream_def)
  have res: "fst (rf_path rf) = dir" "\<not> fs_exists fsB (rf_path rf)" "delivered (crypto C) fsB (og_offer og) rf fsB'"
    using receive_offered_result [OF ro size(2)] by simp_all
  have "fs_entries fsB' = (fs_entries fsB)(rf_path rf := fs_entries fsB' (rf_path rf))"
    using res(3) by (auto simp: delivered_def)
  then show ?thesis using send recv content n og(1) res by blast
qed

definition demo_fs :: "bytes \<Rightarrow> fs" where
  "demo_fs content = \<lparr>fs_entries = [(lit ''/s'', lit ''a.txt'') \<mapsto> FFile content None], fs_faults = (\<lambda>_. False)\<rparr>"

definition demo_request :: send_file_request where
  "demo_request = \<lparr>sr_source = lit ''A'', sr_source_name = lit ''Alice'', sr_target = lit ''B'',
     sr_path = (lit ''/s'', lit ''a.txt''), sr_mime = None, sr_config = default_file_config\<rparr>"

lemma demo_name: "sanitize_file_name (lit ''a.txt'') = Inr (lit ''a.txt'')"
  by code_simp

lemma demo_open:
  "\<exists>og. outgoing_open demo_prims (demo_fs [1, 2, 3]) (lit ''u1'') (sr_source demo_request)
      (sr_target demo_request) (sr_path demo_request) (sr_mime demo_request) (sr_config demo_request) = Inr og"
  by (simp add: outgoing_open_def demo_fs_def demo_request_def path_file_name_def demo_name
      default_file_config_def DEFAULT_MAX_FILE_BYTES_def sha256_file_hex_def fs_content_def)
    (simp add: lit_eval)

lemma demo_dest:
  "unique_destination_path (demo_fs [9]) (lit ''/s'') (lit ''a.txt'') = Inr (lit ''/s'', lit ''a (1).txt'')"
proof -
  have 1: "split_name_ext (lit ''a.txt'') = (lit ''a'', Some (lit ''txt''))" by code_simp
  have 2: "numbered_name (lit ''a'') (Some (lit ''txt'')) (Suc 0) = lit ''a (1).txt''" by code_simp
  have 3: "lit ''a (1).txt'' \<noteq> lit ''a.txt''" by code_simp
  have free: "\<not> fs_exists (demo_fs [9]) (lit ''/s'', numbered_name (lit ''a'') (Some (lit ''txt'')) 1)"
    by (simp add: 2 3 fs_exists_def demo_fs_def)
  have taken: "\<not> \<not> fs_exists (demo_fs [9]) (lit ''/s'', lit ''a.txt'')"
    by (simp add: fs_exists_def demo_fs_def)
  have upt: "m < n \<Longrightarrow> first_free fs dir st ex [m..<n] =
      (if \<not> fs_exists fs (dir, numbered_name st ex m) then Some (dir, numbered_name st ex m)
       else first_free fs dir st ex [Suc m..<n])" for m n :: nat and fs dir st ex
    by (subst upt_conv_Cons) (simp_all add: Let_def)
  have ff: "first_free (demo_fs [9]) (lit ''/s'') (lit ''a'') (Some (lit ''txt'')) [1..<10000]
      = Some (lit ''/s'', lit ''a (1).txt'')"
    by (subst upt) (simp, simp only: free [unfolded 2 One_nat_def] 2 if_True simp_thms One_nat_def)
  show ?thesis
    by (simp only: unique_destination_path_def demo_name bind_r.simps Let_def taken if_False 1
        prod.case ff option.case simp_thms)
qed

lemma sendable_frame: "codec_contract C \<Longrightarrow> sendable C key m \<Longrightarrow> \<exists>f. frame_of C key m f"
  using write_frame_ok [of C "plain_conn []" key m] write_frame_Inr [of C "plain_conn []" key m]
  by auto

lemma demo_chunks: "chunk_msgs tid (bounded_chunk_bytes default_file_config) 0 [1, 2, 3] = [FileChunk tid 0 [1, 2, 3]]"
  by (simp add: chunk_msgs.simps bounded_chunk_bytes_def default_file_config_def DEFAULT_CHUNK_BYTES_def
      MAX_FILE_CHUNK_BYTES_def)

theorem file_transfer_end_to_end_witness:
  "\<exists>C fh fa sent ca rf fsB' cb.
     send_file_to_stream C (demo_fs [1, 2, 3]) (lit ''u1'') [] demo_request (plain_conn (fh @ fa)) = (Inr sent, ca)
     \<and> receive_file_from_stream C [] (lit ''B'') (lit ''Bob'') (lit ''/s'') default_file_config
         (demo_fs [9]) (plain_conn (c_out ca)) = (Inr rf, fsB', cb)
     \<and> fs_content fsB' (rf_path rf) = Some [1, 2, 3]"
proof -
  obtain og where og: "outgoing_open demo_prims (demo_fs [1, 2, 3]) (lit ''u1'') (sr_source demo_request)
      (sr_target demo_request) (sr_path demo_request) (sr_mime demo_request) (sr_config demo_request) = Inr og"
    using demo_open by blast
  note i = outgoing_open_Inr [OF og]
  have rest: "og_rest og = [1, 2, 3]"
    using i(1) by (simp add: fs_content_def demo_fs_def demo_request_def)
  have name: "fo_file_name (og_offer og) = lit ''a.txt''"
    using i(9) [of "lit ''a.txt''"] by (simp add: demo_request_def path_file_name_def demo_name) (simp add: lit_eval)
  have k: "og_chunk_bytes og = bounded_chunk_bytes default_file_config"
    using i(8) by (simp add: demo_request_def)
  let ?ms = "[Hello (lit ''A'') PROTO_VERSION (lit ''Alice''), FileOfferMsg (og_offer og), FileComplete (lit ''u1''),
      FileChunk (lit ''u1'') 0 [1, 2, 3], Hello (lit ''B'') PROTO_VERSION (lit ''Bob''), FileAccept (lit ''u1'')]"
  let ?C = "table_codec ?ms"
  have snd: "\<And>m. m \<in> set ?ms \<Longrightarrow> sendable ?C [] m" by (rule table_codec_sendable) simp_all
  have crypto: "crypto ?C = demo_prims" by (simp add: table_codec_def)
  obtain fh fa where f: "frame_of ?C [] (Hello (lit ''B'') PROTO_VERSION (lit ''Bob'')) fh"
    "frame_of ?C [] (FileAccept (lit ''u1'')) fa"
    using sendable_frame [OF table_codec_contract snd] by (metis list.set_intros(1,2))
  have dest: "unique_destination_path (demo_fs [9]) (lit ''/s'') (fo_file_name (og_offer og))
      = Inr (lit ''/s'', lit ''a (1).txt'')"
    unfolding name by (rule demo_dest)
  have part: "\<not> fs_exists (demo_fs [9]) (part_path_for (lit ''/s'', lit ''a (1).txt'') (lit ''u1''))"
    by code_simp
  have uuid: "trim (lit ''u1'') \<noteq> []" by code_simp
  have og': "outgoing_open (crypto ?C) (demo_fs [1, 2, 3]) (lit ''u1'') (sr_source demo_request)
      (sr_target demo_request) (sr_path demo_request) (sr_mime demo_request) (sr_config demo_request) = Inr og"
    using og by (simp only: crypto)
  have sha: "sha_contract (crypto ?C)" by (simp only: crypto demo_sha)
  have quiet: "\<forall>call. \<not> fs_faults (demo_fs b) call" for b by (simp add: demo_fs_def)
  have ids: "sr_source demo_request = lit ''A''" "sr_source_name demo_request = lit ''Alice''"
    "sr_target demo_request = lit ''B''" by (simp_all add: demo_request_def)
  have msgs: "\<forall>m \<in> set ([Hello (sr_source demo_request) PROTO_VERSION (sr_source_name demo_request),
        FileOfferMsg (og_offer og), FileComplete (lit ''u1'')]
      @ chunk_msgs (lit ''u1'') (og_chunk_bytes og) 0 (og_rest og)). sendable ?C [] m"
    unfolding rest k demo_chunks ids using snd by simp
  have peer: "frame_of ?C [] (Hello (sr_target demo_request) PROTO_VERSION (lit ''Bob'')) fh"
    "sendable ?C [] (Hello (sr_target demo_request) PROTO_VERSION (lit ''Bob''))"
    "sendable ?C [] (FileAccept (lit ''u1''))"
    unfolding ids using f snd by simp_all
  have size: "length (og_rest og) \<le> max_file_bytes default_file_config"
    "max_file_bytes default_file_config < U64_MAX"
    by (simp_all add: rest default_file_config_def DEFAULT_MAX_FILE_BYTES_def U64_MAX_def)
  note t = file_transfer_end_to_end [OF table_codec_contract sha og' quiet quiet msgs peer(1) f(2)
      peer(2,3) size uuid dest part]
  then show ?thesis unfolding ids rest by blast
qed



text \<open>
  A peer that has a blob serves it, and the requester reads back exactly those bytes, behind
  the keep-alive ping that the serving side sends first; the candidates before the one that
  answers are skipped.
\<close>

theorem blob_round_trip:
  assumes C: "codec_contract C"
    and cached: "blob_cache_get sha cache = Some blob" and size: "length blob \<le> max_bytes"
    and serve: "serve_blob C key cache sha (plain_conn []) = (Inr (), cs)"
    and ping: "frame_of C key Ping fp"
    and msgs: "sendable C key (Hello self_id PROTO_VERSION self_name)" "sendable C key (BlobRequest sha)"
    and dial: "connect cand = Connected (plain_conn (fp @ c_out cs))"
      "\<forall>d \<in> set dead. connect d = Refused \<or> connect d = DialTimeout"
  shows "lan_fetch_blob C connect (dead @ cand # rest) key self_id self_name sha max_bytes = Some blob"
proof -
  have first: "dial_first connect (dead @ cand # rest) = Some (plain_conn (fp @ c_out cs))"
    using dial by (induction dead) auto
  obtain c1 where w1: "write_frame C key (Hello self_id PROTO_VERSION self_name) (plain_conn (fp @ c_out cs)) = (Inr (), c1)"
    using write_frame_ok [OF C nonces_ok_plain _ msgs(1)] by fastforce
  have c1: "nonces_ok c1" "c_limit c1 = None" "c_in c1 = fp @ c_out cs"
    using write_frame_frame [OF w1] by (simp_all add: nonces_ok_def plain_conn_def NONCE_LEN_def)
  obtain c2 where w2: "write_frame C key (BlobRequest sha) c1 = (Inr (), c2)"
    using write_frame_ok [OF C c1(1,2) msgs(2)] by blast
  have c2: "c_in c2 = fp @ c_out cs" using write_frame_frame [OF w2] c1(3) by simp
  have ping_step: "fetch_loop C key max_bytes [] c2 = fetch_loop C key max_bytes [] (c2\<lparr>c_in := c_out cs\<rparr>)"
    using read_frame_frame_of [OF ping c2] by (subst fetch_loop.simps) simp
  have "fetch_loop C key max_bytes [] (c2\<lparr>c_in := c_out cs\<rparr>) = Some blob"
  proof (cases "blob = []")
    case True
    then have "write_frame C key (BlobChunk [] True) (plain_conn []) = (Inr (), cs)"
      using serve cached by (simp add: serve_blob_def)
    from write_frame_Inr [OF C nonces_ok_plain this] obtain f where
      f: "frame_of C key (BlobChunk [] True) f" and "cs = (plain_conn [])\<lparr>c_out := c_out (plain_conn []) @ f,
         c_drawn := Suc (c_drawn (plain_conn []))\<rparr>" .
    then have "c_out cs = f @ []" by simp
    then show ?thesis
      using read_frame_frame_of [OF f, of "c2\<lparr>c_in := c_out cs\<rparr>" "[]"] True
      by (subst fetch_loop.simps) simp
  next
    case False
    then have "serve_chunks C key blob 0 (plain_conn []) = (Inr (), cs)"
      using serve cached by (simp add: serve_blob_def)
    from serve_chunks_sent [OF C nonces_ok_plain this] obtain frames where
      fr: "list_all2 (frame_of C key) (blob_msgs blob 0) frames" and out: "c_out cs = concat frames" by auto
    show ?thesis
      using fetch_loop_all [OF fr, of "c2\<lparr>c_in := c_out cs\<rparr>" "[]" "[]" max_bytes] False out size by simp
  qed
  then show ?thesis
    using first w1 w2 ping_step by (simp add: lan_fetch_blob_def fetch_blob_def)
qed

definition demo_cache :: blob_cache where
  "demo_cache = blob_cache_insert (lit ''h'') [7, 8] blob_cache_new"

lemma demo_cache_get: "blob_cache_get (lit ''h'') demo_cache = Some [7, 8]"
  using cache_get_insert [OF cache_inv_new, of "[7, 8]" "lit ''h''"]
  by (simp add: demo_cache_def BLOB_CACHE_MAX_BYTES_def)
    (simp add: blob_cache_get_def blob_cache_new_def)

theorem blob_round_trip_witness:
  "\<exists>C connect. lan_fetch_blob C connect [0, 1, 2 :: nat] [] (lit ''A'') (lit ''Alice'') (lit ''h'') 100 = Some [7, 8]"
proof -
  let ?hello = "Hello (lit ''A'') PROTO_VERSION (lit ''Alice'')"
  let ?C = "table_codec [?hello, BlobRequest (lit ''h''), Ping, BlobChunk [7, 8] True]"
  have snd: "m \<in> set [?hello, BlobRequest (lit ''h''), Ping, BlobChunk [7, 8] True] \<Longrightarrow> sendable ?C [] m" for m
    by (rule table_codec_sendable) simp_all
  obtain fp where fp: "frame_of ?C [] Ping fp"
    using sendable_frame [OF table_codec_contract snd] by (metis list.set_intros)
  obtain cs where cs: "write_frame ?C [] (BlobChunk [7, 8] True) (plain_conn []) = (Inr (), cs)"
    using write_frame_ok [OF table_codec_contract nonces_ok_plain _ snd] by (metis list.set_intros plain_conn_simps(4))
  then have serve: "serve_blob ?C [] demo_cache (lit ''h'') (plain_conn []) = (Inr (), cs)"
    by (simp add: serve_blob_def demo_cache_get serve_chunks.simps BLOB_CHUNK_def)
  let ?connect = "\<lambda>k. if k = (0 :: nat) then Refused else Connected (plain_conn (fp @ c_out cs))"
  have "lan_fetch_blob ?C ?connect ([0] @ 1 # [2]) [] (lit ''A'') (lit ''Alice'') (lit ''h'') 100 = Some [7, 8]"
    by (rule blob_round_trip [OF table_codec_contract demo_cache_get _ serve fp]) (simp_all add: snd)
  then show ?thesis by auto
qed

end
