(* ===== verification/ClientApi.thy ===== *)
theory ClientApi
  imports ClientRun LanPeers LanTransfer
begin

text \<open>
  What a host calls: the \<open>Client\<close> of \<^verbatim>\<open>core/src/client.rs\<close> with its shared state, and the HTTP
  client of \<^verbatim>\<open>core/src/blob.rs\<close>. The HTTP library is a parameter, a state with a put and a get; base64
  and JSON are parameters too. The worker's own steps are in \<^verbatim>\<open>ClientRun\<close>.
\<close>

section \<open>Errors\<close>

datatype blob_error = BlobHttp str | BlobNotFound | BlobTooLarge | BlobRejected str | BlobJoinPanic

fun blob_error_text :: "blob_error \<Rightarrow> str" where
  "blob_error_text (BlobHttp e) = lit ''http: '' @ e"
| "blob_error_text BlobNotFound = lit ''blob not found''"
| "blob_error_text BlobTooLarge = lit ''blob too large for relay (status 413)''"
| "blob_error_text (BlobRejected e) = lit ''relay rejected upload: '' @ e"
| "blob_error_text BlobJoinPanic = lit ''worker thread join failed''"

datatype client_error =
    ClientStopped | ClientEncrypt crypto_error | ClientSerde str | ClientBlob blob_error | InvalidImageMeta str

fun client_error_text :: "client_error \<Rightarrow> str" where
  "client_error_text ClientStopped = lit ''client already stopped''"
| "client_error_text (ClientEncrypt e) = lit ''encrypt failed: '' @ crypto_error_text e"
| "client_error_text (ClientSerde e) = lit ''serde: '' @ e"
| "client_error_text (ClientBlob e) = lit ''blob: '' @ blob_error_text e"
| "client_error_text (InvalidImageMeta e) = lit ''invalid image meta: '' @ e"

datatype ffi_error =
    FfiStopped | FfiInvalidKey nat | FfiBlobNotFound | FfiBlobTooLarge | FfiNoLanPeer str
  | FfiFileTransfer str | FfiInternal str

fun ffi_of_client_error :: "client_error \<Rightarrow> ffi_error" where
  "ffi_of_client_error ClientStopped = FfiStopped"
| "ffi_of_client_error (ClientBlob BlobNotFound) = FfiBlobNotFound"
| "ffi_of_client_error (ClientBlob BlobTooLarge) = FfiBlobTooLarge"
| "ffi_of_client_error other = FfiInternal (client_error_text other)"

fun ffi_error_text :: "ffi_error \<Rightarrow> str" where
  "ffi_error_text FfiStopped = lit ''client stopped''"
| "ffi_error_text (FfiInvalidKey got) =
     lit ''group key must be '' @ show_nat KEY_LEN @ lit '' bytes, got '' @ show_nat got"
| "ffi_error_text FfiBlobNotFound = lit ''blob not found on relay (expired or never uploaded)''"
| "ffi_error_text FfiBlobTooLarge = lit ''blob exceeds relay size limit''"
| "ffi_error_text (FfiNoLanPeer device_id) = lit ''no LAN candidates for peer: '' @ device_id"
| "ffi_error_text (FfiFileTransfer reason) = lit ''file transfer failed: '' @ reason"
| "ffi_error_text (FfiInternal reason) = lit ''internal: '' @ reason"

fun lan_error_text :: "lan_error \<Rightarrow> str" where
  "lan_error_text (LanIo e) = lit ''io: '' @ e"
| "lan_error_text (LanMdns e) = lit ''mdns: '' @ e"
| "lan_error_text (LanFile e) = lit ''file transfer: '' @ ft_error_text e"

section \<open>The blob client\<close>

text \<open>A reply: the status, the body or the error of reading it.\<close>

record http_reply =
  hr_status :: nat
  hr_bytes :: "str + bytes"
  hr_text :: "str + str"

record 'w http =
  http_put :: "str \<Rightarrow> bytes \<Rightarrow> 'w \<Rightarrow> (str + http_reply) \<times> 'w"
  http_get :: "str \<Rightarrow> 'w \<Rightarrow> (str + http_reply) \<times> 'w"

definition http_base :: "str \<Rightarrow> str" where
  "http_base relay_url =
     (let trimmed = trim_end_where (\<lambda>c. c = 47) relay_url
      in case strip_prefix (lit ''wss://'') trimmed of
           Some rest \<Rightarrow> lit ''https://'' @ rest
         | None \<Rightarrow>
             (case strip_prefix (lit ''ws://'') trimmed of
                Some rest \<Rightarrow> lit ''http://'' @ rest
              | None \<Rightarrow>
                  if starts_with (lit ''https://'') trimmed \<or> starts_with (lit ''http://'') trimmed then trimmed
                  else lit ''http://'' @ trimmed))"

definition blob_url :: "str \<Rightarrow> str \<Rightarrow> str \<Rightarrow> str" where
  "blob_url base group_id sha = base @ lit ''/blob/'' @ group_id @ lit ''/'' @ sha"

definition upload :: "'w http \<Rightarrow> str \<Rightarrow> str \<Rightarrow> str \<Rightarrow> bytes \<Rightarrow> 'w \<Rightarrow> (blob_error + unit) \<times> 'w" where
  "upload H base group_id sha ciphertext w =
     (case http_put H (blob_url base group_id sha) ciphertext w of
        (Inl e, w) \<Rightarrow> (Inl (BlobHttp e), w)
      | (Inr resp, w) \<Rightarrow>
          (if hr_status resp = 204 \<or> hr_status resp = 200 then Inr ()
           else if hr_status resp = 413 then Inl BlobTooLarge
           else Inl (BlobRejected (show_nat (hr_status resp) @ lit '' ''
                       @ (case hr_text resp of Inr t \<Rightarrow> t | Inl _ \<Rightarrow> []))), w))"

definition download :: "'w http \<Rightarrow> str \<Rightarrow> str \<Rightarrow> str \<Rightarrow> 'w \<Rightarrow> (blob_error + bytes) \<times> 'w" where
  "download H base group_id sha w =
     (case http_get H (blob_url base group_id sha) w of
        (Inl e, w) \<Rightarrow> (Inl (BlobHttp e), w)
      | (Inr resp, w) \<Rightarrow>
          (if hr_status resp = 200 then map_err BlobHttp (hr_bytes resp)
           else if hr_status resp = 404 then Inl BlobNotFound
           else Inl (BlobRejected (show_nat (hr_status resp))), w))"

section \<open>The client\<close>

datatype notification = ModeNotify | WakeNotify | LanModeNotify

text \<open>
  The command channel is the list of commands sent to it and whether its receiver still exists;
  \<open>cl_thread\<close>: the join handle has not been taken.
\<close>

record client =
  cl_key :: bytes
  cl_group :: str
  cl_device_id :: str
  cl_device_name :: str
  cl_base :: str
  cl_cmds :: "cmd list"
  cl_receiver :: bool
  cl_thread :: bool
  cl_alive :: bool
  cl_cache :: blob_cache
  cl_peer_addrs :: peer_addrs
  cl_lan_peers :: nat
  cl_registry :: peer_registry
  cl_receive_dir :: "str option"
  cl_received :: "received_file_record list"
  cl_idle_mode :: bool
  cl_requested :: bool
  cl_lan_active :: bool
  cl_notified :: "notification list"

text \<open>\<open>Client::new\<close>; the errors of building the HTTP client and of spawning the thread are arguments.\<close>

definition client_new ::
  "str option \<Rightarrow> str option \<Rightarrow> str \<Rightarrow> str \<Rightarrow> bytes \<Rightarrow> str \<Rightarrow> str \<Rightarrow> ffi_error + client" where
  "client_new http_error spawn_error relay_url group_id key device_id device_name =
     (if length key \<noteq> KEY_LEN then Inl (FfiInvalidKey (length key mod 2 ^ 32))
      else case http_error of
        Some e \<Rightarrow> Inl (FfiInternal (lit ''blob client: '' @ blob_error_text (BlobHttp e)))
      | None \<Rightarrow>
          (case spawn_error of
             Some e \<Rightarrow> Inl (FfiInternal (lit ''spawn thread: '' @ e))
           | None \<Rightarrow> Inr
               \<lparr>cl_key = key, cl_group = group_id, cl_device_id = device_id, cl_device_name = device_name,
                cl_base = http_base relay_url, cl_cmds = [], cl_receiver = True, cl_thread = True,
                cl_alive = True, cl_cache = blob_cache_new, cl_peer_addrs = [], cl_lan_peers = 0,
                cl_registry = [], cl_receive_dir = None, cl_received = [], cl_idle_mode = False,
                cl_requested = False, cl_lan_active = True, cl_notified = []\<rparr>))"

definition send_cmd :: "cmd \<Rightarrow> client \<Rightarrow> (ffi_error + unit) \<times> client" where
  "send_cmd c cl =
     (if cl_receiver cl then (Inr (), cl\<lparr>cl_cmds := cl_cmds cl @ [c]\<rparr>) else (Inl FfiStopped, cl))"

definition api_send_clip :: "clip_payload \<Rightarrow> client \<Rightarrow> (ffi_error + unit) \<times> client" where
  "api_send_clip payload cl = send_cmd (SendClip payload) cl"

definition api_fetch_recent :: "client \<Rightarrow> (ffi_error + unit) \<times> client" where
  "api_fetch_recent cl = send_cmd CmdFetchRecent cl"

definition notify :: "notification \<Rightarrow> client \<Rightarrow> client" where
  "notify n cl = cl\<lparr>cl_notified := cl_notified cl @ [n]\<rparr>"

definition refresh_lan_now :: "client \<Rightarrow> (ffi_error + unit) \<times> client" where
  "refresh_lan_now cl = send_cmd RefreshLan (notify LanModeNotify cl)"

definition set_reconnect_idle_mode :: "bool \<Rightarrow> client \<Rightarrow> client" where
  "set_reconnect_idle_mode enabled cl = notify ModeNotify (cl\<lparr>cl_idle_mode := enabled\<rparr>)"

definition reconnect_now :: "client \<Rightarrow> client" where
  "reconnect_now cl = notify WakeNotify (cl\<lparr>cl_requested := True\<rparr>)"

definition set_lan_active :: "bool \<Rightarrow> client \<Rightarrow> client" where
  "set_lan_active enabled cl = notify LanModeNotify (cl\<lparr>cl_lan_active := enabled\<rparr>)"

text \<open>\<open>b64_encode\<close> is the base64 of the nonce; \<open>nonce\<close> the random one drawn.\<close>

definition send_image ::
  "prims \<Rightarrow> (bytes \<Rightarrow> str) \<Rightarrow> 'w http \<Rightarrow> bytes \<Rightarrow> bytes \<Rightarrow> str \<Rightarrow> nat \<Rightarrow> nat \<Rightarrow> str \<Rightarrow> nat
     \<Rightarrow> client \<Rightarrow> 'w \<Rightarrow> (ffi_error + unit) \<times> client \<times> 'w" where
  "send_image P b64_encode H nonce image_bytes mime_type width height device_name ts cl w =
     (case encrypt P nonce (cl_key cl) image_bytes of
        Inl e \<Rightarrow> (Inl (ffi_of_client_error (ClientEncrypt e)), cl, w)
      | Inr (ciphertext, nonce) \<Rightarrow>
          (let sha = sha256_hex P ciphertext;
               cl = cl\<lparr>cl_cache := blob_cache_insert sha ciphertext (cl_cache cl)\<rparr>
           in case upload H (cl_base cl) (cl_group cl) sha ciphertext w of
                (Inl e, w) \<Rightarrow> (Inl (ffi_of_client_error (ClientBlob e)), cl, w)
              | (Inr _, w) \<Rightarrow>
                  (let meta = \<lparr>im_mime_type = mime_type, im_width = width, im_height = height,
                               im_size_bytes = length image_bytes, im_sha256_hex = sha,
                               im_nonce_b64 = b64_encode nonce\<rparr>;
                       payload = \<lparr>cp_kind = ClipImage, cp_content = [], cp_device_name = device_name,
                                  cp_ts = ts, cp_image = Some meta\<rparr>;
                       (r, cl) = send_cmd (SendClip payload) cl
                   in (r, cl, w))))"

definition USIZE_MAX :: nat where "USIZE_MAX = 2 ^ 64 - 1"

text \<open>The loop over the LAN peers; \<open>connect i\<close> are the dials for the i-th peer.\<close>

fun fetch_from_peers ::
  "codec \<Rightarrow> (nat \<Rightarrow> socket_addr \<Rightarrow> conn dial) \<Rightarrow> client \<Rightarrow> str \<Rightarrow> bytes \<Rightarrow> nat \<Rightarrow> nat
     \<Rightarrow> socket_addr list list \<Rightarrow> (bytes \<times> bytes) option" where
  "fetch_from_peers C connect cl sha nonce max_bytes i [] = None"
| "fetch_from_peers C connect cl sha nonce max_bytes i (candidates # peers) =
     (case lan_fetch_blob C (connect i) candidates (cl_key cl) (cl_device_id cl) (cl_device_name cl) sha max_bytes of
        None \<Rightarrow> fetch_from_peers C connect cl sha nonce max_bytes (Suc i) peers
      | Some ciphertext \<Rightarrow>
          if sha256_hex (crypto C) ciphertext \<noteq> sha
          then fetch_from_peers C connect cl sha nonce max_bytes (Suc i) peers
          else case decrypt (crypto C) (cl_key cl) nonce ciphertext of
            Inr plain \<Rightarrow> Some (ciphertext, plain)
          | Inl _ \<Rightarrow> fetch_from_peers C connect cl sha nonce max_bytes (Suc i) peers)"

definition fetch_image ::
  "codec \<Rightarrow> (nat \<Rightarrow> socket_addr \<Rightarrow> conn dial) \<Rightarrow> (str \<Rightarrow> str + bytes) \<Rightarrow> 'w http \<Rightarrow> image_meta
     \<Rightarrow> client \<Rightarrow> 'w \<Rightarrow> (ffi_error + bytes) \<times> client \<times> 'w" where
  "fetch_image C connect b64_decode H meta cl w =
     (case b64_decode (im_nonce_b64 meta) of
        Inl e \<Rightarrow> (Inl (ffi_of_client_error (InvalidImageMeta (lit ''nonce_b64: '' @ e))), cl, w)
      | Inr nonce \<Rightarrow>
          if length nonce \<noteq> NONCE_LEN
          then (Inl (ffi_of_client_error (InvalidImageMeta
                  (lit ''nonce length '' @ show_nat (length nonce) @ lit '' != '' @ show_nat NONCE_LEN))), cl, w)
          else
            (let max_bytes = min USIZE_MAX (im_size_bytes meta + 1024);
                 sha = im_sha256_hex meta
             in case (if cl_lan_peers cl > 0
                      then fetch_from_peers C connect cl sha nonce max_bytes 0
                             (map (\<lambda>e. pa_candidates (snd e)) (cl_peer_addrs cl))
                      else None) of
                  Some (ciphertext, plain) \<Rightarrow>
                    (Inr plain, cl\<lparr>cl_cache := blob_cache_insert sha ciphertext (cl_cache cl)\<rparr>, w)
                | None \<Rightarrow>
                    (case download H (cl_base cl) (cl_group cl) sha w of
                       (Inl e, w) \<Rightarrow> (Inl (ffi_of_client_error (ClientBlob e)), cl, w)
                     | (Inr ciphertext, w) \<Rightarrow>
                         (case decrypt (crypto C) (cl_key cl) nonce ciphertext of
                            Inl e \<Rightarrow> (Inl (ffi_of_client_error (ClientEncrypt e)), cl, w)
                          | Inr plain \<Rightarrow>
                              (Inr plain, cl\<lparr>cl_cache := blob_cache_insert sha ciphertext (cl_cache cl)\<rparr>, w)))))"

definition lan_peer_count :: "client \<Rightarrow> nat" where
  "lan_peer_count cl = cl_lan_peers cl mod 2 ^ 32"

definition lan_peers :: "client \<Rightarrow> str list" where
  "lan_peers cl = unique_peer_names (cl_registry cl)"

definition lan_peer_records :: "client \<Rightarrow> lan_peer_record list" where
  "lan_peer_records cl =
     filter (\<lambda>p. lr_device_id p \<noteq> cl_device_id cl) (peer_records (cl_registry cl) (cl_peer_addrs cl))"

definition send_file_to_peer ::
  "codec \<Rightarrow> fs \<Rightarrow> str \<Rightarrow> (socket_addr \<Rightarrow> conn dial) \<Rightarrow> str \<Rightarrow> path \<Rightarrow> str option \<Rightarrow> client
     \<Rightarrow> (ffi_error + sent_file) \<times> conn option" where
  "send_file_to_peer C fs uuid connect target source mime_type cl =
     (let candidates = candidates_for_peer (cl_peer_addrs cl) target
      in if candidates = [] then (Inl (FfiNoLanPeer target), None)
         else case lan_send_file C fs uuid connect candidates (cl_key cl)
                     \<lparr>sr_source = cl_device_id cl, sr_source_name = cl_device_name cl, sr_target = target,
                      sr_path = source, sr_mime = mime_type, sr_config = default_file_config\<rparr> of
                (r, c) \<Rightarrow> (map_err (\<lambda>e. FfiFileTransfer (lan_error_text e)) r, c))"

definition set_file_receive_dir :: "str \<Rightarrow> client \<Rightarrow> client" where
  "set_file_receive_dir dir cl = cl\<lparr>cl_receive_dir := (if trim dir = [] then None else Some dir)\<rparr>"

text \<open>One turn of the worker's task that takes the files from the LAN sessions.\<close>

definition on_received_file :: "received_file \<Rightarrow> client \<Rightarrow> client" where
  "on_received_file file cl = cl\<lparr>cl_received := push_received (received_record file) (cl_received cl)\<rparr>"

definition take_received_files :: "client \<Rightarrow> received_file_record list \<times> client" where
  "take_received_files cl = (cl_received cl, cl\<lparr>cl_received := []\<rparr>)"

section \<open>The end of the worker\<close>

datatype panic_payload = PanicStr str | PanicString str | PanicOther

fun panic_message :: "panic_payload \<Rightarrow> str" where
  "panic_message (PanicStr s) = s"
| "panic_message (PanicString s) = s"
| "panic_message PanicOther = lit ''unknown panic''"

text \<open>The worker thread ends, by returning or by a panic: the channel's receiver is gone.\<close>

definition worker_end :: "panic_payload option \<Rightarrow> client \<Rightarrow> client \<times> listener_event list" where
  "worker_end outcome cl =
     (cl\<lparr>cl_alive := False, cl_receiver := False\<rparr>,
      case outcome of
        None \<Rightarrow> []
      | Some p \<Rightarrow> [OnState (StateError (lit ''client worker crashed: '' @ panic_message p))])"

text \<open>\<open>stop\<close> and \<open>drop\<close>: send Stop, then join the thread if no one has; the join returns when the
  worker has ended.\<close>

definition api_stop :: "panic_payload option \<Rightarrow> client \<Rightarrow> client \<times> listener_event list" where
  "api_stop outcome cl =
     (let cl = snd (send_cmd CmdStop cl)
      in if cl_thread cl \<and> cl_alive cl then
           (case worker_end outcome (cl\<lparr>cl_thread := False\<rparr>) of (cl, evs) \<Rightarrow> (cl, evs))
         else (cl\<lparr>cl_thread := False\<rparr>, []))"

text \<open>Dropping a client stops it.\<close>

definition client_drop :: "panic_payload option \<Rightarrow> client \<Rightarrow> client \<times> listener_event list" where
  "client_drop outcome cl =
     (let cl = snd (send_cmd CmdStop cl)
      in if cl_thread cl \<and> cl_alive cl then worker_end outcome (cl\<lparr>cl_thread := False\<rparr>)
         else (cl\<lparr>cl_thread := False\<rparr>, []))"

section \<open>Facts\<close>

text \<open>A stopped client can be dropped: the worker is joined once, and the drop has nothing left to wait for.\<close>

lemma drop_after_stop:
  assumes "api_stop outcome cl = (cl', evs)"
  shows "client_drop outcome' cl' = (snd (send_cmd CmdStop cl'), []) \<and> \<not> cl_thread cl'"
  using assms
  by (auto simp: api_stop_def client_drop_def worker_end_def send_cmd_def Let_def split: if_splits)

text \<open>The files are taken once, in the order in which they came, the newest 128 of them.\<close>

lemma received_files_taken:
  assumes "cl_received cl = []"
  shows "take_received_files (fold on_received_file fs cl) =
     (drop (length fs - RECEIVED_FILES_CAP) (map received_record fs), cl)"
proof -
  have "fold on_received_file fs cl = cl\<lparr>cl_received := fold push_received (map received_record fs) (cl_received cl)\<rparr>" for cl
    by (induction fs arbitrary: cl) (simp_all add: on_received_file_def)
  then show ?thesis
    using received_log.run_newest [of "[]" "map received_record fs"] assms by (simp add: take_received_files_def)
qed

text \<open>What a delivered image is: the opening of a ciphertext with the given digest where it came from
  the LAN, of the relay's answer otherwise.\<close>

lemma fetch_from_peers_Some:
  "fetch_from_peers C connect cl sha nonce max_bytes i peers = Some (ct, plain) \<Longrightarrow>
     sha256_hex (crypto C) ct = sha \<and> decrypt (crypto C) (cl_key cl) nonce ct = Inr plain"
  by (induction C connect cl sha nonce max_bytes i peers rule: fetch_from_peers.induct)
    (auto split: option.splits if_splits sum.splits)

text \<open>A peer whose blob has the digest asked for answers, when those before it had no such blob.\<close>

lemma fetch_from_peers_at:
  assumes "\<forall>k < length before. \<forall>b. lan_fetch_blob C (connect (i + k)) (before ! k) (cl_key cl) (cl_device_id cl)
        (cl_device_name cl) sha max_bytes = Some b \<longrightarrow> sha256_hex (crypto C) b \<noteq> sha"
    and "lan_fetch_blob C (connect (i + length before)) cands (cl_key cl) (cl_device_id cl) (cl_device_name cl) sha max_bytes = Some ct"
    and "sha256_hex (crypto C) ct = sha" and "decrypt (crypto C) (cl_key cl) nonce ct = Inr plain"
  shows "fetch_from_peers C connect cl sha nonce max_bytes i (before @ cands # after) = Some (ct, plain)"
  using assms
proof (induction before arbitrary: i)
  case (Cons p before)
  have "\<forall>b. lan_fetch_blob C (connect i) p (cl_key cl) (cl_device_id cl) (cl_device_name cl) sha max_bytes = Some b
      \<longrightarrow> sha256_hex (crypto C) b \<noteq> sha"
    using Cons.prems(1) [rule_format, of 0] by simp
  moreover have "\<forall>k < length before. \<forall>b. lan_fetch_blob C (connect (Suc i + k)) (before ! k) (cl_key cl) (cl_device_id cl)
        (cl_device_name cl) sha max_bytes = Some b \<longrightarrow> sha256_hex (crypto C) b \<noteq> sha"
    using Cons.prems(1) [rule_format, of "Suc _"] by simp
  ultimately show ?case
    using Cons.IH [of "Suc i"] Cons.prems(2-4) by (auto split: option.split)
qed simp

definition demo_client :: client where
  "demo_client = projr (client_new None None (lit ''ws://r'') (lit ''g'') (replicate 32 0) (lit ''A'') (lit ''Alice''))"

lemma demo_client_new: "client_new None None (lit ''ws://r'') (lit ''g'') (replicate 32 0) (lit ''A'') (lit ''Alice'') = Inr demo_client"
  by (simp add: demo_client_def client_new_def KEY_LEN_def)

definition demo_reply :: "bytes \<Rightarrow> unit http" where
  "demo_reply b = \<lparr>http_put = \<lambda>_ _ w. (Inl [], w),
     http_get = \<lambda>_ w. (Inr \<lparr>hr_status = 200, hr_bytes = Inr b, hr_text = Inr []\<rparr>, w)\<rparr>"

definition demo_meta :: image_meta where
  "demo_meta = \<lparr>im_mime_type = [], im_width = 1, im_height = 1, im_size_bytes = 2, im_sha256_hex = [], im_nonce_b64 = []\<rparr>"

section \<open>The properties\<close>

text \<open>
  C26: An image is shown only as its sender sealed it, and an image the LAN does not have comes from
  the relay. Whatever the peers and the relay answer, an image that is returned encrypts, under the
  group key and the nonce of its metadata, to a ciphertext that a peer or the relay sent; fetching
  changes nothing of the client but its cache, and a failed fetch not even that.
\<close>

theorem fetch_image_authentic:
  assumes aead: "aead_contract (crypto C)" and fetch: "fetch_image C connect b64_decode H meta cl w = (r, cl', w')"
  shows "case r of
      Inr plain \<Rightarrow>
        (\<exists>nonce ct. b64_decode (im_nonce_b64 meta) = Inr nonce
           \<and> encrypt (crypto C) nonce (cl_key cl) plain = Inr (ct, nonce)
           \<and> (sha256_hex (crypto C) ct = im_sha256_hex meta
              \<or> fst (download H (cl_base cl) (cl_group cl) (im_sha256_hex meta) w) = Inr ct)
           \<and> cl' = cl\<lparr>cl_cache := blob_cache_insert (im_sha256_hex meta) ct (cl_cache cl)\<rparr>)
    | Inl _ \<Rightarrow> cl' = cl"
proof (cases "b64_decode (im_nonce_b64 meta)")
  case (Inl e)
  then show ?thesis using fetch by (auto simp: fetch_image_def)
next
  case (Inr nonce)
  show ?thesis
  proof (cases "length nonce = NONCE_LEN")
    case False
    then show ?thesis using fetch Inr by (auto simp: fetch_image_def)
  next
    case True
    define lan where "lan = (if cl_lan_peers cl > 0
        then fetch_from_peers C connect cl (im_sha256_hex meta) nonce (min USIZE_MAX (im_size_bytes meta + 1024)) 0
               (map (\<lambda>e. pa_candidates (snd e)) (cl_peer_addrs cl))
        else None)"
    note fetch' = fetch [unfolded fetch_image_def Inr sum.case Let_def, folded lan_def]
    show ?thesis
    proof (cases lan)
      case (Some x)
      obtain ct plain where x: "x = (ct, plain)" by (cases x)
      then have "sha256_hex (crypto C) ct = im_sha256_hex meta \<and> decrypt (crypto C) (cl_key cl) nonce ct = Inr plain"
        using Some fetch_from_peers_Some unfolding lan_def by (metis option.distinct(1))
      moreover have "r = Inr plain" "cl' = cl\<lparr>cl_cache := blob_cache_insert (im_sha256_hex meta) ct (cl_cache cl)\<rparr>"
        using fetch' True Some x by auto
      ultimately show ?thesis using Inr decrypt_authentic [OF aead] by auto
    next
      case None
      obtain d w1 where d: "download H (cl_base cl) (cl_group cl) (im_sha256_hex meta) w = (d, w1)" by fastforce
      show ?thesis
        using fetch' True None d Inr
        by (cases d; cases "decrypt (crypto C) (cl_key cl) nonce (projr d)") (auto dest: decrypt_authentic [OF aead])
    qed
  qed
qed

theorem fetch_image_authentic_witness:
  "\<exists>ct. encrypt demo_prims (replicate 12 0) (replicate 32 0) [7, 8] = Inr (ct, replicate 12 0)"
proof -
  have crypto: "crypto (table_codec []) = demo_prims" by (simp add: table_codec_def)
  have "fetch_image (table_codec []) (\<lambda>i a. Refused) (\<lambda>s. Inr (replicate 12 0)) (demo_reply (replicate 16 0 @ [7, 8]))
      demo_meta demo_client () =
    (Inr [7, 8], demo_client\<lparr>cl_cache := blob_cache_insert [] (replicate 16 0 @ [7, 8]) blob_cache_new\<rparr>, ())"
    by (simp add: fetch_image_def demo_reply_def demo_meta_def demo_client_def client_new_def KEY_LEN_def NONCE_LEN_def
        crypto download_def decrypt_def demo_prims_def)
  from fetch_image_authentic [OF _ this] show ?thesis
    by (auto simp: crypto demo_aead demo_client_def client_new_def KEY_LEN_def)
qed

text \<open>
  After the worker ended, by a stop or by a panic, nothing is accepted. Every call that queues a
  command answers that the client stopped and queues nothing, the liveness flag is off, a second stop
  changes nothing and reports nothing, and only a panic is reported, as an error state, once.
\<close>

theorem stopped_client_spec:
  assumes thread: "cl_thread cl" "cl_alive cl" "cl_receiver cl"
  shows "let (cl', evs) = api_stop outcome cl
     in fst (api_send_clip p cl') = Inl FfiStopped \<and> fst (api_fetch_recent cl') = Inl FfiStopped
        \<and> fst (refresh_lan_now cl') = Inl FfiStopped
        \<and> cl_cmds cl' = cl_cmds cl @ [CmdStop] \<and> cl_cmds (snd (api_send_clip p cl')) = cl_cmds cl'
        \<and> \<not> cl_alive cl' \<and> api_stop outcome' cl' = (cl', [])
        \<and> length evs = (if outcome = None then 0 else 1)"
  using thread
  by (cases outcome)
    (simp_all add: api_stop_def worker_end_def send_cmd_def api_send_clip_def api_fetch_recent_def
      refresh_lan_now_def notify_def Let_def)

theorem stopped_client_spec_witness:
  "snd (api_stop None demo_client) = [] \<and> \<not> cl_alive (fst (api_stop None demo_client))"
  using stopped_client_spec [of demo_client None undefined None]
  by (simp add: demo_client_def client_new_def KEY_LEN_def Let_def case_prod_unfold)

end
