(* ===== verification/LanNode.thy ===== *)
theory LanNode
  imports LanTransfer LanPeers
begin

text \<open>
  The LAN node of \<^verbatim>\<open>core/src/lan.rs\<close>: one TCP session with a peer (\<open>run_peer\<close>), the registry of live
  sessions, the flag a task waits for, the reconciler that dials, and the transport's life across
  suspend and resume. A session is a function of the stream and of the script of its \<open>select\<close>: which
  branch wins, when, whether the LAN is active then, and how many bytes of an unfinished frame the
  dropped read had consumed. Times are in ms.
\<close>

section \<open>A session\<close>

definition LAN_PING_INTERVAL :: nat where "LAN_PING_INTERVAL = 15 * 1000"
definition LAN_IDLE_TIMEOUT :: nat where "LAN_IDLE_TIMEOUT = 45 * 1000"
definition RECONNECT_INTERVAL :: nat where "RECONNECT_INTERVAL = 5 * 1000"

record outgoing_lan =
  ol_sender :: str
  ol_ts :: nat
  ol_payload :: clip_payload

record peer_context =
  px_codec :: codec
  px_key :: bytes
  px_self :: str
  px_name :: str
  px_expected :: "str option"
  px_registry_key :: str

text \<open>What a session shares with the node: the registry and its count, the queues, the cache, the files.\<close>

record node_shared =
  nh_count :: nat
  nh_registry :: peer_registry
  nh_inbound :: "incoming_lan_clip list"
  nh_received :: "received_file list"
  nh_cache :: blob_cache
  nh_receive_dir :: "str option"
  nh_fs :: fs

definition guard_new :: "str \<Rightarrow> str \<Rightarrow> str \<Rightarrow> node_shared \<Rightarrow> node_shared" where
  "guard_new key peer_did name n =
     n\<lparr>nh_count := nh_count n + 1, nh_registry := AList.update key (peer_did, name) (nh_registry n)\<rparr>"

definition guard_drop :: "str \<Rightarrow> node_shared \<Rightarrow> node_shared" where
  "guard_drop key n = n\<lparr>nh_count := nh_count n - 1, nh_registry := AList.delete key (nh_registry n)\<rparr>"

definition deliver :: "str \<Rightarrow> nat \<Rightarrow> clip_payload \<Rightarrow> node_shared \<Rightarrow> node_shared" where
  "deliver sender ts payload n =
     n\<lparr>nh_inbound := nh_inbound n @ [\<lparr>il_sender = sender, il_ts = ts, il_payload = payload\<rparr>]\<rparr>"

text \<open>
  The two reads with a timeout; \<open>late\<close>: no frame came within five seconds. A read that is dropped
  loses the bytes it had consumed.
\<close>

definition handshake :: "peer_context \<Rightarrow> bool \<Rightarrow> conn \<Rightarrow> (lan_error + str \<times> str) \<times> conn" where
  "handshake X late c =
     then_c (write_frame (px_codec X) (px_key X) (Hello (px_self X) PROTO_VERSION (px_name X)) c) (\<lambda>_ c.
       if late then (Inl (LanIo (lit ''hello handshake failed'')), c)
       else case read_frame (px_codec X) (px_key X) c of
         (Inr (Some (Hello device_id _ device_name)), c) \<Rightarrow> (Inr (device_id, device_name), c)
       | (Inr (Some _), c) \<Rightarrow> (Inl (LanIo (lit ''first frame was not Hello'')), c)
       | (_, c) \<Rightarrow> (Inl (LanIo (lit ''hello handshake failed'')), c))"

datatype peer_branch =
    PingTick | ModeNotified | OutReady outgoing_lan | OutLagged nat | OutClosed | FrameReady

record peer_event =
  pe_time :: nat
  pe_active :: bool
  pe_cut :: nat
  pe_branch :: peer_branch

definition drop_read :: "nat \<Rightarrow> conn \<Rightarrow> conn" where
  "drop_read n c = c\<lparr>c_in := drop n (c_in c)\<rparr>"

text \<open>The loop; None as a result: it is still running when the script ends.\<close>

fun peer_loop ::
  "peer_context \<Rightarrow> str \<Rightarrow> nat \<Rightarrow> peer_event list \<Rightarrow> conn \<Rightarrow> node_shared
     \<Rightarrow> (lan_error + unit) option \<times> conn \<times> node_shared" where
  "peer_loop X peer_did last_seen [] c n = (None, c, n)"
| "peer_loop X peer_did last_seen (e # es) c n =
     (if pe_time e \<ge> last_seen + LAN_IDLE_TIMEOUT
      then (Some (Inl (LanIo (lit ''no inbound frame within idle window''))), c, n)
      else case pe_branch e of
        PingTick \<Rightarrow>
          if pe_active e then
            (case write_frame (px_codec X) (px_key X) Ping (drop_read (pe_cut e) c) of
               (Inl err, c) \<Rightarrow> (Some (Inl err), c, n)
             | (Inr _, c) \<Rightarrow> peer_loop X peer_did last_seen es c n)
          else peer_loop X peer_did last_seen es c n
      | ModeNotified \<Rightarrow>
          if \<not> pe_active e then (Some (Inr ()), drop_read (pe_cut e) c, n)
          else peer_loop X peer_did last_seen es (drop_read (pe_cut e) c) n
      | OutReady out \<Rightarrow>
          if \<not> pe_active e then peer_loop X peer_did last_seen es c n
          else if ol_sender out = peer_did then peer_loop X peer_did last_seen es (drop_read (pe_cut e) c) n
          else
            (case write_frame (px_codec X) (px_key X) (LanClip (ol_sender out) (ol_ts out) (ol_payload out))
                    (drop_read (pe_cut e) c) of
               (Inl err, c) \<Rightarrow> (Some (Inl err), c, n)
             | (Inr _, c) \<Rightarrow> peer_loop X peer_did last_seen es c n)
      | OutLagged k \<Rightarrow>
          if pe_active e then peer_loop X peer_did last_seen es (drop_read (pe_cut e) c) n
          else peer_loop X peer_did last_seen es c n
      | OutClosed \<Rightarrow>
          if pe_active e then (Some (Inr ()), drop_read (pe_cut e) c, n)
          else peer_loop X peer_did last_seen es c n
      | FrameReady \<Rightarrow>
          (case read_frame (px_codec X) (px_key X) c of
             (Inl err, c) \<Rightarrow> (Some (Inl err), c, n)
           | (Inr None, c) \<Rightarrow> (Some (Inr ()), c, n)
           | (Inr (Some (LanClip sender ts payload)), c) \<Rightarrow>
               peer_loop X peer_did (pe_time e) es c (deliver sender ts payload n)
           | (Inr (Some _), c) \<Rightarrow> peer_loop X peer_did (pe_time e) es c n))"

text \<open>The control session: the guard, what the classifying read had found, the loop, the guard's end.\<close>

definition control_session ::
  "peer_context \<Rightarrow> str \<Rightarrow> str \<Rightarrow> lan_message option \<Rightarrow> nat \<Rightarrow> bool \<Rightarrow> peer_event list \<Rightarrow> conn \<Rightarrow> node_shared
     \<Rightarrow> (lan_error + unit) option \<times> conn \<times> node_shared" where
  "control_session X peer_did peer_name pending now active es c n =
     (let display_name = (if trim peer_name = [] then short_id peer_did else peer_name);
          n = guard_new (px_registry_key X) peer_did display_name n;
          n = (case pending of Some (LanClip sender ts payload) \<Rightarrow> deliver sender ts payload n | _ \<Rightarrow> n)
      in if \<not> active then (Some (Inr ()), c, guard_drop (px_registry_key X) n)
         else case peer_loop X peer_did now es c n of
           (Some r, c, n) \<Rightarrow> (Some r, c, guard_drop (px_registry_key X) n)
         | (None, c, n) \<Rightarrow> (None, c, n))"

record peer_script =
  ps_hello_late :: bool
  ps_class_late :: "nat option"
  ps_up :: nat
  ps_active :: bool
  ps_events :: "peer_event list"

text \<open>The first frame after the hello decides what the connection is for.\<close>

definition receive_on_peer ::
  "peer_context \<Rightarrow> str \<Rightarrow> file_offer \<Rightarrow> conn \<Rightarrow> node_shared \<Rightarrow> (lan_error + unit) option \<times> conn \<times> node_shared" where
  "receive_on_peer X peer_did offer c n =
     (case nh_receive_dir n of
        None \<Rightarrow>
          (case reject_file_offer (px_codec X) (px_key X) (fo_transfer_id offer)
                  (lit ''file receiving is not enabled'') c of
             (r, c) \<Rightarrow> (Some r, c, n))
      | Some dir \<Rightarrow>
          (case receive_offered_file (px_codec X) (px_key X) (px_self X) peer_did dir default_file_config offer (nh_fs n) c of
             (Inl e, fs, c) \<Rightarrow> (Some (Inl e), c, n\<lparr>nh_fs := fs\<rparr>)
           | (Inr received, fs, c) \<Rightarrow> (Some (Inr ()), c, n\<lparr>nh_fs := fs, nh_received := nh_received n @ [received]\<rparr>)))"

definition classify ::
  "peer_context \<Rightarrow> str \<Rightarrow> str \<Rightarrow> peer_script \<Rightarrow> conn \<Rightarrow> node_shared
     \<Rightarrow> (lan_error + unit) option \<times> conn \<times> node_shared" where
  "classify X peer_did peer_name S c n =
     (let control = (\<lambda>pending c. control_session X peer_did peer_name pending (ps_up S) (ps_active S) (ps_events S) c n)
      in case ps_class_late S of
        Some lost \<Rightarrow> control None (drop_read lost c)
      | None \<Rightarrow>
          (case read_frame (px_codec X) (px_key X) c of
             (Inl e, c) \<Rightarrow> (Some (Inl e), c, n)
           | (Inr None, c) \<Rightarrow> (Some (Inr ()), c, n)
           | (Inr (Some (BlobRequest sha)), c) \<Rightarrow>
               (case serve_blob (px_codec X) (px_key X) (nh_cache n) sha c of (r, c) \<Rightarrow> (Some r, c, n))
           | (Inr (Some (FileOfferMsg offer)), c) \<Rightarrow> receive_on_peer X peer_did offer c n
           | (Inr (Some other), c) \<Rightarrow> control (Some other) c))"

definition run_peer ::
  "peer_context \<Rightarrow> peer_script \<Rightarrow> conn \<Rightarrow> node_shared \<Rightarrow> (lan_error + unit) option \<times> conn \<times> node_shared" where
  "run_peer X S c n =
     (case handshake X (ps_hello_late S) c of
        (Inl e, c) \<Rightarrow> (Some (Inl e), c, n)
      | (Inr (peer_did, peer_name), c) \<Rightarrow>
          if (case px_expected X of Some expected \<Rightarrow> short_id peer_did \<noteq> short_id expected | None \<Rightarrow> False)
          then (Some (Inl (LanIo (lit ''peer device_id mismatch''))), c, n)
          else if peer_did = px_self X then (Some (Inr ()), c, n)
          else
            (case write_frame (px_codec X) (px_key X) Ping c of
               (Inl e, c) \<Rightarrow> (Some (Inl e), c, n)
             | (Inr _, c) \<Rightarrow> classify X peer_did peer_name S c n))"

definition dial_and_run ::
  "peer_context \<Rightarrow> peer_script \<Rightarrow> (socket_addr \<Rightarrow> conn dial) \<Rightarrow> socket_addr list \<Rightarrow> node_shared
     \<Rightarrow> (lan_error + unit) option \<times> conn option \<times> node_shared" where
  "dial_and_run X S connect candidates n =
     (case dial_first connect candidates of
        None \<Rightarrow> (Some (Inl (LanIo (lit ''no advertised address was reachable''))), None, n)
      | Some c \<Rightarrow> (case run_peer X S c n of (r, c, n) \<Rightarrow> (r, Some c, n)))"

section \<open>The registry of live sessions\<close>

text \<open>Sessions begin and end in any order; \<open>live\<close> are the keys of those that have begun, each with what it registered.\<close>

datatype guard_event = SessionUp str str str | SessionDown str

fun guard_step :: "guard_event \<Rightarrow> node_shared \<Rightarrow> node_shared" where
  "guard_step (SessionUp key peer_did name) n = guard_new key peer_did name n"
| "guard_step (SessionDown key) n = guard_drop key n"

fun live_step :: "guard_event \<Rightarrow> (str \<times> str \<times> str) list \<Rightarrow> (str \<times> str \<times> str) list" where
  "live_step (SessionUp key peer_did name) live = live @ [(key, peer_did, name)]"
| "live_step (SessionDown key) live = filter (\<lambda>s. fst s \<noteq> key) live"

text \<open>A key goes up when it is not up, and down when it is.\<close>

fun proper :: "(str \<times> str \<times> str) list \<Rightarrow> guard_event list \<Rightarrow> bool" where
  "proper live [] \<longleftrightarrow> True"
| "proper live (e # es) \<longleftrightarrow>
     (case e of SessionUp key _ _ \<Rightarrow> key \<notin> fst ` set live | SessionDown key \<Rightarrow> key \<in> fst ` set live)
     \<and> proper (live_step e live) es"

section \<open>Waiting for a flag\<close>

text \<open>
  \<open>wait_until_flag\<close> against \<open>set_lan_active\<close>, step by step: the waiter enables its notification, checks the
  flag, and parks; the setter stores the flag and then wakes the waiters that are enabled.
\<close>

datatype waiter_pc = AtStart | IsEnabled | HasChecked | IsParked | HasReturned

record flag_wait =
  fw_flag :: bool
  fw_unnotified :: nat
  fw_pc :: waiter_pc
  fw_woken :: bool

inductive flag_step :: "bool \<Rightarrow> flag_wait \<Rightarrow> flag_wait \<Rightarrow> bool" for want where
  store: "flag_step want s (s\<lparr>fw_flag := v, fw_unnotified := Suc (fw_unnotified s)\<rparr>)"
| notify_waiters: "fw_unnotified s = Suc k \<Longrightarrow>
    flag_step want s (s\<lparr>fw_unnotified := k, fw_woken := fw_woken s \<or> fw_pc s \<in> {IsEnabled, HasChecked, IsParked}\<rparr>)"
| enable: "fw_pc s = AtStart \<Longrightarrow> flag_step want s (s\<lparr>fw_pc := IsEnabled, fw_woken := False\<rparr>)"
| check_return: "fw_pc s = IsEnabled \<Longrightarrow> fw_flag s = want \<Longrightarrow> flag_step want s (s\<lparr>fw_pc := HasReturned\<rparr>)"
| check_fails: "fw_pc s = IsEnabled \<Longrightarrow> fw_flag s \<noteq> want \<Longrightarrow> flag_step want s (s\<lparr>fw_pc := HasChecked\<rparr>)"
| park: "fw_pc s = HasChecked \<Longrightarrow> flag_step want s (s\<lparr>fw_pc := IsParked\<rparr>)"
| wake: "fw_pc s = IsParked \<Longrightarrow> fw_woken s \<Longrightarrow> flag_step want s (s\<lparr>fw_pc := AtStart\<rparr>)"

inductive_cases flag_stepE: "flag_step want s s'"

text \<open>The waiter's own next step, when it has one.\<close>

definition waiter_step :: "bool \<Rightarrow> flag_wait \<Rightarrow> flag_wait option" where
  "waiter_step want s =
     (case fw_pc s of
        AtStart \<Rightarrow> Some (s\<lparr>fw_pc := IsEnabled, fw_woken := False\<rparr>)
      | IsEnabled \<Rightarrow> Some (s\<lparr>fw_pc := (if fw_flag s = want then HasReturned else HasChecked)\<rparr>)
      | HasChecked \<Rightarrow> Some (s\<lparr>fw_pc := IsParked\<rparr>)
      | IsParked \<Rightarrow> if fw_woken s then Some (s\<lparr>fw_pc := AtStart\<rparr>) else None
      | HasReturned \<Rightarrow> None)"

fun wait_until_flag :: "bool \<Rightarrow> nat \<Rightarrow> flag_wait \<Rightarrow> flag_wait" where
  "wait_until_flag want 0 s = s"
| "wait_until_flag want (Suc n) s =
     (case waiter_step want s of Some s' \<Rightarrow> wait_until_flag want n s' | None \<Rightarrow> s)"

section \<open>The node across suspend and resume\<close>

text \<open>
  One generation of the transport: the port of its listener, the sender that keeps its accept loop
  going, and the thread that forwards the mDNS events, if it could be started. Dropping it stops the
  accept loop and asks the daemon to shut down; only when the daemon confirms, within a second, is the
  forwarder joined. The reply is its time in ms and whether it is the confirmation.
\<close>

record transport_guard =
  tg_port :: "16 word"
  tg_accepting :: bool
  tg_forwarder :: bool

datatype shutdown_reply = ShutdownRefused | ShutdownStatus nat bool

definition transport_guard_drop :: "shutdown_reply \<Rightarrow> transport_guard \<Rightarrow> nat \<times> transport_guard" where
  "transport_guard_drop reply g =
     (let g = g\<lparr>tg_accepting := False\<rparr>;
          (waited, complete) = (case reply of
             ShutdownRefused \<Rightarrow> (0, False)
           | ShutdownStatus t confirmed \<Rightarrow> if t \<le> 1000 then (t, confirmed) else (1000, False))
      in (waited, if complete then g\<lparr>tg_forwarder := False\<rparr> else g))"

record lan_node =
  ln_active :: bool
  ln_transport :: "transport_guard option"
  ln_dropped :: "(nat \<times> transport_guard) list"
  ln_port :: "16 word"
  ln_known :: known_peers
  ln_addrs :: peer_addrs
  ln_outbound :: "str list"
  ln_dials :: "(str \<times> known_peer) list"
  ln_out :: "outgoing_lan list"

text \<open>
  \<open>start_transport\<close>: the port the listener is bound to, then the mDNS daemon, the service record, the
  registration and the browsing, each of which may fail. The port is stored as soon as it is known.
\<close>

record transport_env =
  tr_bind :: "str + 16 word"
  tr_mdns :: "str option"
  tr_forwarder :: bool
  tr_shutdown :: shutdown_reply

definition start_transport :: "transport_env \<Rightarrow> 16 word \<Rightarrow> (lan_error + transport_guard) \<times> 16 word" where
  "start_transport T port =
     (case tr_bind T of
        Inl e \<Rightarrow> (Inl (LanIo e), port)
      | Inr bound_port \<Rightarrow>
          (case tr_mdns T of
             Some e \<Rightarrow> (Inl (LanMdns e), bound_port)
           | None \<Rightarrow>
               (Inr \<lparr>tg_port = bound_port, tg_accepting = True, tg_forwarder = tr_forwarder T\<rparr>, bound_port)))"

text \<open>The service instance: its name from the device id and four random bytes, and its TXT record.\<close>

definition service_instance :: "str \<Rightarrow> bytes \<Rightarrow> str" where
  "service_instance device_id random = short_id device_id @ lit ''-'' @ hex_digest random"

definition service_hostname :: "str \<Rightarrow> bytes \<Rightarrow> str" where
  "service_hostname device_id random = lit ''clipbridge-'' @ service_instance device_id random @ lit ''.local.''"

definition service_props :: "prims \<Rightarrow> str \<Rightarrow> str \<Rightarrow> (str \<times> str) list" where
  "service_props P group_id device_id =
     [(lit ''v'', show_nat PROTO_VERSION), (lit ''gid'', group_fingerprint P group_id), (lit ''did'', device_id)]"

definition lan_spawn :: "bool \<Rightarrow> transport_env \<Rightarrow> lan_error + lan_node" where
  "lan_spawn active T =
     (let node = \<lparr>ln_active = active, ln_transport = None, ln_dropped = [], ln_port = 0, ln_known = [], ln_addrs = [],
                  ln_outbound = [], ln_dials = [], ln_out = []\<rparr>
      in if active then
           (case start_transport T 0 of
              (Inl e, _) \<Rightarrow> Inl e
            | (Inr g, port) \<Rightarrow> Inr (node\<lparr>ln_transport := Some g, ln_port := port\<rparr>))
         else Inr node)"

text \<open>One turn of the lifecycle task, once the flag it waits for has its value; a failed start is retried after a second.\<close>

definition lifecycle_turn :: "transport_env \<Rightarrow> lan_node \<Rightarrow> lan_node" where
  "lifecycle_turn T n =
     (case ln_transport n of
        Some g \<Rightarrow>
          if \<not> ln_active n
          then n\<lparr>ln_transport := None, ln_dropped := ln_dropped n @ [transport_guard_drop (tr_shutdown T) g],
                 ln_port := 0, ln_known := [], ln_outbound := [], ln_addrs := []\<rparr>
          else n
      | None \<Rightarrow>
          if ln_active n then
            (case start_transport T (ln_port n) of
               (Inr g, port) \<Rightarrow> n\<lparr>ln_transport := Some g, ln_port := port\<rparr>
             | (Inl _, port) \<Rightarrow> n\<lparr>ln_port := port\<rparr>)
          else n)"

text \<open>The reconciler's loop over a snapshot of the known peers: a peer is dialled unless a session to it is on.\<close>

fun reconcile :: "known_peers \<Rightarrow> lan_node \<Rightarrow> lan_node" where
  "reconcile [] n = n"
| "reconcile ((fullname, kp) # snapshot) n =
     (if fullname \<in> set (ln_outbound n) then reconcile snapshot n
      else reconcile snapshot
        (n\<lparr>ln_outbound := fullname # ln_outbound n, ln_dials := ln_dials n @ [(fullname, kp)]\<rparr>))"

definition reconciler_turn :: "lan_node \<Rightarrow> lan_node" where
  "reconciler_turn n = (if ln_active n then reconcile (ln_known n) n else n)"

text \<open>The end of a dialled session.\<close>

definition dial_ended :: "str \<Rightarrow> lan_node \<Rightarrow> lan_node" where
  "dial_ended fullname n = n\<lparr>ln_outbound := removeAll fullname (ln_outbound n)\<rparr>"

text \<open>An accepted connection: dropped while inactive, otherwise a session under the address as its key.\<close>

definition accept_one :: "str \<Rightarrow> lan_node \<Rightarrow> str option" where
  "accept_one addr n = (if \<not> ln_active n then None else Some (lit ''inbound:'' @ addr))"

definition ingest_relay_peers :: "iface list option \<Rightarrow> str \<Rightarrow> lan_peer list \<Rightarrow> lan_node \<Rightarrow> lan_node" where
  "ingest_relay_peers ifaces self peers n =
     (case apply_relay_snapshot ifaces self peers (ln_addrs n) (ln_known n) of
        (addrs, known) \<Rightarrow> n\<lparr>ln_addrs := addrs, ln_known := known\<rparr>)"

definition on_service_event :: "iface list option \<Rightarrow> str \<Rightarrow> str \<Rightarrow> service_event \<Rightarrow> lan_node \<Rightarrow> lan_node" where
  "on_service_event ifaces self fingerprint ev n =
     (case discover_event self fingerprint ifaces ev (ln_addrs n, ln_known n) of
        (addrs, known) \<Rightarrow> n\<lparr>ln_addrs := addrs, ln_known := known\<rparr>)"

definition lan_broadcast :: "str \<Rightarrow> nat \<Rightarrow> clip_payload \<Rightarrow> lan_node \<Rightarrow> lan_node" where
  "lan_broadcast sender ts payload n =
     n\<lparr>ln_out := ln_out n @ [\<lparr>ol_sender = sender, ol_ts = ts, ol_payload = payload\<rparr>]\<rparr>"

definition node_candidates :: "iface list option \<Rightarrow> lan_node \<Rightarrow> lan_candidate list" where
  "node_candidates ifaces n = advertise_candidate_networks ifaces (ln_port n)"

section \<open>Facts about a session\<close>

definition sealed_clip :: "peer_context \<Rightarrow> incoming_lan_clip \<Rightarrow> bool" where
  "sealed_clip X cl \<longleftrightarrow>
     (\<exists>nonce plain cipher. encrypt (crypto (px_codec X)) nonce (px_key X) plain = Inr (cipher, nonce)
        \<and> json_dec (px_codec X) plain = Some (LanClip (il_sender cl) (il_ts cl) (il_payload cl)))"

lemma read_clip_sealed:
  assumes "aead_contract (crypto (px_codec X))"
    and "read_frame (px_codec X) (px_key X) c = (Inr (Some (LanClip sender ts payload)), c')"
  shows "sealed_clip X \<lparr>il_sender = sender, il_ts = ts, il_payload = payload\<rparr>"
  using read_frame_sealed [OF assms] by (auto simp: sealed_clip_def)

text \<open>What the loop may change of the shared state: it queues sealed clips.\<close>

definition queued :: "peer_context \<Rightarrow> node_shared \<Rightarrow> node_shared \<Rightarrow> bool" where
  "queued X n n' \<longleftrightarrow> (\<exists>new. n' = n\<lparr>nh_inbound := nh_inbound n @ new\<rparr> \<and> list_all (sealed_clip X) new)"

lemma queued_refl [simp, intro]: "queued X n n"
  by (auto simp: queued_def intro: exI [of _ "[]"])

lemma queued_trans: "queued X n n1 \<Longrightarrow> queued X n1 n2 \<Longrightarrow> queued X n n2"
  by (auto simp: queued_def)

lemma queued_deliver:
  "sealed_clip X \<lparr>il_sender = sender, il_ts = ts, il_payload = payload\<rparr> \<Longrightarrow> queued X n (deliver sender ts payload n)"
  by (auto simp: queued_def deliver_def)

lemma peer_loop_queued:
  assumes "aead_contract (crypto (px_codec X))"
  shows "peer_loop X did ls es c n = (r, c', n') \<Longrightarrow> queued X n n'"
proof (induction es arbitrary: ls c n)
  case (Cons e es)
  note IH = Cons.IH
  show ?case
  proof (cases "pe_time e \<ge> ls + LAN_IDLE_TIMEOUT")
    case False
    show ?thesis
    proof (cases "pe_branch e")
      case FrameReady
      obtain x c1 where rd: "read_frame (px_codec X) (px_key X) c = (x, c1)" by fastforce
      show ?thesis
      proof (cases "\<exists>sender ts payload. x = Inr (Some (LanClip sender ts payload))")
        case True
        then obtain sender ts payload where x: "x = Inr (Some (LanClip sender ts payload))" by blast
        have "queued X (deliver sender ts payload n) n'"
          using Cons.prems False FrameReady rd x by (auto intro: IH)
        then show ?thesis
          using queued_deliver [OF read_clip_sealed [OF assms rd [unfolded x]]] queued_trans by blast
      next
        case other: False
        show ?thesis
          using Cons.prems False FrameReady rd other
          by (cases x; cases "projr x"; cases "the (projr x)") (auto intro: IH)
      qed
    qed (use Cons.prems False in \<open>auto intro: IH split: if_splits sum.splits prod.splits\<close>)
  qed (use Cons.prems in auto)
qed simp

lemma guard_round:
  assumes "key \<notin> set (keys (nh_registry n))" and "queued X (guard_new key did name n) n'"
  shows "queued X n (guard_drop key n')"
proof -
  have "AList.delete key (nh_registry n @ [(key, did, name)]) = nh_registry n"
    using assms(1) delete_absent [of key "nh_registry n"] by (simp add: AList.delete_eq)
  then show ?thesis
    using assms by (auto simp: queued_def guard_new_def guard_drop_def update_new)
qed

lemma control_session_effect:
  assumes aead: "aead_contract (crypto (px_codec X))"
    and fresh: "px_registry_key X \<notin> set (keys (nh_registry n))"
    and pending: "\<And>sender ts payload. pending = Some (LanClip sender ts payload) \<Longrightarrow>
      sealed_clip X \<lparr>il_sender = sender, il_ts = ts, il_payload = payload\<rparr>"
    and run: "control_session X did name pending now active es c n = (r, c', n')"
  shows "case r of Some _ \<Rightarrow> queued X n n'
     | None \<Rightarrow> queued X (guard_new (px_registry_key X) did (if trim name = [] then short_id did else name) n) n'"
proof -
  let ?g = "guard_new (px_registry_key X) did (if trim name = [] then short_id did else name) n"
  let ?d = "case pending of Some (LanClip sender ts payload) \<Rightarrow> deliver sender ts payload ?g | _ \<Rightarrow> ?g"
  have d: "queued X ?g ?d"
    using pending queued_deliver by (auto split: option.splits lan_message.splits)
  show ?thesis
  proof (cases active)
    case False
    then show ?thesis using run guard_round [OF fresh d] by (auto simp: control_session_def Let_def)
  next
    case True
    obtain r1 c1 n1 where l: "peer_loop X did now es c ?d = (r1, c1, n1)" by (metis prod_cases3)
    have "queued X ?g n1" using queued_trans [OF d peer_loop_queued [OF aead l]] .
    then show ?thesis
      using run True l guard_round [OF fresh] by (cases r1) (auto simp: control_session_def Let_def)
  qed
qed

text \<open>The effect of a connection on what the node shares, its files apart.\<close>

definition peer_effect :: "peer_context \<Rightarrow> str \<Rightarrow> (lan_error + unit) option \<Rightarrow> node_shared \<Rightarrow> node_shared \<Rightarrow> bool" where
  "peer_effect X did r n n' \<longleftrightarrow>
     (\<exists>new. nh_inbound n' = nh_inbound n @ new \<and> list_all (sealed_clip X) new) \<and> nh_cache n' = nh_cache n
     \<and> (case r of
          Some _ \<Rightarrow> nh_count n' = nh_count n \<and> nh_registry n' = nh_registry n
        | None \<Rightarrow> nh_count n' = nh_count n + 1
            \<and> (\<exists>name. nh_registry n' = nh_registry n @ [(px_registry_key X, did, name)]))"

lemma peer_effect_same: "peer_effect X did (Some r) n n"
  by (simp add: peer_effect_def)

lemma control_effect:
  assumes "aead_contract (crypto (px_codec X))" "px_registry_key X \<notin> set (keys (nh_registry n))"
    and "\<And>sender ts payload. pending = Some (LanClip sender ts payload) \<Longrightarrow>
      sealed_clip X \<lparr>il_sender = sender, il_ts = ts, il_payload = payload\<rparr>"
    and "control_session X did name pending now active es c n = (r, c', n')"
  shows "peer_effect X did r n n'"
  using control_session_effect [OF assms] assms(2)
  by (cases r) (auto simp: peer_effect_def queued_def guard_new_def update_new)

lemma classify_effect:
  assumes aead: "aead_contract (crypto (px_codec X))"
    and fresh: "px_registry_key X \<notin> set (keys (nh_registry n))"
    and run: "classify X did name S c n = (r, c', n')"
  shows "peer_effect X did r n n'"
proof (cases "ps_class_late S")
  case (Some lost)
  then show ?thesis
    using run control_effect [OF aead fresh, of None] by (auto simp: classify_def Let_def)
next
  case None
  obtain x c1 where rd: "read_frame (px_codec X) (px_key X) c = (x, c1)" by fastforce
  consider (err) e where "x = Inl e" | (closed) "x = Inr None" | (blob) sha where "x = Inr (Some (BlobRequest sha))"
    | (offer) offer where "x = Inr (Some (FileOfferMsg offer))"
    | (control) m where "x = Inr (Some m)" "\<nexists>sha. m = BlobRequest sha" "\<nexists>offer. m = FileOfferMsg offer"
    by (metis old.sum.exhaust option.exhaust)
  then show ?thesis
  proof cases
    case (control m)
    have sealed: "sealed_clip X \<lparr>il_sender = sender, il_ts = ts, il_payload = payload\<rparr>"
      if "Some m = Some (LanClip sender ts payload)" for sender ts payload
      using read_clip_sealed [OF aead] rd control(1) that by simp
    have "control_session X did name (Some m) (ps_up S) (ps_active S) (ps_events S) c1 n = (r, c', n')"
      using control run None rd by (cases m) (simp_all add: classify_def)
    from control_effect [OF aead fresh sealed this] show ?thesis .
  next
    case (offer f)
    then have "receive_on_peer X did f c1 n = (r, c', n')"
      using run None rd by (simp add: classify_def)
    then show ?thesis
      by (auto simp: receive_on_peer_def peer_effect_def split: option.splits prod.splits sum.splits)
  next
    case (blob sha)
    then show ?thesis
      using run None rd by (auto simp: classify_def peer_effect_same split: prod.splits)
  qed (use run None rd in \<open>auto simp: classify_def peer_effect_same\<close>)
qed

declare peer_loop.simps(2) [simp del]

section \<open>The properties\<close>


definition demo_context :: peer_context where
  "demo_context = \<lparr>px_codec = table_codec [Ping, Hello [66] 1 [], Hello [65] 1 []], px_key = [], px_self = [65], px_name = [],
     px_expected = None, px_registry_key = [1]\<rparr>"

definition demo_shared :: node_shared where
  "demo_shared = \<lparr>nh_count = 0, nh_registry = [], nh_inbound = [], nh_received = [], nh_cache = blob_cache_new,
     nh_receive_dir = None, nh_fs = \<lparr>fs_entries = (\<lambda>_. None), fs_faults = (\<lambda>_. False)\<rparr>\<rparr>"

definition demo_script :: peer_script where
  "demo_script = \<lparr>ps_hello_late = True, ps_class_late = None, ps_up = 0, ps_active = True, ps_events = []\<rparr>"


text \<open>
  How an inbound session starts: the hello both ways and a ping, then the frame that says what the
  connection is for.
\<close>

lemma run_peer_starts:
  fixes X :: peer_context
  defines "C \<equiv> px_codec X" and "key \<equiv> px_key X"
  assumes C: "codec_contract C" and hello: "frame_of C key (Hello source v source_name) f1"
    and c: "c_in c = f1 @ rest" "nonces_ok c" "c_limit c = None"
    and script: "\<not> ps_hello_late S" "px_expected X = None" "source \<noteq> px_self X"
    and answers: "sendable C key (Hello (px_self X) PROTO_VERSION (px_name X))" "sendable C key Ping"
  obtains fh fp c' where "run_peer X S c n = classify X source source_name S c' n"
    and "c_in c' = rest" and "nonces_ok c'" and "c_limit c' = None"
    and "frame_of C key (Hello (px_self X) PROTO_VERSION (px_name X)) fh" and "frame_of C key Ping fp"
    and "c_out c' = c_out c @ fh @ fp"
proof -
  obtain c1 where w1: "write_frame C key (Hello (px_self X) PROTO_VERSION (px_name X)) c = (Inr (), c1)"
    using write_frame_ok [OF C c(2,3) answers(1)] by blast
  obtain fh where fh: "frame_of C key (Hello (px_self X) PROTO_VERSION (px_name X)) fh" "c_out c1 = c_out c @ fh"
    by (rule write_frame_Inr [OF C c(2) w1]) (use that in auto)
  have c1: "c_in c1 = f1 @ rest" "nonces_ok c1" "c_limit c1 = None"
    using write_frame_frame [OF w1] c by (simp_all add: nonces_ok_def)
  let ?c2 = "c1\<lparr>c_in := rest\<rparr>"
  have r2: "read_frame C key c1 = (Inr (Some (Hello source v source_name)), ?c2)"
    using read_frame_frame_of [OF hello c1(1)] .
  have c2: "nonces_ok ?c2" "c_limit ?c2 = None" using c1 by (simp_all add: nonces_ok_def)
  obtain c3 where w3: "write_frame C key Ping ?c2 = (Inr (), c3)"
    using write_frame_ok [OF C c2 answers(2)] by blast
  obtain fp where fp: "frame_of C key Ping fp" "c_out c3 = c_out c1 @ fp"
    by (rule write_frame_Inr [OF C c2(1) w3]) (use that in auto)
  have c3: "c_in c3 = rest" "nonces_ok c3" "c_limit c3 = None"
    using write_frame_frame [OF w3] c2 by (simp_all add: nonces_ok_def)
  have "run_peer X S c n = classify X source source_name S c3 n"
    using w1 r2 w3 script by (simp add: run_peer_def handshake_def C_def key_def)
  then show thesis by (rule that) (use c3 fh fp in simp_all)
qed

text \<open>
  A session that is offered a file, the way a connection of the sender arrives: the hello both ways,
  a ping, the offer, the acceptance, the content.
\<close>

lemma run_peer_receives:
  fixes X :: peer_context
  defines "C \<equiv> px_codec X" and "key \<equiv> px_key X"
  assumes C: "codec_contract C" and sha: "sha_contract (crypto C)"
    and offer: "outgoing_open (crypto C) fsA uuid source (px_self X) p mime cfgA = Inr og"
    and fr: "list_all2 (frame_of C key)
      ([Hello source PROTO_VERSION source_name, FileOfferMsg (og_offer og)]
       @ chunk_msgs uuid (og_chunk_bytes og) 0 (og_rest og) @ [FileComplete uuid]) frames"
    and c: "c_in c = concat frames" "nonces_ok c" "c_limit c = None"
    and script: "\<not> ps_hello_late S" "ps_class_late S = None" "px_expected X = None" "source \<noteq> px_self X"
    and size: "length (og_rest og) \<le> max_file_bytes default_file_config"
    and uuid: "trim uuid \<noteq> []" and faults: "\<forall>call. \<not> fs_faults (nh_fs n) call"
    and dest: "nh_receive_dir n = Some dir" "unique_destination_path (nh_fs n) dir (fo_file_name (og_offer og)) = Inr dest"
      "\<not> fs_exists (nh_fs n) (part_path_for dest uuid)"
    and answers: "sendable C key (Hello (px_self X) PROTO_VERSION (px_name X))" "sendable C key Ping"
      "sendable C key (FileAccept uuid)"
  shows "\<exists>rf fs' c'. run_peer X S c n = (Some (Inr ()), c', n\<lparr>nh_fs := fs', nh_received := nh_received n @ [rf]\<rparr>)
     \<and> fs_content fs' (rf_path rf) = Some (og_rest og) \<and> fst (rf_path rf) = dir \<and> \<not> fs_exists (nh_fs n) (rf_path rf)
     \<and> delivered (crypto C) (nh_fs n) (og_offer og) rf fs'
     \<and> (\<exists>fh fp fa. frame_of C key (Hello (px_self X) PROTO_VERSION (px_name X)) fh \<and> frame_of C key Ping fp
          \<and> frame_of C key (FileAccept uuid) fa \<and> c_out c' = c_out c @ fh @ fp @ fa)"
proof -
  from fr obtain f1 f2 frames' where frames: "frames = f1 # f2 # frames'"
    and f1: "frame_of C key (Hello source PROTO_VERSION source_name) f1" and f2: "frame_of C key (FileOfferMsg (og_offer og)) f2"
    and fr': "list_all2 (frame_of C key) (chunk_msgs uuid (og_chunk_bytes og) 0 (og_rest og) @ [FileComplete uuid]) frames'"
    by (auto simp: list_all2_Cons1)
  have hello: "c_in c = f1 @ f2 @ concat frames'" using c(1) frames by simp
  obtain fh fp c3 where starts: "run_peer X S c n = classify X source source_name S c3 n"
    and c3: "c_in c3 = f2 @ concat frames'" "nonces_ok c3" "c_limit c3 = None"
    and fh: "frame_of C key (Hello (px_self X) PROTO_VERSION (px_name X)) fh" and fp: "frame_of C key Ping fp"
    and out3: "c_out c3 = c_out c @ fh @ fp"
    using run_peer_starts [where X = X and c = c and n = n and S = S, folded C_def key_def,
        OF C f1 hello c(2,3) script(1,3,4) answers(1,2)] by metis
  let ?c4 = "c3\<lparr>c_in := concat frames'\<rparr>"
  have r4: "read_frame C key c3 = (Inr (Some (FileOfferMsg (og_offer og))), ?c4)"
    using read_frame_frame_of [OF f2 c3(1)] .
  have c4: "c_in ?c4 = concat frames'" "nonces_ok ?c4" "c_limit ?c4 = None" using c3 by (simp_all add: nonces_ok_def)
  have config: "max_file_bytes default_file_config < U64_MAX"
    by (simp add: default_file_config_def DEFAULT_MAX_FILE_BYTES_def U64_MAX_def)
  obtain rf fs' c' fa where ro: "receive_offered_file C key (px_self X) source dir default_file_config (og_offer og) (nh_fs n) ?c4
      = (Inr rf, fs', c')" and content: "fs_content fs' (rf_path rf) = Some (og_rest og)"
    and fa: "frame_of C key (FileAccept uuid) fa" "c_out c' = c_out c3 @ fa"
    using receive_offered_ok [OF C sha offer fr' c4 size config uuid faults dest(2,3) answers(3)] by auto
  have "run_peer X S c n = (Some (Inr ()), c', n\<lparr>nh_fs := fs', nh_received := nh_received n @ [rf]\<rparr>)"
    using starts r4 ro script(2) dest(1) by (simp add: classify_def receive_on_peer_def C_def key_def)
  moreover have "fst (rf_path rf) = dir" "\<not> fs_exists (nh_fs n) (rf_path rf)" "delivered (crypto C) (nh_fs n) (og_offer og) rf fs'"
    using receive_offered_result [OF ro config] by simp_all
  moreover have "c_out c' = c_out c @ fh @ fp @ fa" using out3 fa(2) by simp
  ultimately show ?thesis using content fh fp fa(1) by blast
qed

text \<open>A session that is asked for a blob its node has cached: the hello, the ping, and the chunks.\<close>

lemma run_peer_serves:
  fixes X :: peer_context
  defines "C \<equiv> px_codec X" and "key \<equiv> px_key X"
  assumes C: "codec_contract C"
    and asks: "frame_of C key (Hello source v source_name) f1" "frame_of C key (BlobRequest sha) f2"
    and script: "\<not> ps_hello_late S" "ps_class_late S = None" "px_expected X = None" "source \<noteq> px_self X"
    and cached: "blob_cache_get sha (nh_cache n) = Some blob" "blob \<noteq> []"
    and answers: "sendable C key (Hello (px_self X) PROTO_VERSION (px_name X))" "sendable C key Ping"
      "\<forall>m \<in> set (blob_msgs blob 0). sendable C key m"
  shows "\<exists>c' fh fp frames. run_peer X S (plain_conn (f1 @ f2)) n = (Some (Inr ()), c', n)
     \<and> c_out c' = fh @ fp @ concat frames
     \<and> frame_of C key (Hello (px_self X) PROTO_VERSION (px_name X)) fh \<and> frame_of C key Ping fp
     \<and> list_all2 (frame_of C key) (blob_msgs blob 0) frames"
proof -
  obtain fh fp c1 where starts: "run_peer X S (plain_conn (f1 @ f2)) n = classify X source source_name S c1 n"
    and c1: "c_in c1 = f2" "nonces_ok c1" "c_limit c1 = None"
    and fh: "frame_of C key (Hello (px_self X) PROTO_VERSION (px_name X)) fh" and fp: "frame_of C key Ping fp"
    and out: "c_out c1 = fh @ fp"
    using run_peer_starts [where X = X and c = "plain_conn (f1 @ f2)" and n = n and S = S and rest = f2, folded C_def key_def,
        OF C asks(1) _ nonces_ok_plain _ script(1,3,4) answers(1,2)] by (metis append_Nil plain_conn_simps)
  have r: "read_frame C key c1 = (Inr (Some (BlobRequest sha)), c1\<lparr>c_in := []\<rparr>)"
    using read_frame_frame_of [OF asks(2), of c1 "[]"] c1(1) by simp
  have c2: "nonces_ok (c1\<lparr>c_in := []\<rparr>)" "c_limit (c1\<lparr>c_in := []\<rparr>) = None" using c1 by (simp_all add: nonces_ok_def)
  obtain frames c' where "serve_blob C key (nh_cache n) sha (c1\<lparr>c_in := []\<rparr>) = (Inr (), c')"
    "list_all2 (frame_of C key) (blob_msgs blob 0) frames" "c_out c' = fh @ fp @ concat frames"
    using serve_blob_ok [OF C c2 cached answers(3)] out by auto
  moreover from this(1) have "run_peer X S (plain_conn (f1 @ f2)) n = (Some (Inr ()), c', n)"
    using starts r script(2) by (simp add: classify_def C_def key_def)
  ultimately show ?thesis using fh fp by blast
qed

definition clip_message :: "outgoing_lan \<Rightarrow> lan_message" where
  "clip_message out = LanClip (ol_sender out) (ol_ts out) (ol_payload out)"

definition arrived :: "outgoing_lan \<Rightarrow> incoming_lan_clip" where
  "arrived out = \<lparr>il_sender = ol_sender out, il_ts = ol_ts out, il_payload = ol_payload out\<rparr>"

definition out_event :: "nat \<Rightarrow> outgoing_lan \<Rightarrow> peer_event" where
  "out_event t out = \<lparr>pe_time = t, pe_active = True, pe_cut = 0, pe_branch = OutReady out\<rparr>"

definition frame_event :: "nat \<Rightarrow> peer_event" where
  "frame_event t = \<lparr>pe_time = t, pe_active = True, pe_cut = 0, pe_branch = FrameReady\<rparr>"

lemma drop_read_zero [simp]: "drop_read 0 c = c"
  by (simp add: drop_read_def)

lemma peer_loop_out:
  "peer_loop X did ls (out_event t out # es) c n =
     (if t \<ge> ls + LAN_IDLE_TIMEOUT then (Some (Inl (LanIo (lit ''no inbound frame within idle window''))), c, n)
      else if ol_sender out = did then peer_loop X did ls es c n
      else case write_frame (px_codec X) (px_key X) (clip_message out) c of
        (Inl err, c) \<Rightarrow> (Some (Inl err), c, n)
      | (Inr _, c) \<Rightarrow> peer_loop X did ls es c n)"
  by (simp add: peer_loop.simps out_event_def clip_message_def)

lemma peer_loop_frame:
  "read_frame (px_codec X) (px_key X) c = (Inr (Some (clip_message out)), c1) \<Longrightarrow> t < ls + LAN_IDLE_TIMEOUT \<Longrightarrow>
     peer_loop X did ls (frame_event t # es) c n =
       peer_loop X did t es c1 (n\<lparr>nh_inbound := nh_inbound n @ [arrived out]\<rparr>)"
  by (simp add: peer_loop.simps frame_event_def clip_message_def deliver_def arrived_def)

lemma out_events_sent:
  assumes C: "codec_contract (px_codec X)"
  shows "nonces_ok c \<Longrightarrow> peer_loop X did ls (map (out_event t) outs) c n = (None, c', n') \<Longrightarrow>
    \<exists>frames. list_all2 (frame_of (px_codec X) (px_key X)) (map clip_message (filter (\<lambda>x. ol_sender x \<noteq> did) outs)) frames
      \<and> c_out c' = c_out c @ concat frames"
proof (induction outs arbitrary: c)
  case (Cons out outs)
  show ?case
  proof (cases "ol_sender out = did")
    case True
    then show ?thesis using Cons by (auto simp: peer_loop_out split: if_splits)
  next
    case False
    obtain c1 where w: "write_frame (px_codec X) (px_key X) (clip_message out) c = (Inr (), c1)"
      and rest: "peer_loop X did ls (map (out_event t) outs) c1 n = (None, c', n')"
      using Cons.prems(2) False by (auto simp: peer_loop_out split: if_splits sum.splits prod.splits)
    from write_frame_Inr [OF C Cons.prems(1) w] obtain f where
      f: "frame_of (px_codec X) (px_key X) (clip_message out) f"
      and c1: "c1 = c\<lparr>c_out := c_out c @ f, c_drawn := Suc (c_drawn c)\<rparr>" .
    have "nonces_ok c1" using Cons.prems(1) by (simp add: c1 nonces_ok_def)
    from Cons.IH [OF this rest] obtain frames where
      "list_all2 (frame_of (px_codec X) (px_key X)) (map clip_message (filter (\<lambda>x. ol_sender x \<noteq> did) outs)) frames"
      "c_out c' = c_out c1 @ concat frames" by blast
    with f False c1 show ?thesis by (intro exI [of _ "f # frames"]) simp
  qed
qed simp

text \<open>Clips that fit a frame are all written, and the loop goes on.\<close>

lemma out_events_written:
  assumes C: "codec_contract (px_codec X)" and t: "t < ls + LAN_IDLE_TIMEOUT"
  shows "nonces_ok c \<Longrightarrow> c_limit c = None \<Longrightarrow>
    \<forall>out \<in> set outs. sendable (px_codec X) (px_key X) (clip_message out) \<Longrightarrow>
    \<exists>c'. peer_loop X did ls (map (out_event t) outs) c n = (None, c', n)"
proof (induction outs arbitrary: c)
  case (Cons out outs)
  show ?case
  proof (cases "ol_sender out = did")
    case True
    then show ?thesis using Cons t by (simp add: peer_loop_out)
  next
    case False
    obtain c1 where w: "write_frame (px_codec X) (px_key X) (clip_message out) c = (Inr (), c1)"
      using write_frame_ok [OF C Cons.prems(1,2), of "px_key X" "clip_message out"] Cons.prems(3) by auto
    have "nonces_ok c1" "c_limit c1 = None"
      using write_frame_frame [OF w] Cons.prems(1,2) by (simp_all add: nonces_ok_def)
    then show ?thesis using Cons.IH [of c1] Cons.prems(3) w False t by (simp add: peer_loop_out)
  qed
qed simp

fun paced :: "nat \<Rightarrow> nat list \<Rightarrow> bool" where
  "paced last_seen [] \<longleftrightarrow> True"
| "paced last_seen (t # ts) \<longleftrightarrow> t < last_seen + LAN_IDLE_TIMEOUT \<and> paced t ts"

lemma frame_events_delivered:
  "list_all2 (frame_of (px_codec X) (px_key X)) (map clip_message outs) frames \<Longrightarrow> c_in c = concat frames @ rest \<Longrightarrow>
   paced ls ts \<Longrightarrow> length ts = length outs \<Longrightarrow>
   peer_loop X did ls (map frame_event ts) c n =
     (None, c\<lparr>c_in := rest\<rparr>, n\<lparr>nh_inbound := nh_inbound n @ map arrived outs\<rparr>)"
proof (induction outs arbitrary: frames c ls ts n)
  case (Cons out outs)
  obtain f frames' where frames: "frames = f # frames'" and f: "frame_of (px_codec X) (px_key X) (clip_message out) f"
    and fs: "list_all2 (frame_of (px_codec X) (px_key X)) (map clip_message outs) frames'"
    using Cons.prems(1) by (auto simp: list_all2_Cons1)
  obtain t ts' where ts: "ts = t # ts'" using Cons.prems(4) by (cases ts) auto
  let ?c = "c\<lparr>c_in := concat frames' @ rest\<rparr>" and ?n = "n\<lparr>nh_inbound := nh_inbound n @ [arrived out]\<rparr>"
  have rd: "read_frame (px_codec X) (px_key X) c = (Inr (Some (clip_message out)), ?c)"
    using read_frame_frame_of [OF f] Cons.prems(2) frames by simp
  have "peer_loop X did ls (map frame_event ts) c n = peer_loop X did t (map frame_event ts') ?c ?n"
    using Cons.prems(3) peer_loop_frame [OF rd] by (simp add: ts)
  then show ?case
    using Cons.IH [OF fs, of ?c t ts' ?n] Cons.prems(3,4) by (simp add: ts)
qed simp

text \<open>
  A clip reaches the other end of a LAN link once, unless it came from there. What one side's
  session writes for the clips it is handed, the other side's session delivers: the clips of other
  devices than the receiver, unchanged and in order.
\<close>

theorem lan_clip_round_trip:
  assumes C: "codec_contract (px_codec X)" and nonces: "nonces_ok c"
    and other: "px_codec Y = px_codec X" "px_key Y = px_key X"
    and sent: "peer_loop X did ls (map (out_event t) outs) c n = (None, c', n1)"
    and wire: "c_out c' = c_out c @ bytes" "c_in d = bytes"
    and pace: "paced up ts" "length ts = length (filter (\<lambda>x. ol_sender x \<noteq> did) outs)"
  shows "\<exists>d'. peer_loop Y me up (map frame_event ts) d m =
     (None, d', m\<lparr>nh_inbound := nh_inbound m @ map arrived (filter (\<lambda>x. ol_sender x \<noteq> did) outs)\<rparr>)"
proof -
  from out_events_sent [OF C nonces sent] obtain frames where
    frames: "list_all2 (frame_of (px_codec Y) (px_key Y)) (map clip_message (filter (\<lambda>x. ol_sender x \<noteq> did) outs)) frames"
    and out: "c_out c' = c_out c @ concat frames" unfolding other by blast
  have "c_in d = concat frames @ []" using wire out by simp
  from frame_events_delivered [OF frames this pace] show ?thesis by blast
qed

definition demo_out :: outgoing_lan where
  "demo_out = \<lparr>ol_sender = [65], ol_ts = 5, ol_payload = \<lparr>cp_kind = ClipText, cp_content = [104, 105],
     cp_device_name = [], cp_ts = 5, cp_image = None\<rparr>\<rparr>"

definition link_context :: peer_context where
  "link_context = \<lparr>px_codec = table_codec [clip_message demo_out, Ping], px_key = [], px_self = [65], px_name = [],
     px_expected = None, px_registry_key = [1]\<rparr>"

lemma link_write:
  "m \<in> {clip_message demo_out, Ping} \<Longrightarrow>
     \<exists>c. write_frame (px_codec link_context) (px_key link_context) m (plain_conn []) = (Inr (), c)"
  unfolding link_context_def peer_context.simps
  by (rule write_frame_ok [OF table_codec_contract nonces_ok_plain _ table_codec_sendable]) auto

theorem lan_clip_round_trip_witness:
  "\<exists>bytes d'. peer_loop link_context [65] 0 [frame_event 9] (plain_conn bytes) demo_shared =
     (None, d', demo_shared\<lparr>nh_inbound := [arrived demo_out]\<rparr>)"
proof -
  obtain c' where w: "write_frame (px_codec link_context) (px_key link_context) (clip_message demo_out) (plain_conn []) = (Inr (), c')"
    using link_write by blast
  have other: "ol_sender demo_out \<noteq> [66]" by (simp add: demo_out_def)
  have sent: "peer_loop link_context [66] 0 (map (out_event 1) [demo_out]) (plain_conn []) demo_shared = (None, c', demo_shared)"
    using w other by (simp add: peer_loop_out LAN_IDLE_TIMEOUT_def)
  have "codec_contract (px_codec link_context)"
    by (simp add: link_context_def table_codec_contract)
  from lan_clip_round_trip [OF this nonces_ok_plain refl refl sent, of "c_out c'" "plain_conn (c_out c')" 0 "[9]" "[65]" demo_shared]
  have "\<exists>d'. peer_loop link_context [65] 0 (map frame_event [9]) (plain_conn (c_out c')) demo_shared =
      (None, d', demo_shared\<lparr>nh_inbound := nh_inbound demo_shared @ map arrived (filter (\<lambda>x. ol_sender x \<noteq> [66]) [demo_out])\<rparr>)"
    using other by (simp add: LAN_IDLE_TIMEOUT_def)
  then show ?thesis using other by (auto simp: demo_shared_def)
qed

text \<open>
  A LAN session with a silent peer ends. While no frame comes, whatever is sent to the peer and
  whatever else happens, the first event from 45 s after the last frame on ends the session, and
  nothing is delivered in the meantime.
\<close>

theorem silent_lan_peer_ends:
  assumes silent: "\<forall>e \<in> set es. pe_branch e \<noteq> FrameReady"
    and late: "\<exists>e \<in> set es. pe_time e \<ge> last_seen + LAN_IDLE_TIMEOUT"
  shows "\<exists>r c'. peer_loop X did last_seen es c n = (Some r, c', n)"
  using assms
proof (induction es arbitrary: c)
  case (Cons e es)
  show ?case
  proof (cases "pe_time e \<ge> last_seen + LAN_IDLE_TIMEOUT")
    case False
    then have IH: "\<exists>r c'. peer_loop X did last_seen es c n = (Some r, c', n)" for c using Cons by auto
    show ?thesis
      using False Cons.prems(1) IH by (cases "pe_branch e") (auto simp: peer_loop.simps split: sum.splits prod.splits)
  qed (simp add: peer_loop.simps)
qed simp

theorem silent_lan_peer_ends_witness:
  "\<exists>r c'. peer_loop link_context [66] 0 [\<lparr>pe_time = 45000, pe_active = True, pe_cut = 0, pe_branch = PingTick\<rparr>] (plain_conn []) demo_shared
     = (Some r, c', demo_shared)"
  by (rule silent_lan_peer_ends) (simp_all add: LAN_IDLE_TIMEOUT_def)

text \<open>What a session does once the LAN is inactive: it writes nothing, and the notification ends it.\<close>

lemma inactive_writes_nothing:
  "\<forall>e \<in> set es. \<not> pe_active e \<Longrightarrow> c_out (fst (snd (peer_loop X did ls es c n))) = c_out c"
proof (induction es arbitrary: ls c n)
  case (Cons e es)
  have IH: "c_out (fst (snd (peer_loop X did ls es c n))) = c_out c" for ls c n using Cons by simp
  obtain x c1 where rd: "read_frame (px_codec X) (px_key X) c = (x, c1)" by fastforce
  have out: "c_out c1 = c_out c" using read_frame_frame [OF rd] by simp
  show ?case
    using Cons.prems rd out
    by (cases "pe_branch e") (auto simp: peer_loop.simps(2) IH drop_read_def split: sum.splits option.splits lan_message.splits)
qed simp

lemma inactive_notified_ends:
  "\<forall>e \<in> set es. \<not> pe_active e \<Longrightarrow> \<exists>e \<in> set es. pe_branch e = ModeNotified \<Longrightarrow> fst (peer_loop X did ls es c n) \<noteq> None"
proof (induction es arbitrary: ls c n)
  case (Cons e es)
  show ?case
  proof (cases "pe_branch e = ModeNotified")
    case False
    then have IH: "fst (peer_loop X did ls es c n) \<noteq> None" for ls c n using Cons by auto
    then have IH': "\<exists>y. fst (peer_loop X did ls es c n) = Some y" for ls c n by simp
    obtain x c1 where rd: "read_frame (px_codec X) (px_key X) c = (x, c1)" by fastforce
    show ?thesis
      using Cons.prems(1) rd False IH'
      by (cases "pe_branch e") (auto simp: peer_loop.simps(2) split: sum.splits option.splits lan_message.splits)
  qed (use Cons.prems in \<open>simp add: peer_loop.simps(2)\<close>)
qed simp

text \<open>The peer's pings, read while the LAN is inactive.\<close>

definition ping_read :: "nat \<Rightarrow> peer_event" where
  "ping_read t = \<lparr>pe_time = t, pe_active = False, pe_cut = 0, pe_branch = FrameReady\<rparr>"

lemma pings_keep_alive:
  "list_all2 (frame_of (px_codec X) (px_key X)) (replicate (length ts) Ping) frames \<Longrightarrow> c_in c = concat frames @ rest \<Longrightarrow>
   paced ls ts \<Longrightarrow> peer_loop X did ls (map ping_read ts) c n = (None, c\<lparr>c_in := rest\<rparr>, n)"
proof (induction ts arbitrary: frames c ls)
  case (Cons t ts)
  obtain f frames' where frames: "frames = f # frames'" and f: "frame_of (px_codec X) (px_key X) Ping f"
    and fs: "list_all2 (frame_of (px_codec X) (px_key X)) (replicate (length ts) Ping) frames'"
    using Cons.prems(1) by (auto simp: list_all2_Cons1)
  let ?c = "c\<lparr>c_in := concat frames' @ rest\<rparr>"
  have rd: "read_frame (px_codec X) (px_key X) c = (Inr (Some Ping), ?c)"
    using read_frame_frame_of [OF f] Cons.prems(2) frames by simp
  have "peer_loop X did ls (map ping_read (t # ts)) c n = peer_loop X did t (map ping_read ts) ?c n"
    using Cons.prems(3) rd by (simp add: peer_loop.simps(2) ping_read_def)
  then show ?case using Cons.IH [OF fs, of ?c t] Cons.prems(3) by simp
qed simp



text \<open>
  A read that is dropped half-way breaks the session. When another branch of the select wins
  after the reading branch has consumed the length of a frame, those four bytes are lost: the next
  read takes the first bytes of the nonce for a length, and unless they happen to be a small number
  the session ends with an error and the clip in the frame is never delivered.
\<close>

theorem cut_read_loses_clip:
  assumes frame: "c_in c = be32 (NONCE_LEN + length cipher) @ nonce @ cipher" "length nonce = NONCE_LEN"
    and big: "of_be32 (take 4 nonce) > FRAME_MAX"
    and branch: "pe_branch e = OutLagged k" "pe_cut e = 4" "pe_active e" "pe_time e < ls + LAN_IDLE_TIMEOUT"
    and frame_ready: "pe_branch e' = FrameReady" "pe_time e' < ls + LAN_IDLE_TIMEOUT"
  shows "\<exists>c'. peer_loop X did ls (e # e' # es) c n = (Some (Inl (LanIo (lit ''frame size out of range''))), c', n)"
proof -
  have "c_in (drop_read 4 c) = nonce @ cipher" using frame by (simp add: drop_read_def)
  then have "\<exists>c'. read_frame (px_codec X) (px_key X) (drop_read 4 c) = (Inl (LanIo (lit ''frame size out of range'')), c')"
    using frame(2) big by (simp add: read_frame_def NONCE_LEN_def)
  then show ?thesis using branch frame_ready by (auto simp: peer_loop.simps(2))
qed

theorem cut_read_loses_clip_witness:
  "\<exists>c'. peer_loop link_context [66] 0
      [\<lparr>pe_time = 1, pe_active = True, pe_cut = 4, pe_branch = OutLagged 1\<rparr>, frame_event 2]
      (plain_conn (be32 (NONCE_LEN + length [7, 7 :: byte]) @ replicate 12 255 @ [7, 7])) demo_shared
    = (Some (Inl (LanIo (lit ''frame size out of range''))), c', demo_shared)"
proof (rule cut_read_loses_clip)
  let ?n = "replicate 12 255 :: bytes"
  show "c_in (plain_conn (be32 (NONCE_LEN + length [7, 7 :: byte]) @ ?n @ [7, 7])) = be32 (NONCE_LEN + length [7, 7 :: byte]) @ ?n @ [7, 7]"
    by (simp only: plain_conn_simps)
  show "length ?n = NONCE_LEN" by (simp add: NONCE_LEN_def)
  show "FRAME_MAX < of_be32 (take 4 ?n)" by code_simp
qed (simp_all add: frame_event_def LAN_IDLE_TIMEOUT_def)

section \<open>The registry over many sessions\<close>

lemma delete_filter: "AList.delete k m = filter (\<lambda>e. fst e \<noteq> k) m"
  by (auto simp: AList.delete_eq case_prod_unfold intro!: filter_cong)

lemma length_filter_key:
  "wf_map m \<Longrightarrow> k \<in> fst ` set m \<Longrightarrow> length (filter (\<lambda>e. fst e \<noteq> k) m) = length m - 1"
  using length_delete [of m k] by (simp add: delete_filter)

lemma guard_run:
  "proper live es \<Longrightarrow> wf_map live \<Longrightarrow> nh_registry n = live \<Longrightarrow> nh_count n = length live \<Longrightarrow>
     nh_registry (fold guard_step es n) = fold live_step es live
     \<and> nh_count (fold guard_step es n) = length (fold live_step es live) \<and> wf_map (fold live_step es live)"
proof (induction es arbitrary: live n)
  case (Cons e es)
  have step: "nh_registry (guard_step e n) = live_step e live \<and> nh_count (guard_step e n) = length (live_step e live)
      \<and> wf_map (live_step e live)"
  proof (cases e)
    case (SessionUp key did name)
    then show ?thesis using Cons.prems by (auto simp: guard_new_def update_new)
  next
    case (SessionDown key)
    then have "wf_map (filter (\<lambda>s. fst s \<noteq> key) live)" using Cons.prems(2) by (simp add: distinct_map_filter)
    then show ?thesis
      using SessionDown Cons.prems length_filter_key [of live key] by (simp add: guard_drop_def delete_filter)
  qed
  show ?case using Cons.IH [of "live_step e live" "guard_step e n"] Cons.prems(1) step by simp
qed simp

text \<open>
  C32: The peer count and the peer list agree, as long as no two sessions share a key. Over any
  interleaving of sessions that begin and end, in which no key is up twice, the registry lists exactly
  the live sessions and the count is their number. Where two sessions do share a key, as when a peer
  is dialled again after a resume while its old session is still closing, the end of the old one
  removes the entry of the new one: one session is counted, and none is listed.
\<close>

theorem registry_counts:
  assumes "proper [] es" and n: "nh_registry n = []" "nh_count n = 0"
  shows "nh_registry (fold guard_step es n) = fold live_step es []
     \<and> nh_count (fold guard_step es n) = length (nh_registry (fold guard_step es n))
     \<and> (let m = fold guard_step [SessionUp key did name, SessionUp key did name, SessionDown key] n
        in nh_count m = 1 \<and> nh_registry m = [])"
  using guard_run [OF assms(1), of n] n by (simp add: guard_new_def guard_drop_def)

theorem registry_counts_witness:
  "nh_registry (fold guard_step [SessionUp [1] [65] [], SessionUp [2] [66] [], SessionDown [1]] demo_shared) = [([2], [66], [])]"
  using registry_counts [of "[SessionUp [1] [65] [], SessionUp [2] [66] [], SessionDown [1]]" demo_shared]
  by (simp add: demo_shared_def)

section \<open>The flag\<close>

text \<open>A waiter that has checked and was not woken waits for a flag it has not got, or for a notification on its way.\<close>

definition no_lost_wakeup :: "bool \<Rightarrow> flag_wait \<Rightarrow> bool" where
  "no_lost_wakeup want s \<longleftrightarrow> (fw_pc s \<in> {HasChecked, IsParked} \<and> \<not> fw_woken s \<and> fw_flag s = want \<longrightarrow> fw_unnotified s > 0)"

lemma flag_step_inv: "flag_step want s s' \<Longrightarrow> no_lost_wakeup want s \<Longrightarrow> no_lost_wakeup want s'"
  by (erule flag_stepE) (auto simp: no_lost_wakeup_def)

lemma flag_steps_inv: "(flag_step want)\<^sup>*\<^sup>* s s' \<Longrightarrow> no_lost_wakeup want s \<Longrightarrow> no_lost_wakeup want s'"
  by (induction rule: rtranclp_induct) (auto intro: flag_step_inv)

lemma waiter_step_sound: "waiter_step want s = Some s' \<Longrightarrow> flag_step want s s'"
  by (auto simp: waiter_step_def intro: flag_step.intros split: waiter_pc.splits if_splits)

lemma waiter_returns:
  assumes "no_lost_wakeup want s" "fw_flag s = want" "fw_unnotified s = 0"
  shows "fw_pc (wait_until_flag want 4 s) = HasReturned"
proof -
  have four: "(4 :: nat) = Suc (Suc (Suc (Suc 0)))" by simp
  show ?thesis
    using assms unfolding four by (cases "fw_pc s") (auto simp: waiter_step_def no_lost_wakeup_def)
qed

text \<open>
  C31: Waiting for a flag misses no change of it. However the steps of the waiter interleave with any
  number of stores and their notifications, once the flag has the value waited for and every store has
  been followed by its notification, the waiter returns within four steps of its own, also when the store came between its check
  of the flag and its parking.
\<close>

theorem wait_until_flag_returns:
  assumes start: "fw_pc s = AtStart" and run: "(flag_step want)\<^sup>*\<^sup>* s s'"
    and set: "fw_flag s' = want" and notified: "fw_unnotified s' = 0"
  shows "fw_pc (wait_until_flag want 4 s') = HasReturned"
  using waiter_returns [OF flag_steps_inv [OF run] set notified] start by (simp add: no_lost_wakeup_def)

theorem wait_until_flag_returns_witness:
  "\<exists>s'. (flag_step True)\<^sup>*\<^sup>* \<lparr>fw_flag = False, fw_unnotified = 0, fw_pc = AtStart, fw_woken = False\<rparr> s'
     \<and> fw_flag s' \<and> fw_pc s' = IsParked \<and> fw_pc (wait_until_flag True 4 s') = HasReturned"
proof -
  let ?s = "\<lambda>v k p w. \<lparr>fw_flag = v, fw_unnotified = k, fw_pc = p, fw_woken = w\<rparr>"
  have "flag_step True (?s False 0 AtStart False) (?s False 0 IsEnabled False)"
    using flag_step.enable [of "?s False 0 AtStart False" True] by simp
  moreover have "flag_step True (?s False 0 IsEnabled False) (?s False 0 HasChecked False)"
    using flag_step.check_fails [of "?s False 0 IsEnabled False" True] by simp
  moreover have "flag_step True (?s False 0 HasChecked False) (?s True 1 HasChecked False)"
    using flag_step.store [of True "?s False 0 HasChecked False" True] by simp
  moreover have "flag_step True (?s True 1 HasChecked False) (?s True 0 HasChecked True)"
    using flag_step.notify_waiters [of "?s True 1 HasChecked False" 0 True] by simp
  moreover have "flag_step True (?s True 0 HasChecked True) (?s True 0 IsParked True)"
    using flag_step.park [of "?s True 0 HasChecked True" True] by simp
  ultimately have run: "(flag_step True)\<^sup>*\<^sup>* (?s False 0 AtStart False) (?s True 0 IsParked True)"
    by (meson converse_rtranclp_into_rtranclp rtranclp.rtrancl_refl)
  from wait_until_flag_returns [OF _ this] this show ?thesis by (intro exI [of _ "?s True 0 IsParked True"]) simp
qed

section \<open>The node over a run\<close>

datatype node_event =
    SetActive bool
  | LifecycleTurn transport_env
  | ReconcilerTurn
  | DialEnded str
  | RelayPeers "iface list option" "lan_peer list"
  | Discovered "iface list option" service_event

fun node_step :: "str \<Rightarrow> str \<Rightarrow> node_event \<Rightarrow> lan_node \<Rightarrow> lan_node" where
  "node_step self fingerprint (SetActive v) n = n\<lparr>ln_active := v\<rparr>"
| "node_step self fingerprint (LifecycleTurn T) n = lifecycle_turn T n"
| "node_step self fingerprint ReconcilerTurn n = reconciler_turn n"
| "node_step self fingerprint (DialEnded fullname) n = dial_ended fullname n"
| "node_step self fingerprint (RelayPeers ifaces peers) n = ingest_relay_peers ifaces self peers n"
| "node_step self fingerprint (Discovered ifaces ev) n = on_service_event ifaces self fingerprint ev n"

definition safe_dial :: "str \<Rightarrow> str \<times> known_peer \<Rightarrow> bool" where
  "safe_dial self d \<longleftrightarrow> kp_peer_did (snd d) < self \<and> dialable (kp_candidates (snd d))"

definition node_inv :: "str \<Rightarrow> lan_node \<Rightarrow> bool" where
  "node_inv self n \<longleftrightarrow>
     maps_inv self (ln_addrs n, ln_known n) \<and> distinct (ln_outbound n) \<and> list_all (safe_dial self) (ln_dials n)
     \<and> (\<forall>g. ln_transport n = Some g \<longrightarrow> ln_port n = tg_port g \<and> tg_accepting g)
     \<and> list_all (\<lambda>(waited, g). waited \<le> 1000 \<and> \<not> tg_accepting g) (ln_dropped n)"

lemma reconcile_spec:
  "wf_map snapshot \<Longrightarrow> reconcile snapshot n =
     n\<lparr>ln_outbound := rev (map fst (filter (\<lambda>e. fst e \<notin> set (ln_outbound n)) snapshot)) @ ln_outbound n,
       ln_dials := ln_dials n @ filter (\<lambda>e. fst e \<notin> set (ln_outbound n)) snapshot\<rparr>"
proof (induction snapshot arbitrary: n)
  case (Cons e snapshot)
  obtain k kp where e: "e = (k, kp)" by fastforce
  have k: "k \<notin> fst ` set snapshot" using Cons.prems e by simp
  have same: "filter (\<lambda>e. fst e \<noteq> k \<and> fst e \<notin> A) snapshot = filter (\<lambda>e. fst e \<notin> A) snapshot" for A
    using k by (intro filter_cong) auto
  have wf: "wf_map snapshot" using Cons.prems by simp
  show ?case
    using Cons.IH [OF wf] by (cases "k \<in> set (ln_outbound n)") (simp_all add: e same)
qed simp

lemma maps_of_events:
  "maps_inv self (ln_addrs n, ln_known n) \<Longrightarrow>
     maps_inv self (ln_addrs (ingest_relay_peers ifaces self peers n), ln_known (ingest_relay_peers ifaces self peers n))
     \<and> maps_inv self (ln_addrs (on_service_event ifaces self fp ev n), ln_known (on_service_event ifaces self fp ev n))"
  using peer_maps.step_inv [of self "(ln_addrs n, ln_known n)" fp "FromRelay ifaces peers"]
    peer_maps.step_inv [of self "(ln_addrs n, ln_known n)" fp "FromMdns ifaces ev"]
  by (auto simp: maps_step_def ingest_relay_peers_def on_service_event_def split: prod.splits)

lemma transport_guard_drop_spec:
  "transport_guard_drop reply g = (waited, g') \<Longrightarrow> waited \<le> 1000 \<and> \<not> tg_accepting g'"
  by (auto simp: transport_guard_drop_def Let_def split: shutdown_reply.splits if_splits)

lemma map_ops_frame:
  "ln_dropped (ingest_relay_peers ifaces self peers n) = ln_dropped n" "ln_dropped (on_service_event ifaces self fp ev n) = ln_dropped n"
  "ln_transport (ingest_relay_peers ifaces self peers n) = ln_transport n" "ln_port (ingest_relay_peers ifaces self peers n) = ln_port n"
  "ln_outbound (ingest_relay_peers ifaces self peers n) = ln_outbound n" "ln_dials (ingest_relay_peers ifaces self peers n) = ln_dials n"
  "ln_transport (on_service_event ifaces self fp ev n) = ln_transport n" "ln_port (on_service_event ifaces self fp ev n) = ln_port n"
  "ln_outbound (on_service_event ifaces self fp ev n) = ln_outbound n" "ln_dials (on_service_event ifaces self fp ev n) = ln_dials n"
  by (simp_all add: ingest_relay_peers_def on_service_event_def split: prod.splits)

lemma node_step_inv: "node_inv self n \<Longrightarrow> node_inv self (node_step self fp e n)"
proof (cases e)
  case ReconcilerTurn
  assume inv: "node_inv self n"
  then have wf: "wf_map (ln_known n)" by (simp add: node_inv_def maps_inv_def)
  have "list_all (safe_dial self) (ln_known n)"
    using inv by (auto simp: node_inv_def maps_inv_def list_all_iff safe_dial_def)
  then show ?thesis
    using inv by (auto simp: ReconcilerTurn reconciler_turn_def node_inv_def reconcile_spec [OF wf] list_all_iff distinct_map_filter [OF wf]
        split: option.splits)
next
  case (LifecycleTurn T)
  assume inv: "node_inv self n"
  have empty: "maps_inv self ([], [])" by (simp add: maps_inv_def)
  show ?thesis
    using inv empty
    by (auto simp: LifecycleTurn lifecycle_turn_def node_inv_def start_transport_def
        dest: transport_guard_drop_spec split: option.splits sum.splits prod.splits)
next
  case (DialEnded k)
  then show "node_inv self n \<Longrightarrow> ?thesis" by (simp add: dial_ended_def node_inv_def distinct_removeAll split: option.splits)
next
  case (RelayPeers ifaces peers)
  assume "node_inv self n"
  then show ?thesis
    using maps_of_events [of self n ifaces peers] by (simp add: RelayPeers node_inv_def map_ops_frame)
next
  case (Discovered ifaces ev)
  assume "node_inv self n"
  then show ?thesis
    using maps_of_events [of self n _ _ fp ev] by (simp add: Discovered node_inv_def map_ops_frame)
qed (auto simp: node_inv_def split: option.splits)

interpretation node: machine "node_step self fp" "node_inv self" for self fp
  by unfold_locales (rule node_step_inv)


definition demo_transport :: "str option \<Rightarrow> transport_env" where
  "demo_transport e = \<lparr>tr_bind = Inr 9, tr_mdns = e, tr_forwarder = True, tr_shutdown = ShutdownStatus 5 True\<rparr>"


text \<open>
  A resume that fails half-way goes on advertising. The port is published before the mDNS daemon
  is started; when that fails the listener is closed, and its port stays published, also after the
  next suspend: the node offers the relay addresses nobody listens on.
\<close>

theorem failed_resume_advertises:
  assumes suspended: "ln_transport n = None" "ln_port n = 0"
    and fails: "tr_bind T = Inr p" "tr_mdns T = Some e"
  shows "node_candidates ifaces n = []
     \<and> (let n' = lifecycle_turn T (n\<lparr>ln_active := True\<rparr>); n'' = lifecycle_turn T' (n'\<lparr>ln_active := False\<rparr>)
        in ln_transport n'' = None \<and> ln_port n'' = p
           \<and> node_candidates ifaces n'' = advertise_candidate_networks ifaces p)"
  using assms by (simp add: lifecycle_turn_def start_transport_def node_candidates_def advertise_candidate_networks_def)

theorem failed_resume_advertises_witness:
  "\<exists>n. lan_spawn False (demo_transport None) = Inr n
     \<and> ln_port (lifecycle_turn (demo_transport (Some [])) (n\<lparr>ln_active := True\<rparr>)) = 9"
proof -
  obtain n where n: "lan_spawn False (demo_transport None) = Inr n" "ln_transport n = None" "ln_port n = 0"
    by (simp add: lan_spawn_def)
  from failed_resume_advertises [OF n(2,3), of "demo_transport (Some [])" 9 "[]"] n show ?thesis
    by (auto simp: demo_transport_def Let_def lifecycle_turn_def start_transport_def)
qed

end
