(* ===== verification/WinImage.thy ===== *)
theory WinImage
  imports Crypto
begin

text \<open>
  The data side of the Windows bridge (\<^verbatim>\<open>clients/windows/src/bridge.rs\<close>): how an outbound image is
  encoded, the bounded set of recent pixel hashes, the two bounded histories, and the handling of
  file names. The image library is a parameter: decoding, dimensions, pixels and the two encoders.
\<close>

definition MAX_IMAGE_BYTES :: nat where "MAX_IMAGE_BYTES = 32 * 1024 * 1024"
definition HISTORY_LIMIT :: nat where "HISTORY_LIMIT = 24"
definition RECENT_HASHES_CAP :: nat where "RECENT_HASHES_CAP = 32"

section \<open>Encoding\<close>

record 'i image_lib =
  il_load :: "bytes \<Rightarrow> 'i option"
  il_dimensions :: "'i \<Rightarrow> nat \<times> nat"
  il_rgba :: "'i \<Rightarrow> bytes"
  il_from_rgba :: "nat \<Rightarrow> nat \<Rightarrow> bytes \<Rightarrow> 'i option"
  il_png :: "'i \<Rightarrow> bytes option"
  il_jpeg :: "nat \<Rightarrow> 'i \<Rightarrow> bytes option"
  il_thumbnail :: "bytes \<Rightarrow> str option"

record normalized_png =
  np_bytes :: bytes
  np_mime :: str
  np_width :: nat
  np_height :: nat

definition MIME_PNG :: str where "MIME_PNG = lit ''image/png''"
definition MIME_JPEG :: str where "MIME_JPEG = lit ''image/jpeg''"

fun first_jpeg :: "'i image_lib \<Rightarrow> 'i \<Rightarrow> nat list \<Rightarrow> bytes option" where
  "first_jpeg L img [] = None"
| "first_jpeg L img (quality # qs) =
     (case il_jpeg L quality img of
        Some jpeg \<Rightarrow> if length jpeg \<le> MAX_IMAGE_BYTES then Some jpeg else first_jpeg L img qs
      | None \<Rightarrow> first_jpeg L img qs)"

definition normalized :: "'i image_lib \<Rightarrow> 'i \<Rightarrow> str \<Rightarrow> bytes \<Rightarrow> normalized_png" where
  "normalized L img mime bytes =
     \<lparr>np_bytes = bytes, np_mime = mime, np_width = fst (il_dimensions L img), np_height = snd (il_dimensions L img)\<rparr>"

definition small_png :: "'i image_lib \<Rightarrow> 'i \<Rightarrow> bytes option" where
  "small_png L img =
     (case il_png L img of
        Some png \<Rightarrow> if length png \<le> MAX_IMAGE_BYTES then Some png else None
      | None \<Rightarrow> None)"

definition encode_dynamic_for_wire :: "'i image_lib \<Rightarrow> 'i \<Rightarrow> bool \<Rightarrow> normalized_png option" where
  "encode_dynamic_for_wire L img skip_png =
     (case (if skip_png then None else small_png L img) of
        Some png \<Rightarrow> Some (normalized L img MIME_PNG png)
      | None \<Rightarrow>
          (case first_jpeg L img [92, 85, 75, 60] of
             Some jpeg \<Rightarrow> Some (normalized L img MIME_JPEG jpeg)
           | None \<Rightarrow> map_option (normalized L img MIME_JPEG) (il_jpeg L 50 img)))"

definition is_png_bytes :: "bytes \<Rightarrow> bool" where
  "is_png_bytes b \<longleftrightarrow> take 4 b = [0x89, 0x50, 0x4e, 0x47]"

definition is_jpeg_bytes :: "bytes \<Rightarrow> bool" where
  "is_jpeg_bytes b \<longleftrightarrow> take 3 b = [0xff, 0xd8, 0xff]"

definition encode_for_wire :: "'i image_lib \<Rightarrow> bytes \<Rightarrow> normalized_png option" where
  "encode_for_wire L bytes =
     (let is_png = is_png_bytes bytes; is_jpeg = is_jpeg_bytes bytes
      in if (is_png \<or> is_jpeg) \<and> length bytes \<le> MAX_IMAGE_BYTES
         then map_option (\<lambda>img. normalized L img (if is_png then MIME_PNG else MIME_JPEG) bytes) (il_load L bytes)
         else
           (case il_load L bytes of
              None \<Rightarrow> None
            | Some img \<Rightarrow> encode_dynamic_for_wire L img (is_png \<or> is_jpeg)))"

definition pixel_hash_hex :: "prims \<Rightarrow> 'i image_lib \<Rightarrow> bytes \<Rightarrow> str option" where
  "pixel_hash_hex P L bytes = map_option (\<lambda>img. sha256_hex P (il_rgba L img)) (il_load L bytes)"

section \<open>Recent hashes\<close>

definition trim_front :: "nat \<Rightarrow> 'a list \<Rightarrow> 'a list" where
  "trim_front cap q = drop (length q - cap) q"

definition remember_hash :: "str \<Rightarrow> str list \<Rightarrow> bool \<times> str list" where
  "remember_hash hash q =
     (if hash \<in> set q then (True, remove1 hash q @ [hash])
      else (False, trim_front RECENT_HASHES_CAP (q @ [hash])))"

section \<open>Histories\<close>

datatype direction = Sent | Received

record image_entry =
  ie_id :: str
  ie_mime :: str
  ie_width :: nat
  ie_height :: nat
  ie_size_bytes :: nat
  ie_device_name :: str
  ie_ts :: nat
  ie_direction :: direction
  ie_thumbnail :: str

definition build_history_entry ::
  "prims \<Rightarrow> 'i image_lib \<Rightarrow> nat \<Rightarrow> normalized_png \<Rightarrow> str \<Rightarrow> direction \<Rightarrow> image_entry" where
  "build_history_entry P L ts png device_name direction =
     \<lparr>ie_id = sha256_hex P (np_bytes png), ie_mime = np_mime png, ie_width = np_width png,
      ie_height = np_height png, ie_size_bytes = length (np_bytes png), ie_device_name = device_name,
      ie_ts = ts, ie_direction = direction,
      ie_thumbnail = (case il_thumbnail L (np_bytes png) of Some t \<Rightarrow> t | None \<Rightarrow> [])\<rparr>"

record image_store =
  is_history :: "image_entry list"
  is_bytes :: "(str \<times> bytes) list"
  is_sent :: "image_entry list"

text \<open>The loop that pops the back while the history is over its limit.\<close>

function evict_history :: "image_entry list \<Rightarrow> (str \<times> bytes) list \<Rightarrow> image_entry list \<times> (str \<times> bytes) list" where
  "evict_history h bs =
     (if length h > HISTORY_LIMIT then evict_history (butlast h) (AList.delete (ie_id (last h)) bs)
      else (h, bs))"
  by pat_completeness auto
termination
  by (relation "measure (\<lambda>(h, bs). length h)") auto

declare evict_history.simps [simp del]

definition store_history :: "image_entry \<Rightarrow> bytes \<Rightarrow> image_store \<Rightarrow> image_store" where
  "store_history entry bytes s =
     (let (h, bs) = evict_history (entry # is_history s) (is_bytes s)
      in \<lparr>is_history = h, is_bytes = AList.update (ie_id entry) bytes bs, is_sent = is_sent s @ [entry]\<rparr>)"

datatype file_status = StSending | StSent | StReceived | StFailed

record file_entry =
  fe_id :: str
  fe_file_name :: str
  fe_device_name :: str
  fe_size_bytes :: nat
  fe_ts :: nat
  fe_direction :: direction
  fe_status :: file_status
  fe_path :: "str option"
  fe_message :: "str option"

definition pending_entry :: "nat \<Rightarrow> str \<Rightarrow> str \<Rightarrow> str \<Rightarrow> nat \<Rightarrow> file_entry" where
  "pending_entry now ident file_name device_name size_bytes =
     \<lparr>fe_id = ident, fe_file_name = file_name, fe_device_name = device_name, fe_size_bytes = size_bytes,
      fe_ts = now, fe_direction = Sent, fe_status = StSending, fe_path = None, fe_message = None\<rparr>"

definition remove_by_id :: "str \<Rightarrow> file_entry list \<Rightarrow> file_entry list" where
  "remove_by_id ident h =
     takeWhile (\<lambda>e. fe_id e \<noteq> ident) h @ tl (dropWhile (\<lambda>e. fe_id e \<noteq> ident) h)"

definition store_file_history :: "file_entry \<Rightarrow> file_entry list \<Rightarrow> file_entry list" where
  "store_file_history entry h = take HISTORY_LIMIT (entry # remove_by_id (fe_id entry) h)"

section \<open>File names\<close>

definition is_separator :: "nat \<Rightarrow> bool" where
  "is_separator c \<longleftrightarrow> c = 47 \<or> c = 92"

definition after_last_separator :: "str \<Rightarrow> str" where
  "after_last_separator s = rev (takeWhile (\<lambda>c. \<not> is_separator c) (rev s))"

definition file_display_name :: "str \<Rightarrow> str" where
  "file_display_name path =
     (let s = after_last_separator path in if trim s \<noteq> [] then s else lit ''file'')"

definition pathbufs_from_drag_strings :: "str list \<Rightarrow> str list" where
  "pathbufs_from_drag_strings paths =
     List.map_filter (\<lambda>p. let trimmed = trim p in if trimmed \<noteq> [] then Some trimmed else None) paths"

text \<open>\<open>Path::extension\<close>: what follows the last dot of the file name, when something precedes it.\<close>

definition path_extension :: "str \<Rightarrow> str option" where
  "path_extension path =
     (let name = after_last_separator (trim_end_where is_separator path)
      in if name = lit ''..'' then None
         else case rsplit_once 46 name of
           Some (stem, ext) \<Rightarrow> if stem = [] then None else Some ext
         | None \<Rightarrow> None)"

definition is_supported_clipboard_image_file :: "str \<Rightarrow> bool" where
  "is_supported_clipboard_image_file path =
     (case path_extension path of
        Some ext \<Rightarrow> map ascii_lower ext \<in> {lit ''png'', lit ''jpg'', lit ''jpeg''}
      | None \<Rightarrow> False)"

definition supported_drag_image_paths :: "str list \<Rightarrow> str list" where
  "supported_drag_image_paths paths = filter is_supported_clipboard_image_file paths"

text \<open>A file as the code asks for it: is it a regular file, its length, its content; each may fail.\<close>

record disk_file =
  df_is_file :: bool
  df_len :: nat
  df_read :: "bytes option"

definition normalize_image_file_at_path ::
  "'i image_lib \<Rightarrow> (str \<Rightarrow> disk_file option) \<Rightarrow> str \<Rightarrow> normalized_png option" where
  "normalize_image_file_at_path L disk path =
     (if \<not> is_supported_clipboard_image_file path then None
      else case disk path of
        None \<Rightarrow> None
      | Some f \<Rightarrow>
          if \<not> df_is_file f \<or> df_len f > MAX_IMAGE_BYTES then None
          else Option.bind (df_read f) (encode_for_wire L))"

fun find_map :: "('a \<Rightarrow> 'b option) \<Rightarrow> 'a list \<Rightarrow> 'b option" where
  "find_map f [] = None"
| "find_map f (x # xs) = (case f x of Some y \<Rightarrow> Some y | None \<Rightarrow> find_map f xs)"

definition normalize_first_image_file ::
  "'i image_lib \<Rightarrow> (str \<Rightarrow> disk_file option) \<Rightarrow> str list \<Rightarrow> normalized_png option" where
  "normalize_first_image_file L disk paths = find_map (normalize_image_file_at_path L disk) paths"

text \<open>
  The files of a drop, read from the system clipboard: what \<open>OpenClipboard\<close>, the format test and
  \<open>GetClipboardData\<close> answer, then the number of names, the length of each and the characters copied
  into a buffer of a given size. The pair counts how often the clipboard was opened and closed: the
  guard closes it on every way out.
\<close>

record hdrop_os =
  ho_open :: bool
  ho_available :: bool
  ho_data :: "nat option"
  ho_count :: nat
  ho_len :: "nat \<Rightarrow> nat"
  ho_copy :: "nat \<Rightarrow> nat \<Rightarrow> 16 word list"
  ho_from_wide :: "16 word list \<Rightarrow> str"

definition hdrop_entry :: "hdrop_os \<Rightarrow> nat \<Rightarrow> str option" where
  "hdrop_entry q index =
     (let len = ho_len q index
      in if len = 0 then None
         else
           (let written = ho_copy q index (len + 1)
            in if written = [] then None else Some (ho_from_wide q written)))"

definition hdrop_read :: "hdrop_os \<Rightarrow> str list option" where
  "hdrop_read q =
     (if \<not> ho_available q then None
      else case ho_data q of
        None \<Rightarrow> None
      | Some handle \<Rightarrow>
          if handle = 0 \<or> ho_count q = 0 then None
          else (let paths = List.map_filter (hdrop_entry q) [0..<ho_count q]
                in if paths = [] then None else Some paths))"

definition clipboard_file_paths_from_hdrop :: "hdrop_os \<Rightarrow> nat \<times> nat \<Rightarrow> str list option \<times> nat \<times> nat" where
  "clipboard_file_paths_from_hdrop q g =
     (if \<not> ho_open q then (None, g)
      else (let g = (Suc (fst g), snd g); r = hdrop_read q in (r, fst g, Suc (snd g))))"

lemma hdrop_balanced:
  "clipboard_file_paths_from_hdrop q (opens, closes) = (r, opens', closes') \<Longrightarrow>
     opens' - opens = closes' - closes \<and> (\<forall>paths. r = Some paths \<longrightarrow> paths \<noteq> [] \<and> length paths \<le> ho_count q)"
  using length_filter_le [of "\<lambda>x. \<exists>y. hdrop_entry q x = Some y" "[0..<ho_count q]"]
  by (auto simp: clipboard_file_paths_from_hdrop_def hdrop_read_def Let_def map_filter_def
      split: if_splits option.splits)

text \<open>
  What the clipboard holds when it is read: a bitmap, dropped files (what
  \<open>clipboard_file_paths_from_hdrop\<close> answers), or text; each may be absent.
\<close>

record clipboard =
  cb_bitmap :: "(nat \<times> nat \<times> bytes) option"
  cb_files :: "str list option"
  cb_text :: "str option"

definition read_clipboard_bitmap_image :: "'i image_lib \<Rightarrow> clipboard \<Rightarrow> normalized_png option" where
  "read_clipboard_bitmap_image L cb =
     Option.bind (cb_bitmap cb) (\<lambda>(w, h, bytes).
       Option.bind (il_from_rgba L w h bytes) (\<lambda>img. encode_dynamic_for_wire L img False))"

definition read_clipboard_image ::
  "'i image_lib \<Rightarrow> (str \<Rightarrow> disk_file option) \<Rightarrow> clipboard \<Rightarrow> normalized_png option" where
  "read_clipboard_image L disk cb =
     (case read_clipboard_bitmap_image L cb of
        Some png \<Rightarrow> Some png
      | None \<Rightarrow> Option.bind (cb_files cb) (normalize_first_image_file L disk))"

section \<open>Facts and properties of the encoding\<close>

lemma first_jpeg_Some: "first_jpeg L img qs = Some j \<Longrightarrow>
    \<exists>q \<in> set qs. il_jpeg L q img = Some j \<and> length j \<le> MAX_IMAGE_BYTES"
  by (induction qs) (auto split: option.splits if_splits)

lemma first_jpeg_None: "first_jpeg L img qs = None \<longleftrightarrow>
    (\<forall>q \<in> set qs. \<forall>j. il_jpeg L q img = Some j \<longrightarrow> MAX_IMAGE_BYTES < length j)"
  by (induction qs) (auto split: option.splits)

definition wire_form :: "'i image_lib \<Rightarrow> bytes \<Rightarrow> 'i \<Rightarrow> normalized_png \<Rightarrow> bool" where
  "wire_form L b img png \<longleftrightarrow>
     np_bytes png = b \<and> length b \<le> MAX_IMAGE_BYTES
       \<and> (is_png_bytes b \<and> np_mime png = MIME_PNG \<or> is_jpeg_bytes b \<and> np_mime png = MIME_JPEG)
     \<or> il_png L img = Some (np_bytes png) \<and> np_mime png = MIME_PNG \<and> length (np_bytes png) \<le> MAX_IMAGE_BYTES
         \<and> \<not> is_png_bytes b \<and> \<not> is_jpeg_bytes b
     \<or> np_mime png = MIME_JPEG \<and> length (np_bytes png) \<le> MAX_IMAGE_BYTES
         \<and> (\<exists>q \<in> {92, 85, 75, 60}. il_jpeg L q img = Some (np_bytes png))
     \<or> np_mime png = MIME_JPEG \<and> il_jpeg L 50 img = Some (np_bytes png)
         \<and> (is_png_bytes b \<or> is_jpeg_bytes b \<or> small_png L img = None)
         \<and> (\<forall>q \<in> {92, 85, 75, 60}. \<forall>j. il_jpeg L q img = Some j \<longrightarrow> MAX_IMAGE_BYTES < length j)"

lemma encode_dynamic_form:
  assumes "encode_dynamic_for_wire L img skip = Some png" and skip: "skip = (is_png_bytes b \<or> is_jpeg_bytes b)"
  shows "wire_form L b img png \<and> (np_width png, np_height png) = il_dimensions L img"
proof (cases "if skip then None else small_png L img")
  case (Some p)
  then show ?thesis
    using assms by (auto simp: encode_dynamic_for_wire_def normalized_def small_png_def wire_form_def
        split: if_splits option.splits)
next
  case None
  show ?thesis
  proof (cases "first_jpeg L img [92, 85, 75, 60]")
    case j: (Some j)
    then have "png = normalized L img MIME_JPEG j" using assms(1) None by (simp add: encode_dynamic_for_wire_def)
    with first_jpeg_Some [OF j] show ?thesis by (auto simp: wire_form_def normalized_def)
  next
    case j: None
    then have "il_jpeg L 50 img = Some (np_bytes png)" "np_mime png = MIME_JPEG"
      "(np_width png, np_height png) = il_dimensions L img"
      using assms(1) None by (auto simp: encode_dynamic_for_wire_def normalized_def simp del: first_jpeg.simps)
    moreover have "is_png_bytes b \<or> is_jpeg_bytes b \<or> small_png L img = None"
      using None skip by (auto split: if_splits)
    ultimately show ?thesis using j [unfolded first_jpeg_None] by (auto simp: wire_form_def)
  qed
qed

text \<open>
  An image is encoded as small as needed and no smaller. What is sent is the original when it is
  a PNG or JPEG within the cap; otherwise a lossless PNG within the cap, unless the source was
  compressed already; otherwise a JPEG within the cap. Only when neither the PNG nor any of the four
  qualities tried fits is the result over the cap allowed, and then it is the JPEG of quality 50.
  Dimensions are those of the decoded image.
\<close>

theorem encode_for_wire_spec:
  assumes enc: "encode_for_wire L b = Some png"
  shows "\<exists>img. il_load L b = Some img \<and> (np_width png, np_height png) = il_dimensions L img \<and> wire_form L b img png"
proof (cases "il_load L b")
  case (Some img)
  show ?thesis
  proof (cases "(is_png_bytes b \<or> is_jpeg_bytes b) \<and> length b \<le> MAX_IMAGE_BYTES")
    case True
    then have png: "png = normalized L img (if is_png_bytes b then MIME_PNG else MIME_JPEG) b"
      using enc Some by (simp add: encode_for_wire_def Let_def)
    show ?thesis
      unfolding png using True Some by (cases "is_png_bytes b") (simp_all add: normalized_def wire_form_def)
  next
    case False
    have "encode_dynamic_for_wire L img (is_png_bytes b \<or> is_jpeg_bytes b) = Some png"
      using enc unfolding encode_for_wire_def Let_def if_not_P [OF False] Some option.case .
    from encode_dynamic_form [OF this refl] Some show ?thesis by blast
  qed
qed (use enc in \<open>auto simp: encode_for_wire_def Let_def split: if_splits\<close>)

definition demo_image_lib :: "bytes image_lib" where
  "demo_image_lib =
     \<lparr>il_load = Some, il_dimensions = (\<lambda>i. (length i, 1)), il_rgba = (\<lambda>i. i), il_from_rgba = (\<lambda>w h b. Some b),
      il_png = Some, il_jpeg = (\<lambda>q. Some), il_thumbnail = (\<lambda>b. None)\<rparr>"

theorem encode_for_wire_spec_witness:
  "wire_form demo_image_lib [7] [7] \<lparr>np_bytes = [7], np_mime = MIME_PNG, np_width = 1, np_height = 1\<rparr>"
  using encode_for_wire_spec [of demo_image_lib "[7]" "\<lparr>np_bytes = [7], np_mime = MIME_PNG, np_width = 1, np_height = 1\<rparr>"]
  by (simp add: encode_for_wire_def demo_image_lib_def is_png_bytes_def is_jpeg_bytes_def encode_dynamic_for_wire_def
      small_png_def normalized_def MAX_IMAGE_BYTES_def)

section \<open>Facts and properties of the hashes\<close>

lemma remdups_snoc: "remdups (xs @ [x]) = filter (\<lambda>y. y \<noteq> x) (remdups xs) @ [x]"
  by (induction xs) auto

lemma remove1_filter: "distinct xs \<Longrightarrow> remove1 x xs = filter (\<lambda>y. y \<noteq> x) xs"
proof (induction xs)
  case (Cons a xs)
  then have "x \<notin> set xs \<Longrightarrow> filter (\<lambda>y. y \<noteq> x) xs = xs" by (auto simp: filter_id_conv)
  with Cons show ?case by auto
qed simp

lemma drop_filter_in:
  assumes "distinct xs" and "x \<in> set (drop n xs)"
  shows "drop n (filter (\<lambda>y. y \<noteq> x) xs) = filter (\<lambda>y. y \<noteq> x) (drop n xs)"
proof -
  have "x \<notin> set (take n xs)"
    using assms by (metis append_take_drop_id disjoint_iff distinct_append)
  then have "filter (\<lambda>y. y \<noteq> x) (take n xs) = take n xs" by (intro filter_True) metis
  moreover have "filter (\<lambda>y. y \<noteq> x) xs = filter (\<lambda>y. y \<noteq> x) (take n xs) @ filter (\<lambda>y. y \<noteq> x) (drop n xs)"
    by (metis append_take_drop_id filter_append)
  moreover have "n \<le> length xs" using assms(2) by (cases "n \<le> length xs") auto
  ultimately show ?thesis by simp
qed

definition last_distinct :: "nat \<Rightarrow> 'a list \<Rightarrow> 'a list" where
  "last_distinct n xs = drop (length (remdups xs) - n) (remdups xs)"

lemma remember_last_distinct:
  "snd (remember_hash h (last_distinct RECENT_HASHES_CAP hs)) = last_distinct RECENT_HASHES_CAP (hs @ [h])"
proof -
  let ?r = "remdups hs" and ?n = "length (remdups hs) - RECENT_HASHES_CAP"
  let ?q = "drop ?n ?r"
  have dist: "distinct ?r" "distinct ?q" by simp_all
  consider (known) "h \<in> set ?q" | (old) "h \<in> set (take ?n ?r)" "h \<notin> set ?q" | (new) "h \<notin> set ?r"
    by (metis UnE append_take_drop_id set_append)
  then show ?thesis
  proof cases
    case known
    then have h: "h \<in> set ?r" by (rule in_set_dropD)
    have len: "length (filter (\<lambda>y. y \<noteq> h) ?r) = length ?r - 1"
      using remove1_filter [OF dist(1), of h] h by (metis length_remove1)
    have "0 < length ?r" using h by (rule length_pos_if_in_set)
    then have "last_distinct RECENT_HASHES_CAP (hs @ [h]) = drop ?n (filter (\<lambda>y. y \<noteq> h) ?r) @ [h]"
      using len by (simp add: last_distinct_def remdups_snoc RECENT_HASHES_CAP_def)
    then show ?thesis
      using known drop_filter_in [OF dist(1) known] remove1_filter [OF dist(2)]
      by (simp add: remember_hash_def last_distinct_def)
  next
    case old
    have n: "0 < ?n" using old(1) by (cases ?n) auto
    have "filter (\<lambda>y. y \<noteq> h) ?q = ?q" using old(2) by (auto simp: filter_id_conv)
    then have f: "filter (\<lambda>y. y \<noteq> h) ?r = filter (\<lambda>y. y \<noteq> h) (take ?n ?r) @ ?q"
      by (metis append_take_drop_id filter_append)
    have lf: "length (filter (\<lambda>y. y \<noteq> h) (take ?n ?r)) = ?n - 1"
    proof -
      have "filter (\<lambda>y. y \<noteq> h) (take ?n ?r) = remove1 h (take ?n ?r)"
        by (rule remove1_filter [symmetric]) (simp add: distinct_take)
      moreover have "length (take ?n ?r) = ?n" by simp
      ultimately show ?thesis using old(1) by (simp only: length_remove1 if_True)
    qed
    have lq: "length ?q = RECENT_HASHES_CAP" using n by simp
    have "last_distinct RECENT_HASHES_CAP (hs @ [h]) = drop 1 (?q @ [h])"
      using n lf lq by (simp add: last_distinct_def remdups_snoc f)
    then show ?thesis
      using old(2) lq by (simp add: remember_hash_def last_distinct_def trim_front_def)
  next
    case new
    then have f: "filter (\<lambda>y. y \<noteq> h) ?r = ?r" by (auto simp: filter_id_conv)
    have "h \<notin> set ?q" using new in_set_dropD by metis
    then have "snd (remember_hash h (last_distinct RECENT_HASHES_CAP hs)) = trim_front RECENT_HASHES_CAP (?q @ [h])"
      by (simp add: remember_hash_def last_distinct_def)
    also have "\<dots> = last_distinct RECENT_HASHES_CAP (hs @ [h])"
      using Suc_diff_le [of RECENT_HASHES_CAP "length ?r"]
      by (cases "RECENT_HASHES_CAP \<le> length ?r")
        (auto simp: last_distinct_def remdups_snoc f trim_front_def RECENT_HASHES_CAP_def)
    finally show ?thesis .
  qed
qed

lemma remember_run: "fold (\<lambda>h q. snd (remember_hash h q)) hs [] = last_distinct RECENT_HASHES_CAP hs"
  by (induction hs rule: rev_induct) (simp_all add: remember_last_distinct, simp add: last_distinct_def)

text \<open>
  The set of recent hashes is the last 32 distinct ones. After any sequence of images the set
  holds the 32 most recently seen distinct hashes, the latest last, and an image is taken for known
  exactly when its hash is among them.
\<close>

theorem recent_hashes_spec:
  "let q = fold (\<lambda>h q. snd (remember_hash h q)) hs []
   in q = last_distinct RECENT_HASHES_CAP hs \<and> length q \<le> RECENT_HASHES_CAP
      \<and> (fst (remember_hash h q) \<longleftrightarrow> h \<in> set (last_distinct RECENT_HASHES_CAP hs))"
  unfolding Let_def remember_run by (simp add: remember_hash_def) (simp add: last_distinct_def)

section \<open>Facts and properties of the histories\<close>

lemma evict_history_one:
  "length h \<le> HISTORY_LIMIT \<Longrightarrow> evict_history (e # h) bs =
     (if length h < HISTORY_LIMIT then (e # h, bs) else (e # butlast h, AList.delete (ie_id (last h)) bs))"
  by (cases h rule: rev_cases)
    (auto simp: evict_history.simps [of "_ # _"] evict_history.simps [of "_ # _ @ _"] HISTORY_LIMIT_def)

definition store_all :: "(image_entry \<times> bytes) list \<Rightarrow> image_store \<Rightarrow> image_store" where
  "store_all es s = fold (\<lambda>(e, b). store_history e b) es s"

definition empty_images :: image_store where
  "empty_images = \<lparr>is_history = [], is_bytes = [], is_sent = []\<rparr>"

lemma store_all_snoc: "store_all (es @ [(e, b)]) s = store_history e b (store_all es s)"
  by (simp add: store_all_def)

text \<open>
  The image history is the newest 24 images, and each of them can be saved. After any images with
  different ids the history lists the newest 24, newest first; the bytes kept are exactly those of
  the listed images; and the interface heard of every image once, in order.
\<close>

theorem image_history_spec:
  assumes "distinct (map (\<lambda>e. ie_id (fst e)) es)"
  shows "is_history (store_all es empty_images) = take HISTORY_LIMIT (rev (map fst es))
     \<and> map_of (is_bytes (store_all es empty_images)) =
         map_of (take HISTORY_LIMIT (rev (map (\<lambda>e. (ie_id (fst e), snd e)) es)))
     \<and> is_sent (store_all es empty_images) = map fst es"
  using assms
proof (induction es rule: rev_induct)
  case (snoc x es)
  obtain e b where x: "x = (e, b)" by (cases x)
  let ?s = "store_all es empty_images" and ?g = "\<lambda>e. (ie_id (fst e), snd e)"
  have IH: "is_history ?s = map fst (take HISTORY_LIMIT (rev es))"
    "map_of (is_bytes ?s) = map_of (map ?g (take HISTORY_LIMIT (rev es)))"
    "is_sent ?s = map fst es" using snoc by (auto simp: rev_map take_map)
  have goal: "?case \<longleftrightarrow> is_history (store_history e b ?s) = map fst (take HISTORY_LIMIT (x # rev es))
      \<and> map_of (is_bytes (store_history e b ?s)) = map_of (map ?g (take HISTORY_LIMIT (x # rev es)))
      \<and> is_sent (store_history e b ?s) = map fst (es @ [x])"
    unfolding x store_all_snoc by (simp add: rev_map [symmetric] take_map [symmetric])
  show ?case
  proof (cases "length es < HISTORY_LIMIT")
    case True
    then show ?thesis
      unfolding goal store_history_def using IH
      by (simp add: evict_history_one x fun_eq_iff update_conv')
  next
    case False
    define F l where "F = take (HISTORY_LIMIT - 1) (rev es)" and "l = rev es ! (HISTORY_LIMIT - 1)"
    have FL: "take HISTORY_LIMIT (rev es) = F @ [l]"
      unfolding F_def l_def using False take_Suc_conv_app_nth [of "HISTORY_LIMIT - 1" "rev es"]
      by (simp add: HISTORY_LIMIT_def)
    have xF: "take HISTORY_LIMIT (x # rev es) = x # F" by (simp add: F_def HISTORY_LIMIT_def)
    have len: "length F = HISTORY_LIMIT - 1" using False by (simp add: F_def HISTORY_LIMIT_def)
    have "distinct (map fst (map ?g (rev es)))" using snoc.prems by (simp add: o_def rev_map [symmetric])
    then have "distinct (take HISTORY_LIMIT (map fst (map ?g (rev es))))" by (rule distinct_take)
    then have "distinct (map fst (map ?g (F @ [l])))" by (simp only: take_map FL)
    then have "ie_id (fst l) \<notin> set (map fst (map ?g F))" by auto
    then have "map_of (map ?g F) (ie_id (fst l)) = None" by (simp only: map_of_eq_None_iff set_map not_False_eq_True)
    then have last: "(map_of (map ?g (F @ [l])))(ie_id (fst l) := None) = map_of (map ?g F)"
      by (auto simp: fun_eq_iff map_add_def split: option.splits)
    show ?thesis
      unfolding goal xF store_history_def using IH FL len last
      by (simp add: evict_history_one x HISTORY_LIMIT_def update_conv' delete_conv' butlast_append)
  qed
qed (simp add: store_all_def empty_images_def)

definition demo_entry :: "str \<Rightarrow> image_entry" where
  "demo_entry ident = \<lparr>ie_id = ident, ie_mime = [], ie_width = 1, ie_height = 1, ie_size_bytes = 1,
     ie_device_name = [], ie_ts = 0, ie_direction = Sent, ie_thumbnail = []\<rparr>"

theorem image_history_spec_witness:
  "is_history (store_all [(demo_entry [1], [7]), (demo_entry [2], [8])] empty_images) = [demo_entry [2], demo_entry [1]]"
  using image_history_spec [of "[(demo_entry [1], [7]), (demo_entry [2], [8])]"]
  by (simp add: demo_entry_def HISTORY_LIMIT_def)

lemma store_all_room:
  "length (is_history s) + length es \<le> HISTORY_LIMIT \<Longrightarrow>
     is_history (store_all es s) = rev (map fst es) @ is_history s"
proof (induction es rule: rev_induct)
  case (snoc x es)
  obtain e b where x: "x = (e, b)" by (cases x)
  show ?case
    using snoc unfolding x store_all_snoc store_history_def by (simp add: evict_history_one)
qed (simp add: store_all_def)

text \<open>
  The same image twice can no longer be saved. When an image is sent again while it is still
  listed, the older entry takes the bytes with it when it leaves the history: after 23 further
  images the newer entry is still listed, and its bytes are gone.
\<close>

theorem repeated_image_loses_bytes:
  assumes same: "ie_id x2 = ie_id x1" and others: "ie_id x1 \<notin> (\<lambda>e. ie_id (fst e)) ` set es"
    and len: "length es = HISTORY_LIMIT - 1"
  shows "let s = store_all ((x1, b1) # (x2, b2) # es) empty_images
         in x2 \<in> set (is_history s) \<and> map_of (is_bytes s) (ie_id x2) = None"
proof -
  obtain es' e b where es: "es = es' @ [(e, b)]"
    using len by (cases es rule: rev_cases) (auto simp: HISTORY_LIMIT_def)
  let ?s = "store_all ((x1, b1) # (x2, b2) # es') empty_images"
  have s: "store_all ((x1, b1) # (x2, b2) # es) empty_images = store_history e b ?s"
    using store_all_snoc [of "(x1, b1) # (x2, b2) # es'"] by (simp add: es)
  have hist: "is_history ?s = rev (map fst es') @ [x2, x1]"
    using store_all_room [of empty_images "(x1, b1) # (x2, b2) # es'"] len
    by (simp add: es empty_images_def HISTORY_LIMIT_def)
  have "length (is_history ?s) = HISTORY_LIMIT" using len by (simp add: hist es HISTORY_LIMIT_def)
  then have "store_history e b ?s = \<lparr>is_history = e # rev (map fst es') @ [x2],
      is_bytes = AList.update (ie_id e) b (AList.delete (ie_id x1) (is_bytes ?s)), is_sent = is_sent ?s @ [e]\<rparr>"
    using evict_history_one [of "is_history ?s" e "is_bytes ?s"]
    by (simp add: store_history_def hist butlast_append del: rev_map)
  then show ?thesis
    unfolding s Let_def using same others by (simp add: es update_conv' delete_conv')
qed

theorem repeated_image_loses_bytes_witness:
  "let s = store_all ((demo_entry [1], [7]) # (demo_entry [1], [7]) # map (\<lambda>i. (demo_entry [2, i], [8])) [0..<23]) empty_images
   in demo_entry [1] \<in> set (is_history s) \<and> map_of (is_bytes s) [1] = None"
  using repeated_image_loses_bytes [of "demo_entry [1]" "demo_entry [1]" "map (\<lambda>i. (demo_entry [2, i], [8])) [0..<23]" "[7]" "[7]"]
  by (simp add: demo_entry_def HISTORY_LIMIT_def image_iff)

text \<open>The history of file transfers: an entry replaces the one with its id and becomes the newest.\<close>

lemma remove_by_id_set: "distinct (map fe_id h) \<Longrightarrow> set (remove_by_id ident h) = {e \<in> set h. fe_id e \<noteq> ident}"
  unfolding remove_by_id_def by (induction h) (auto simp: image_iff)

lemma remove_by_id_distinct: "distinct (map fe_id h) \<Longrightarrow> distinct (map fe_id (remove_by_id ident h))"
proof (induction h)
  case (Cons e h)
  show ?case
  proof (cases "fe_id e = ident")
    case False
    then have "remove_by_id ident (e # h) = e # remove_by_id ident h" by (simp add: remove_by_id_def)
    then show ?thesis using Cons remove_by_id_set [of h ident] by auto
  qed (use Cons.prems in \<open>simp add: remove_by_id_def\<close>)
qed (simp add: remove_by_id_def)

lemma store_file_history_inv:
  "distinct (map fe_id h) \<Longrightarrow> distinct (map fe_id (store_file_history e h))
     \<and> length (store_file_history e h) \<le> HISTORY_LIMIT \<and> hd (store_file_history e h) = e
     \<and> set (store_file_history e h) \<subseteq> insert e {e' \<in> set h. fe_id e' \<noteq> fe_id e}"
proof -
  assume d: "distinct (map fe_id h)"
  have all: "distinct (map fe_id (e # remove_by_id (fe_id e) h))"
    using remove_by_id_distinct [OF d] remove_by_id_set [OF d] by auto
  show ?thesis
    using distinct_take [OF all, of HISTORY_LIMIT] remove_by_id_set [OF d, of "fe_id e"]
      set_take_subset [of HISTORY_LIMIT "e # remove_by_id (fe_id e) h"]
    by (auto simp: store_file_history_def take_map HISTORY_LIMIT_def simp del: take_Suc_Cons)
qed

end
