(* ===== verification/WinListener.thy ===== *)
theory WinListener
  imports Prelude
begin

text \<open>
  The native clipboard listener of the Windows client, \<open>src/clients/windows/src/clipboard_listener.rs\<close>:
  a thread with a message-only window whose user data holds a raw pointer to the boxed callback.
  The calls into Windows are parameters (what they answer) or operations on an explicit world: the
  live windows with their user data, the live boxes, and a flag for undefined behaviour, a dead
  pointer that is followed or freed. Address 0 and handle 0 are null.
\<close>

section \<open>The world of the thread\<close>

type_synonym hwnd = nat
type_synonym addr = nat

definition WM_CLIPBOARDUPDATE :: "32 word" where "WM_CLIPBOARDUPDATE = 0x031D"
definition WM_USER :: "32 word" where "WM_USER = 0x0400"
definition WM_USER_STOP :: "32 word" where "WM_USER_STOP = WM_USER + 1"

record 'c win_world =
  lw_windows :: "hwnd \<rightharpoonup> addr"
  lw_boxes :: "addr \<rightharpoonup> 'c"
  lw_formats :: "hwnd list"
  lw_calls :: "'c list"
  lw_fault :: bool

text \<open>What Windows answers: the module, the window, the registration, the box, and \<open>DefWindowProcW\<close>.\<close>

record 'c win_os =
  os_module :: bool
  os_window :: "hwnd option"
  os_box :: addr
  os_add :: bool
  os_def_proc :: "hwnd \<Rightarrow> 32 word \<Rightarrow> 'c win_world \<Rightarrow> 'c win_world"

definition get_window_long :: "hwnd \<Rightarrow> 'c win_world \<Rightarrow> addr" where
  "get_window_long h w = (case lw_windows w h of Some v \<Rightarrow> v | None \<Rightarrow> 0)"

text \<open>\<open>SetWindowLongPtrW\<close> answers the old value, and 0 when the window does not exist.\<close>

definition set_window_long :: "hwnd \<Rightarrow> addr \<Rightarrow> 'c win_world \<Rightarrow> addr \<times> 'c win_world" where
  "set_window_long h v w =
     (case lw_windows w h of
        Some old \<Rightarrow> (old, w\<lparr>lw_windows := (lw_windows w)(h \<mapsto> v)\<rparr>)
      | None \<Rightarrow> (0, w))"

definition destroy_window :: "hwnd \<Rightarrow> 'c win_world \<Rightarrow> 'c win_world" where
  "destroy_window h w = w\<lparr>lw_windows := (lw_windows w)(h := None)\<rparr>"

definition box_into_raw :: "addr \<Rightarrow> 'c \<Rightarrow> 'c win_world \<Rightarrow> 'c win_world" where
  "box_into_raw a cb w = w\<lparr>lw_boxes := (lw_boxes w)(a \<mapsto> cb)\<rparr>"

definition drop_from_raw :: "addr \<Rightarrow> 'c win_world \<Rightarrow> 'c win_world" where
  "drop_from_raw a w =
     (case lw_boxes w a of
        Some cb \<Rightarrow> w\<lparr>lw_boxes := (lw_boxes w)(a := None)\<rparr>
      | None \<Rightarrow> w\<lparr>lw_fault := True\<rparr>)"

definition call_raw :: "addr \<Rightarrow> 'c win_world \<Rightarrow> 'c win_world" where
  "call_raw a w =
     (case lw_boxes w a of
        Some cb \<Rightarrow> w\<lparr>lw_calls := lw_calls w @ [cb]\<rparr>
      | None \<Rightarrow> w\<lparr>lw_fault := True\<rparr>)"

section \<open>The window procedure and the message loop\<close>

definition wnd_proc :: "'c win_os \<Rightarrow> hwnd \<Rightarrow> 32 word \<Rightarrow> 'c win_world \<Rightarrow> 'c win_world" where
  "wnd_proc sys h m w =
     (if m = WM_CLIPBOARDUPDATE
      then (let raw = get_window_long h w in if raw \<noteq> 0 then call_raw raw w else w)
      else os_def_proc sys h m w)"

text \<open>\<open>DispatchMessageW\<close> calls the procedure of the message's window, when there is one.\<close>

definition dispatch :: "'c win_os \<Rightarrow> hwnd \<times> 32 word \<Rightarrow> 'c win_world \<Rightarrow> 'c win_world" where
  "dispatch sys msg w = (if lw_windows w (fst msg) = None then w else wnd_proc sys (fst msg) (snd msg) w)"

text \<open>
  What \<open>GetMessageW\<close> answers: a message of the window (a positive number), 0 for \<open>WM_QUIT\<close>, or -1 for
  an error, which leaves the message buffer as it was and which \<open>as_bool\<close> takes for true.
\<close>

datatype got = GotMessage "32 word" | GotQuit | GotError

fun pump :: "'c win_os \<Rightarrow> hwnd \<Rightarrow> hwnd \<times> 32 word \<Rightarrow> got list \<Rightarrow> 'c win_world \<Rightarrow> bool \<times> 'c win_world" where
  "pump sys h msg [] w = (False, w)"
| "pump sys h msg (g # gs) w =
     (if g = GotQuit then (True, w)
      else
        (let msg = (case g of GotMessage m \<Rightarrow> (h, m) | _ \<Rightarrow> msg)
         in if snd msg = WM_USER_STOP then (True, w) else pump sys h msg gs (dispatch sys msg w)))"

definition default_msg :: "hwnd \<times> 32 word" where "default_msg = (0, 0)"

section \<open>The thread\<close>

text \<open>The thread up to its one report on the channel: the handle it sends, and the window it goes on with.\<close>

definition listener_setup :: "'c win_os \<Rightarrow> 'c \<Rightarrow> 'c win_world \<Rightarrow> hwnd list \<times> hwnd option \<times> 'c win_world" where
  "listener_setup sys cb w =
     (if \<not> os_module sys then ([0], None, w)
      else case os_window sys of
        None \<Rightarrow> ([0], None, w)
      | Some h \<Rightarrow>
          (let w = w\<lparr>lw_windows := (lw_windows w)(h \<mapsto> 0)\<rparr>;
               raw = os_box sys;
               w = box_into_raw raw cb w;
               w = snd (set_window_long h raw w)
           in if \<not> os_add sys
              then
                (let w = snd (set_window_long h 0 w);
                     w = drop_from_raw raw w
                 in ([0], None, destroy_window h w))
              else ([h], Some h, w\<lparr>lw_formats := lw_formats w @ [h]\<rparr>)))"

definition listener_cleanup :: "hwnd \<Rightarrow> 'c win_world \<Rightarrow> 'c win_world" where
  "listener_cleanup h w =
     (case set_window_long h 0 w of
        (stored, w) \<Rightarrow>
          (let w = (if stored \<noteq> 0 then drop_from_raw stored w else w);
               w = w\<lparr>lw_formats := removeAll h (lw_formats w)\<rparr>
           in destroy_window h w))"

definition listener_serve :: "'c win_os \<Rightarrow> hwnd \<Rightarrow> got list \<Rightarrow> 'c win_world \<Rightarrow> bool \<times> 'c win_world" where
  "listener_serve sys h gs w =
     (case pump sys h default_msg gs w of
        (True, w) \<Rightarrow> (True, listener_cleanup h w)
      | (False, w) \<Rightarrow> (False, w))"

text \<open>The whole thread: what it sent, and whether it has ended.\<close>

definition run_listener_thread ::
  "'c win_os \<Rightarrow> 'c \<Rightarrow> got list \<Rightarrow> 'c win_world \<Rightarrow> hwnd list \<times> bool \<times> 'c win_world" where
  "run_listener_thread sys cb gs w =
     (case listener_setup sys cb w of
        (sent, None, w) \<Rightarrow> (sent, True, w)
      | (sent, Some h, w) \<Rightarrow> (sent, listener_serve sys h gs w))"

section \<open>The handle\<close>

record clipboard_listener =
  li_thread :: bool
  li_stop_hwnd :: hwnd

definition MSG_LISTENER_INIT :: str where
  "MSG_LISTENER_INIT = lit ''listener init: receiving on a closed channel''"

definition MSG_LISTENER_FAILED :: str where
  "MSG_LISTENER_FAILED = lit ''listener thread failed to initialise''"

text \<open>\<open>start\<close> returns once the thread has reported; the thread then serves messages.\<close>

definition listener_start ::
  "'c win_os \<Rightarrow> str option \<Rightarrow> 'c \<Rightarrow> 'c win_world \<Rightarrow> (str + clipboard_listener) \<times> 'c win_world" where
  "listener_start sys spawn_error cb w =
     (case spawn_error of
        Some e \<Rightarrow> (Inl e, w)
      | None \<Rightarrow>
          (case listener_setup sys cb w of
             ([], _, w) \<Rightarrow> (Inl MSG_LISTENER_INIT, w)
           | (h # _, _, w) \<Rightarrow>
               if h = 0 then (Inl MSG_LISTENER_FAILED, w)
               else (Inr \<lparr>li_thread = True, li_stop_hwnd = h\<rparr>, w)))"

text \<open>
  \<open>drop\<close> posts the stop message, which arrives after the messages \<open>gs\<close> already under way when the
  post succeeds, and joins the thread: it returns when the thread has ended.
\<close>

definition listener_drop ::
  "'c win_os \<Rightarrow> bool \<Rightarrow> got list \<Rightarrow> clipboard_listener \<Rightarrow> 'c win_world \<Rightarrow> bool \<times> 'c win_world" where
  "listener_drop sys posted gs L w =
     (let gs = gs @ (if li_stop_hwnd L \<noteq> 0 \<and> posted then [GotMessage WM_USER_STOP] else [])
      in if li_thread L then listener_serve sys (li_stop_hwnd L) gs w else (True, w))"

section \<open>Safety of the pointer\<close>

text \<open>
  \<open>DefWindowProcW\<close> may destroy a window; it neither changes user data nor touches the program's boxes.
\<close>

definition def_proc_contract :: "'c win_os \<Rightarrow> bool" where
  "def_proc_contract sys \<longleftrightarrow>
     (\<forall>h m w. lw_boxes (os_def_proc sys h m w) = lw_boxes w \<and> lw_calls (os_def_proc sys h m w) = lw_calls w
        \<and> lw_formats (os_def_proc sys h m w) = lw_formats w \<and> lw_fault (os_def_proc sys h m w) = lw_fault w
        \<and> (\<forall>k. lw_windows (os_def_proc sys h m w) k = lw_windows w k \<or> lw_windows (os_def_proc sys h m w) k = None))"

definition keeps_windows :: "'c win_os \<Rightarrow> bool" where
  "keeps_windows sys \<longleftrightarrow> (\<forall>h m w. lw_windows (os_def_proc sys h m w) = lw_windows w)"

text \<open>The allocator's contract for the box: not null, and not in use.\<close>

definition fresh_box :: "'c win_os \<Rightarrow> 'c win_world \<Rightarrow> bool" where
  "fresh_box sys w \<longleftrightarrow> os_box sys \<noteq> 0 \<and> lw_boxes w (os_box sys) = None"

text \<open>While the thread serves: its window, if it is still there, points to the live box of the callback.\<close>

definition serving :: "hwnd \<Rightarrow> addr \<Rightarrow> 'c \<Rightarrow> 'c win_world \<Rightarrow> bool" where
  "serving h raw cb w \<longleftrightarrow>
     raw \<noteq> 0 \<and> \<not> lw_fault w \<and> lw_boxes w raw = Some cb \<and> lw_windows w 0 = None
     \<and> (lw_windows w h = Some raw \<or> lw_windows w h = None)"

lemma serving_calls:
  assumes "serving h raw cb w"
  shows "wnd_proc sys h WM_CLIPBOARDUPDATE w =
           (if lw_windows w h = None then w else w\<lparr>lw_calls := lw_calls w @ [cb]\<rparr>)"
  using assms by (auto simp: serving_def wnd_proc_def get_window_long_def call_raw_def Let_def)

lemma dispatch_serving:
  assumes def_proc: "def_proc_contract sys" and w: "serving h raw cb w"
  shows "serving h raw cb (dispatch sys (h, m) w) \<and> lw_boxes (dispatch sys (h, m) w) = lw_boxes w
     \<and> lw_formats (dispatch sys (h, m) w) = lw_formats w
     \<and> lw_calls (dispatch sys (h, m) w) =
         lw_calls w @ (if m = WM_CLIPBOARDUPDATE \<and> lw_windows w h \<noteq> None then [cb] else [])
     \<and> (keeps_windows sys \<longrightarrow> lw_windows (dispatch sys (h, m) w) = lw_windows w)"
proof (cases "m = WM_CLIPBOARDUPDATE")
  case True
  then show ?thesis using w serving_calls [OF w, of sys] by (auto simp: dispatch_def serving_def)
next
  case False
  from def_proc have "lw_boxes (os_def_proc sys h m w) = lw_boxes w" "lw_calls (os_def_proc sys h m w) = lw_calls w"
    "lw_formats (os_def_proc sys h m w) = lw_formats w" "lw_fault (os_def_proc sys h m w) = lw_fault w"
    "lw_windows (os_def_proc sys h m w) h = lw_windows w h \<or> lw_windows (os_def_proc sys h m w) h = None"
    "lw_windows (os_def_proc sys h m w) 0 = lw_windows w 0 \<or> lw_windows (os_def_proc sys h m w) 0 = None"
    by (simp_all add: def_proc_contract_def)
  with False w show ?thesis by (auto simp: dispatch_def wnd_proc_def serving_def keeps_windows_def)
qed

lemma dispatch_null [simp]: "lw_windows w 0 = None \<Longrightarrow> dispatch sys (0, m) w = w"
  by (simp add: dispatch_def)

text \<open>The message the buffer holds is one of the window, or the empty one of no window.\<close>

lemma pump_serving:
  assumes "def_proc_contract sys" and "serving h raw cb w" and "fst msg = h \<or> fst msg = 0"
    and "pump sys h msg gs w = (fin, w')"
  shows "serving h raw cb w' \<and> lw_boxes w' = lw_boxes w \<and> lw_formats w' = lw_formats w
     \<and> (\<exists>k. lw_calls w' = lw_calls w @ replicate k cb)
     \<and> (keeps_windows sys \<longrightarrow> lw_windows w' = lw_windows w)"
  using assms(2-)
proof (induction gs arbitrary: msg w)
  case (Cons g gs)
  show ?case
  proof (cases "g = GotQuit \<or> pump sys h msg (g # gs) w = (True, w)")
    case True
    then show ?thesis using Cons.prems by (auto intro: exI [of _ 0])
  next
    case False
    define msg' where "msg' = (case g of GotMessage m \<Rightarrow> (h, m) | _ \<Rightarrow> msg)"
    define w1 where "w1 = dispatch sys msg' w"
    have rest: "pump sys h msg' gs w1 = (fin, w')"
      using False Cons.prems(3) by (auto simp: msg'_def w1_def Let_def split: if_splits)
    have at: "fst msg' = h \<or> fst msg' = 0" using Cons.prems(2) by (simp add: msg'_def split: got.splits)
    have w1: "serving h raw cb w1 \<and> lw_boxes w1 = lw_boxes w \<and> lw_formats w1 = lw_formats w
       \<and> (\<exists>k. lw_calls w1 = lw_calls w @ replicate k cb) \<and> (keeps_windows sys \<longrightarrow> lw_windows w1 = lw_windows w)"
      using at
    proof
      assume "fst msg' = h"
      then have "w1 = dispatch sys (h, snd msg') w" by (cases msg') (simp add: w1_def)
      then show ?thesis using dispatch_serving [OF assms(1) Cons.prems(1), of "snd msg'"]
        by (auto intro: exI [of _ 0] exI [of _ "Suc 0"])
    next
      assume "fst msg' = 0"
      then have "w1 = w" using Cons.prems(1) by (cases msg') (simp add: w1_def serving_def)
      then show ?thesis using Cons.prems(1) by (auto intro: exI [of _ 0])
    qed
    note w2 = Cons.IH [OF _ at rest]
    have "\<exists>k. lw_calls w' = lw_calls w @ replicate k cb"
      using w1 w2 by (metis append_assoc replicate_add)
    then show ?thesis using w1 w2 by auto
  qed
qed (auto intro: exI [of _ 0])

text \<open>The messages that reach the window before the loop is told to stop.\<close>

definition updates :: "got list \<Rightarrow> nat" where
  "updates gs = length (filter (\<lambda>g. g = GotMessage WM_CLIPBOARDUPDATE)
     (takeWhile (\<lambda>g. g \<noteq> GotMessage WM_USER_STOP \<and> g \<noteq> GotQuit) gs))"

lemma update_is_no_stop [simp]: "WM_CLIPBOARDUPDATE \<noteq> WM_USER_STOP" "WM_USER_STOP \<noteq> WM_CLIPBOARDUPDATE"
  by (simp_all add: WM_CLIPBOARDUPDATE_def WM_USER_STOP_def WM_USER_def)

lemma pump_messages:
  assumes "def_proc_contract sys" and "keeps_windows sys" and "serving h raw cb w" and "lw_windows w h = Some raw"
    and "GotError \<notin> set gs" and "GotQuit \<in> set gs \<or> GotMessage WM_USER_STOP \<in> set gs"
  shows "\<exists>w'. pump sys h msg gs w = (True, w') \<and> lw_calls w' = lw_calls w @ replicate (updates gs) cb"
  using assms(3-)
proof (induction gs arbitrary: msg w)
  case (Cons g gs)
  show ?case
  proof (cases "g = GotQuit \<or> g = GotMessage WM_USER_STOP")
    case True
    then show ?thesis by (auto simp: updates_def Let_def)
  next
    case False
    with Cons.prems(3) obtain m where g: "g = GotMessage m" "m \<noteq> WM_USER_STOP" by (cases g) auto
    note d = dispatch_serving [OF assms(1) Cons.prems(1), of m]
    have "\<exists>w'. pump sys h (h, m) gs (dispatch sys (h, m) w) = (True, w')
       \<and> lw_calls w' = lw_calls (dispatch sys (h, m) w) @ replicate (updates gs) cb"
      by (rule Cons.IH) (use d assms(2) Cons.prems g in auto)
    then show ?thesis using d g Cons.prems(2) by (auto simp: updates_def Let_def)
  qed
qed simp

text \<open>What the setup leaves behind, on each of its branches.\<close>

lemma setup_failed:
  assumes "fresh_box sys w" and "listener_setup sys cb w = (sent, None, w')"
    and "\<And>h. os_window sys = Some h \<Longrightarrow> lw_windows w h = None"
  shows "sent = [0] \<and> w' = w"
  using assms
  by (auto simp: listener_setup_def Let_def set_window_long_def box_into_raw_def drop_from_raw_def destroy_window_def
      fresh_box_def fun_upd_idem split: if_splits option.splits)

lemma setup_serving:
  assumes "fresh_box sys w" and "listener_setup sys cb w = (sent, Some h, w')"
    and "\<not> lw_fault w" and "lw_windows w 0 = None" and "os_window sys = Some h \<Longrightarrow> h \<noteq> 0"
  shows "sent = [h] \<and> os_window sys = Some h \<and> serving h (os_box sys) cb w'
     \<and> lw_windows w' = (lw_windows w)(h \<mapsto> os_box sys) \<and> lw_boxes w' = (lw_boxes w)(os_box sys \<mapsto> cb)
     \<and> lw_calls w' = lw_calls w \<and> lw_formats w' = lw_formats w @ [h]"
  using assms
  by (auto simp: listener_setup_def Let_def set_window_long_def box_into_raw_def serving_def fresh_box_def
      split: if_splits option.splits)

lemma cleanup_serving:
  assumes "serving h raw cb w"
  shows "\<not> lw_fault (listener_cleanup h w) \<and> lw_calls (listener_cleanup h w) = lw_calls w
     \<and> lw_boxes (listener_cleanup h w) = (if lw_windows w h = None then lw_boxes w else (lw_boxes w)(raw := None))
     \<and> lw_windows (listener_cleanup h w) = (lw_windows w)(h := None)
     \<and> lw_formats (listener_cleanup h w) = removeAll h (lw_formats w)"
  using assms
  by (auto simp: listener_cleanup_def set_window_long_def drop_from_raw_def destroy_window_def serving_def Let_def
      split: option.splits)

text \<open>
  C37: The raw pointer of the listener is used soundly. Whatever Windows answers and whatever messages
  come in, also when \<open>DefWindowProcW\<close> destroys the window, the thread sends exactly one report, never
  follows or frees a dead pointer, and calls only its own callback. When no window is destroyed behind
  its back, a thread that has ended has freed its box and left windows, boxes and registrations as it
  found them.
\<close>

theorem listener_memory_safe:
  assumes def_proc: "def_proc_contract sys" and fresh: "fresh_box sys w"
    and handle: "\<And>h. os_window sys = Some h \<Longrightarrow> h \<noteq> 0 \<and> lw_windows w h = None \<and> h \<notin> set (lw_formats w)"
    and w: "\<not> lw_fault w" "lw_windows w 0 = None"
    and run: "run_listener_thread sys cb gs w = (sent, fin, w')"
  shows "length sent = 1 \<and> \<not> lw_fault w' \<and> (\<exists>k. lw_calls w' = lw_calls w @ replicate k cb)
     \<and> (fin \<and> keeps_windows sys \<longrightarrow>
          lw_boxes w' = lw_boxes w \<and> lw_windows w' = lw_windows w \<and> lw_formats w' = lw_formats w)"
proof -
  obtain sent1 goes_on w1 where set_up: "listener_setup sys cb w = (sent1, goes_on, w1)" by (metis prod_cases3)
  show ?thesis
  proof (cases goes_on)
    case None
    have "sent1 = [0] \<and> w1 = w"
      by (rule setup_failed [OF fresh set_up [unfolded None]]) (use handle in blast)
    then show ?thesis using None run set_up w by (auto simp: run_listener_thread_def intro: exI [of _ 0])
  next
    case (Some h)
    note s = setup_serving [OF fresh set_up [unfolded Some] w]
    obtain fin1 w2 where pump: "pump sys h default_msg gs w1 = (fin1, w2)" by fastforce
    have end_of: "sent = [h]" "fin = fin1" "w' = (if fin then listener_cleanup h w2 else w2)"
      using run set_up pump Some s handle by (auto simp: run_listener_thread_def listener_serve_def split: bool.splits)
    have p: "serving h (os_box sys) cb w2 \<and> lw_boxes w2 = lw_boxes w1 \<and> lw_formats w2 = lw_formats w1
       \<and> (\<exists>k. lw_calls w2 = lw_calls w1 @ replicate k cb) \<and> (keeps_windows sys \<longrightarrow> lw_windows w2 = lw_windows w1)"
      using pump_serving [OF def_proc _ _ pump] s handle by (auto simp: default_msg_def)
    then show ?thesis using s handle end_of fresh cleanup_serving [of h "os_box sys" cb w2]
      by (auto simp: fresh_box_def serving_def fun_upd_idem)
  qed
qed

definition demo_os :: "nat win_os" where
  "demo_os = \<lparr>os_module = True, os_window = Some 7, os_box = 99, os_add = True, os_def_proc = (\<lambda>h m w. w)\<rparr>"

definition demo_world :: "nat win_world" where
  "demo_world = \<lparr>lw_windows = (\<lambda>_. None), lw_boxes = [5 \<mapsto> 0], lw_formats = [], lw_calls = [], lw_fault = False\<rparr>"

lemma demo_contract: "def_proc_contract demo_os" "keeps_windows demo_os" "fresh_box demo_os demo_world"
  by (simp_all add: def_proc_contract_def keeps_windows_def fresh_box_def demo_os_def demo_world_def)

theorem listener_memory_safe_witness:
  "\<not> lw_fault (snd (snd (run_listener_thread demo_os 3 [GotMessage 0x031D, GotMessage 0x0401] demo_world)))"
  using listener_memory_safe [OF demo_contract(1,3), of 3 "[GotMessage 0x031D, GotMessage 0x0401]"]
  by (cases "run_listener_thread demo_os 3 [GotMessage 0x031D, GotMessage 0x0401] demo_world")
    (simp add: demo_os_def demo_world_def)

text \<open>
  C38: A listener that has started stops. When the stop message of the drop is posted and the message
  loop meets no error, the drop returns whatever messages are still under way before it; the callback
  has run once for each clipboard update among those, and the box is freed and the window and its
  registration are gone. A start that failed has left nothing behind.
\<close>

theorem listener_start_drop:
  assumes def_proc: "def_proc_contract sys" "keeps_windows sys" and fresh: "fresh_box sys w"
    and handle: "\<And>h. os_window sys = Some h \<Longrightarrow> h \<noteq> 0 \<and> lw_windows w h = None \<and> h \<notin> set (lw_formats w)"
    and w: "\<not> lw_fault w" "lw_windows w 0 = None"
  shows "case listener_start sys spawn_error cb w of
     (Inl e, w1) \<Rightarrow> w1 = w
   | (Inr L, w1) \<Rightarrow> GotError \<notin> set gs \<longrightarrow>
       (\<exists>w2. listener_drop sys True gs L w1 = (True, w2)
          \<and> lw_calls w2 = lw_calls w @ replicate (updates gs) cb
          \<and> lw_boxes w2 = lw_boxes w \<and> lw_windows w2 = lw_windows w \<and> lw_formats w2 = lw_formats w)"
proof (cases spawn_error)
  case None
  obtain sent goes_on w1 where set_up: "listener_setup sys cb w = (sent, goes_on, w1)" by (metis prod_cases3)
  show ?thesis
  proof (cases goes_on)
    case None
    have "sent = [0] \<and> w1 = w"
      by (rule setup_failed [OF fresh set_up [unfolded None]]) (use handle in blast)
    then show ?thesis using \<open>spawn_error = None\<close> set_up by (simp add: listener_start_def)
  next
    case (Some h)
    note s = setup_serving [OF fresh set_up [unfolded Some] w]
    have start: "listener_start sys spawn_error cb w = (Inr \<lparr>li_thread = True, li_stop_hwnd = h\<rparr>, w1)"
      using \<open>spawn_error = None\<close> set_up s handle by (auto simp: listener_start_def)
    have "\<exists>w2. listener_drop sys True gs \<lparr>li_thread = True, li_stop_hwnd = h\<rparr> w1 = (True, w2)
       \<and> lw_calls w2 = lw_calls w @ replicate (updates gs) cb
       \<and> lw_boxes w2 = lw_boxes w \<and> lw_windows w2 = lw_windows w \<and> lw_formats w2 = lw_formats w"
      if no_error: "GotError \<notin> set gs"
    proof -
      let ?gs = "gs @ [GotMessage WM_USER_STOP]"
      obtain w2 where pump: "pump sys h default_msg ?gs w1 = (True, w2)"
        and calls: "lw_calls w2 = lw_calls w1 @ replicate (updates ?gs) cb"
        using pump_messages [OF def_proc, of h "os_box sys" cb w1 ?gs default_msg] s handle no_error by auto
      have "updates ?gs = updates gs" by (auto simp: updates_def takeWhile_append takeWhile_eq_all_conv [THEN iffD2])
      moreover have "serving h (os_box sys) cb w2 \<and> lw_boxes w2 = lw_boxes w1 \<and> lw_formats w2 = lw_formats w1
         \<and> lw_windows w2 = lw_windows w1"
        using pump_serving [OF def_proc(1) _ _ pump, of "os_box sys" cb] s handle def_proc(2) by (auto simp: default_msg_def)
      ultimately show ?thesis
        using pump calls s handle fresh cleanup_serving [of h "os_box sys" cb w2]
        by (auto simp: listener_drop_def listener_serve_def Let_def fresh_box_def fun_upd_idem)
    qed
    then show ?thesis by (simp add: start)
  qed
qed (simp add: listener_start_def)

theorem listener_start_drop_witness:
  "\<exists>L w1 w2. listener_start demo_os None 3 demo_world = (Inr L, w1)
     \<and> listener_drop demo_os True [GotMessage 0x031D, GotMessage 0x031D] L w1 = (True, w2)
     \<and> lw_calls w2 = replicate 2 3"
proof -
  obtain L w1 where start: "listener_start demo_os None 3 demo_world = (Inr L, w1)"
    by (simp add: demo_os_def listener_start_def listener_setup_def Let_def)
  have "updates [GotMessage 0x031D, GotMessage 0x031D] = 2"
    by (simp add: updates_def WM_CLIPBOARDUPDATE_def WM_USER_STOP_def WM_USER_def)
  then show ?thesis
    using start listener_start_drop [OF demo_contract, where spawn_error = None and cb = 3
      and gs = "[GotMessage 0x031D, GotMessage 0x031D]"]
    by (auto simp: demo_os_def demo_world_def)
qed

text \<open>
  The message loop does not end when \<open>GetMessageW\<close> fails. Its -1 passes for a message, and the buffer
  still holds the last one: after a clipboard update each failure runs the callback once more, for
  as long as the failures last, and the thread that is joined never ends.
\<close>

theorem listener_errors_spin:
  assumes "lw_windows w h = Some raw" and "raw \<noteq> 0" and "lw_boxes w raw = Some cb"
  shows "\<exists>w'. listener_serve sys h (GotMessage WM_CLIPBOARDUPDATE # replicate n GotError) w = (False, w')
     \<and> lw_calls w' = lw_calls w @ replicate (Suc n) cb"
proof -
  have step: "dispatch sys (h, WM_CLIPBOARDUPDATE) v = v\<lparr>lw_calls := lw_calls v @ [cb]\<rparr>"
    if "lw_windows v h = Some raw" "lw_boxes v raw = Some cb" for v
    using that assms(2) by (simp add: dispatch_def wnd_proc_def get_window_long_def call_raw_def Let_def)
  have "\<exists>w'. pump sys h (h, WM_CLIPBOARDUPDATE) (replicate n GotError) v = (False, w')
     \<and> lw_calls w' = lw_calls v @ replicate n cb"
    if "lw_windows v h = Some raw" "lw_boxes v raw = Some cb" for v
    using that
  proof (induction n arbitrary: v)
    case (Suc n)
    from Suc.IH [of "v\<lparr>lw_calls := lw_calls v @ [cb]\<rparr>"] Suc.prems show ?case by (simp add: step Let_def)
  qed simp
  from this [of "w\<lparr>lw_calls := lw_calls w @ [cb]\<rparr>"] assms show ?thesis
    by (auto simp: listener_serve_def step Let_def)
qed

theorem listener_errors_spin_witness:
  "fst (listener_serve demo_os 7 (GotMessage WM_CLIPBOARDUPDATE # replicate 1000 GotError)
     (snd (listener_start demo_os None 3 demo_world))) = False"
  using listener_errors_spin [of "snd (listener_start demo_os None 3 demo_world)" 7 99 3 demo_os 1000]
  by (auto simp: demo_os_def demo_world_def listener_start_def listener_setup_def Let_def set_window_long_def
      box_into_raw_def)

end
