(* ===== verification/WinBridge.thy ===== *)
theory WinBridge
  imports WinImage ClientApi WinListener
begin

text \<open>
  The bridge of the Windows client (\<^verbatim>\<open>clients/windows/src/bridge.rs\<close>) between the system clipboard, the
  client and the interface: publishing what is copied, showing what arrives, the two echo guards and
  the file transfers. The system is a parameter: what the clipboard holds when it is read, the files,
  the two clocks (\<open>now\<close>, the monotonic one, and \<open>ts\<close>, the wall clock, both in ms), the network. The
  channels to the interface are the lists of what was sent. Each operation is one step; a remote image
  is two, its download and what follows, as it runs on a thread of its own.
\<close>

section \<open>State\<close>

definition ECHO_WINDOW :: nat where "ECHO_WINDOW = 10 * 1000"

datatype ui_state = UiIdle | UiConnecting | UiConnected | UiDisconnected | UiError str

datatype clipboard_write = WriteText str | WriteImage nat nat bytes

record bridge =
  br_client :: "client option"
  br_native :: "clipboard_listener option"
  br_poller :: bool
  br_echo :: "(str \<times> nat) option"
  br_states :: "ui_state list"
  br_hashes :: "str list"
  br_images :: image_store
  br_files :: "file_entry list"
  br_file_events :: "file_entry list"
  br_writes :: "clipboard_write list"

definition bridge_new :: bridge where
  "bridge_new = \<lparr>br_client = None, br_native = None, br_poller = False, br_echo = None, br_states = [],
     br_hashes = [], br_images = \<lparr>is_history = [], is_bytes = [], is_sent = []\<rparr>, br_files = [],
     br_file_events = [], br_writes = []\<rparr>"

text \<open>What the bridge uses of its surroundings: the libraries, the network of the client and the device name.\<close>

record ('i, 'w) win_env =
  we_codec :: codec
  we_lib :: "'i image_lib"
  we_http :: "'w http"
  we_b64_encode :: "bytes \<Rightarrow> str"
  we_b64_decode :: "str \<Rightarrow> str + bytes"
  we_name :: str

abbreviation we_prims :: "('i, 'w) win_env \<Rightarrow> prims" where
  "we_prims E \<equiv> crypto (we_codec E)"

text \<open>\<open>device_name\<close>, over the environment variables.\<close>

definition device_name :: "(str \<Rightarrow> str option) \<Rightarrow> str" where
  "device_name var =
     (case (case var (lit ''COMPUTERNAME'') of Some s \<Rightarrow> Some s | None \<Rightarrow> var (lit ''HOSTNAME'')) of
        Some s \<Rightarrow> if s \<noteq> [] then s else lit ''Windows''
      | None \<Rightarrow> lit ''Windows'')"

section \<open>Messages\<close>

definition MSG_BAD_KEY :: str where "MSG_BAD_KEY = [23494, 38053, 26080, 25928]"
definition MSG_START_FAILED :: str where "MSG_START_FAILED = [23458, 25143, 31471, 21551, 21160, 22833, 36133, 58]"
definition MSG_DECODE_FAILED :: str where "MSG_DECODE_FAILED = [22270, 29255, 35299, 30721, 22833, 36133]"
definition MSG_STILL :: str where "MSG_STILL = [22270, 29255, 21387, 32553, 21518, 20173, 32]"
definition MSG_OVER_CAP :: str where
  "MSG_OVER_CAP = [77, 66, 44, 36229, 36807, 32, 51, 50, 77, 66, 32, 19978, 38480]"
definition MSG_NO_IMAGES :: str where "MSG_NO_IMAGES = [27809, 26377, 21487, 21457, 36865, 30340, 22270, 29255]"
definition MSG_NOT_STARTED :: str where "MSG_NOT_STARTED = [23458, 25143, 31471, 26410, 21551, 21160]"
definition MSG_NO_TARGET :: str where "MSG_NO_TARGET = [20808, 36873, 25321, 25509, 25910, 35774, 22791]"
definition MSG_REGULAR_ONLY :: str where "MSG_REGULAR_ONLY = [21482, 33021, 21457, 36865, 26222, 36890, 25991, 20214]"
definition MSG_READ_FAILED :: str where "MSG_READ_FAILED = [35835, 21462, 22833, 36133, 58]"
definition LAN_DEVICE :: str where "LAN_DEVICE = [76, 65, 78, 32, 35774, 22791]"

section \<open>Publishing what is copied\<close>

definition publish_image ::
  "('i, 'w) win_env \<Rightarrow> bytes \<Rightarrow> normalized_png \<Rightarrow> nat \<Rightarrow> client option \<Rightarrow> 'w
     \<Rightarrow> (str + unit) \<times> client option \<times> 'w" where
  "publish_image E nonce png ts client w =
     (case client of
        None \<Rightarrow> (Inl (lit ''client not started''), None, w)
      | Some c \<Rightarrow>
          (case send_image (we_prims E) (we_b64_encode E) (we_http E) nonce (np_bytes png) (np_mime png)
                  (np_width png) (np_height png) (we_name E) ts c w of
             (r, c, w) \<Rightarrow> (map_err ffi_error_text r, Some c, w)))"

definition note_hash :: "str option \<Rightarrow> bridge \<Rightarrow> bridge" where
  "note_hash h b = (case h of Some h \<Rightarrow> b\<lparr>br_hashes := snd (remember_hash h (br_hashes b))\<rparr> | None \<Rightarrow> b)"

definition keep_image :: "image_entry \<Rightarrow> bytes \<Rightarrow> bridge \<Rightarrow> bridge" where
  "keep_image entry bytes b = b\<lparr>br_images := store_history entry bytes (br_images b)\<rparr>"

definition try_publish_text :: "('i, 'w) win_env \<Rightarrow> nat \<Rightarrow> nat \<Rightarrow> str \<Rightarrow> bridge \<Rightarrow> bridge" where
  "try_publish_text E now ts text b =
     (if (case br_echo b of Some (s, t) \<Rightarrow> s = text \<and> now - t < ECHO_WINDOW | None \<Rightarrow> False) then b
      else
        (let payload = \<lparr>cp_kind = ClipText, cp_content = text, cp_device_name = we_name E, cp_ts = ts, cp_image = None\<rparr>
         in b\<lparr>br_client := map_option (\<lambda>c. snd (api_send_clip payload c)) (br_client b)\<rparr>))"

definition try_publish_image ::
  "('i, 'w) win_env \<Rightarrow> bytes \<Rightarrow> nat \<Rightarrow> normalized_png \<Rightarrow> bridge \<Rightarrow> 'w \<Rightarrow> bridge \<times> 'w" where
  "try_publish_image E nonce ts png b w =
     (if length (np_bytes png) > MAX_IMAGE_BYTES then (b, w)
      else case pixel_hash_hex (we_prims E) (we_lib E) (np_bytes png) of
        None \<Rightarrow> (b, w)
      | Some h \<Rightarrow>
          (case remember_hash h (br_hashes b) of
             (seen, q) \<Rightarrow>
               (let b = b\<lparr>br_hashes := q\<rparr>
                in if seen then (b, w)
                   else
                     (let entry = build_history_entry (we_prims E) (we_lib E) ts png (we_name E) Sent
                      in case publish_image E nonce png (ie_ts entry) (br_client b) w of
                           (Inl _, client, w) \<Rightarrow> (b\<lparr>br_client := client\<rparr>, w)
                         | (Inr _, client, w) \<Rightarrow> (keep_image entry (np_bytes png) (b\<lparr>br_client := client\<rparr>), w)))))"

text \<open>What one read of the clipboard and of the clocks gives, and the nonce drawn if it is published.\<close>

record reading =
  rg_clipboard :: clipboard
  rg_disk :: "str \<Rightarrow> disk_file option"
  rg_mono :: nat
  rg_ts :: nat
  rg_nonce :: bytes

definition read_image :: "('i, 'w) win_env \<Rightarrow> reading \<Rightarrow> normalized_png option" where
  "read_image E r = read_clipboard_image (we_lib E) (rg_disk r) (rg_clipboard r)"

definition handle_clipboard_change ::
  "('i, 'w) win_env \<Rightarrow> reading \<Rightarrow> bridge \<Rightarrow> 'w \<Rightarrow> bridge \<times> 'w" where
  "handle_clipboard_change E r b w =
     (case read_image E r of
        Some png \<Rightarrow> try_publish_image E (rg_nonce r) (rg_ts r) png b w
      | None \<Rightarrow>
          (case cb_text (rg_clipboard r) of
             Some text \<Rightarrow> (if text \<noteq> [] then try_publish_text E (rg_mono r) (rg_ts r) text b else b, w)
           | None \<Rightarrow> (b, w)))"

text \<open>One turn of the poller's loop, which remembers what it saw last.\<close>

record poll_memory =
  pm_text :: "str option"
  pm_hash :: "str option"

definition poll_text ::
  "('i, 'w) win_env \<Rightarrow> reading \<Rightarrow> poll_memory \<Rightarrow> bridge \<Rightarrow> poll_memory \<times> bridge" where
  "poll_text E r m b =
     (case cb_text (rg_clipboard r) of
        Some text \<Rightarrow>
          if text \<noteq> [] \<and> Some text \<noteq> pm_text m
          then (\<lparr>pm_text = Some text, pm_hash = None\<rparr>, try_publish_text E (rg_mono r) (rg_ts r) text b)
          else (m, b)
      | None \<Rightarrow> (m, b))"

definition poll_once ::
  "('i, 'w) win_env \<Rightarrow> reading \<Rightarrow> poll_memory \<Rightarrow> bridge \<Rightarrow> 'w \<Rightarrow> poll_memory \<times> bridge \<times> 'w" where
  "poll_once E r m b w =
     (case Option.bind (read_image E r) (\<lambda>png. map_option (Pair png) (pixel_hash_hex (we_prims E) (we_lib E) (np_bytes png))) of
        Some (png, h) \<Rightarrow>
          if Some h \<noteq> pm_hash m
          then (\<lparr>pm_text = None, pm_hash = Some h\<rparr>, try_publish_image E (rg_nonce r) (rg_ts r) png b w)
          else (case poll_text E r m b of (m, b) \<Rightarrow> (m, b, w))
      | None \<Rightarrow> (case poll_text E r m b of (m, b) \<Rightarrow> (m, b, w)))"

section \<open>Sending images on purpose\<close>

definition send_image_bytes ::
  "('i, 'w) win_env \<Rightarrow> bytes \<Rightarrow> nat \<Rightarrow> bytes \<Rightarrow> bridge \<Rightarrow> 'w \<Rightarrow> (str + image_entry) \<times> bridge \<times> 'w" where
  "send_image_bytes E nonce ts bytes b w =
     (case encode_for_wire (we_lib E) bytes of
        None \<Rightarrow> (Inl MSG_DECODE_FAILED, b, w)
      | Some png \<Rightarrow>
          if length (np_bytes png) > MAX_IMAGE_BYTES
          then (Inl (MSG_STILL @ show_nat (length (np_bytes png) div 1024 div 1024) @ MSG_OVER_CAP), b, w)
          else
            (let b = note_hash (pixel_hash_hex (we_prims E) (we_lib E) (np_bytes png)) b;
                 entry = build_history_entry (we_prims E) (we_lib E) ts png (we_name E) Sent
             in case publish_image E nonce png (ie_ts entry) (br_client b) w of
                  (Inl e, client, w) \<Rightarrow> (Inl e, b\<lparr>br_client := client\<rparr>, w)
                | (Inr _, client, w) \<Rightarrow> (Inr entry, keep_image entry (np_bytes png) (b\<lparr>br_client := client\<rparr>), w)))"

text \<open>The loop over the chosen images; \<open>draws\<close> are the clock and the nonce of the i-th image encoded.\<close>

fun send_paths_loop ::
  "('i, 'w) win_env \<Rightarrow> (str \<Rightarrow> disk_file option) \<Rightarrow> (nat \<Rightarrow> nat \<times> bytes) \<Rightarrow> str list \<Rightarrow> nat \<Rightarrow> image_entry list
     \<Rightarrow> bridge \<Rightarrow> 'w \<Rightarrow> (str + image_entry list) \<times> bridge \<times> 'w" where
  "send_paths_loop E disk draws [] i entries b w = (Inr entries, b, w)"
| "send_paths_loop E disk draws (path # paths) i entries b w =
     (case normalize_image_file_at_path (we_lib E) disk path of
        None \<Rightarrow> send_paths_loop E disk draws paths i entries b w
      | Some png \<Rightarrow>
          (let b = note_hash (pixel_hash_hex (we_prims E) (we_lib E) (np_bytes png)) b;
               entry = build_history_entry (we_prims E) (we_lib E) (fst (draws i)) png (we_name E) Sent
           in case publish_image E (snd (draws i)) png (ie_ts entry) (br_client b) w of
                (Inl e, client, w) \<Rightarrow> (Inl e, b\<lparr>br_client := client\<rparr>, w)
              | (Inr _, client, w) \<Rightarrow>
                  send_paths_loop E disk draws paths (Suc i) (entries @ [entry])
                    (keep_image entry (np_bytes png) (b\<lparr>br_client := client\<rparr>)) w))"

definition send_image_paths ::
  "('i, 'w) win_env \<Rightarrow> (str \<Rightarrow> disk_file option) \<Rightarrow> (nat \<Rightarrow> nat \<times> bytes) \<Rightarrow> str list \<Rightarrow> bridge \<Rightarrow> 'w
     \<Rightarrow> (str + image_entry list) \<times> bridge \<times> 'w" where
  "send_image_paths E disk draws paths b w =
     (let image_paths = supported_drag_image_paths paths
      in if image_paths = [] then (Inl MSG_NO_IMAGES, b, w)
         else case send_paths_loop E disk draws image_paths 0 [] b w of
           (Inl e, b, w) \<Rightarrow> (Inl e, b, w)
         | (Inr entries, b, w) \<Rightarrow> (if entries = [] then Inl MSG_NO_IMAGES else Inr entries, b, w))"

section \<open>What arrives\<close>

definition write_image_to_clipboard :: "'i image_lib \<Rightarrow> bool \<Rightarrow> bytes \<Rightarrow> clipboard_write list" where
  "write_image_to_clipboard L works bytes =
     (case il_load L bytes of
        None \<Rightarrow> []
      | Some img \<Rightarrow> if works then [WriteImage (fst (il_dimensions L img)) (snd (il_dimensions L img)) (il_rgba L img)] else [])"

text \<open>The thread of a remote image after its download: \<open>works\<close> says whether the clipboard can be written.\<close>

definition show_remote_image ::
  "('i, 'w) win_env \<Rightarrow> bool \<Rightarrow> str \<Rightarrow> nat \<Rightarrow> image_meta \<Rightarrow> bytes \<Rightarrow> bridge \<Rightarrow> bridge" where
  "show_remote_image E works name ts meta bytes b =
     (case pixel_hash_hex (we_prims E) (we_lib E) bytes of
        None \<Rightarrow> b
      | Some h \<Rightarrow>
          (case remember_hash h (br_hashes b) of
             (seen, q) \<Rightarrow>
               (let b = b\<lparr>br_hashes := q\<rparr>
                in if seen then b
                   else
                     (let entry = \<lparr>ie_id = h, ie_mime = im_mime_type meta, ie_width = im_width meta,
                            ie_height = im_height meta, ie_size_bytes = length bytes, ie_device_name = name,
                            ie_ts = ts, ie_direction = Received,
                            ie_thumbnail = (case il_thumbnail (we_lib E) bytes of Some t \<Rightarrow> t | None \<Rightarrow> [])\<rparr>;
                          b = keep_image entry bytes b
                      in b\<lparr>br_writes := br_writes b @ write_image_to_clipboard (we_lib E) works bytes\<rparr>))))"

definition handle_remote_image ::
  "('i, 'w) win_env \<Rightarrow> (nat \<Rightarrow> socket_addr \<Rightarrow> conn dial) \<Rightarrow> bool \<Rightarrow> clip_payload \<Rightarrow> bridge \<Rightarrow> 'w \<Rightarrow> bridge \<times> 'w" where
  "handle_remote_image E connect works payload b w =
     (case (cp_image payload, br_client b) of
        (Some meta, Some client) \<Rightarrow>
          (case fetch_image (we_codec E) connect (we_b64_decode E) (we_http E) meta client w of
             (Inl _, client, w) \<Rightarrow> (b\<lparr>br_client := Some client\<rparr>, w)
           | (Inr bytes, client, w) \<Rightarrow>
               (show_remote_image E works (cp_device_name payload) (cp_ts payload) meta bytes (b\<lparr>br_client := Some client\<rparr>), w))
      | _ \<Rightarrow> (b, w))"

definition on_clip ::
  "('i, 'w) win_env \<Rightarrow> (nat \<Rightarrow> socket_addr \<Rightarrow> conn dial) \<Rightarrow> bool \<Rightarrow> nat \<Rightarrow> clip_payload \<Rightarrow> bridge \<Rightarrow> 'w \<Rightarrow> bridge \<times> 'w" where
  "on_clip E connect works now payload b w =
     (case cp_kind payload of
        ClipText \<Rightarrow>
          (b\<lparr>br_echo := Some (cp_content payload, now),
             br_writes := br_writes b @ (if works then [WriteText (cp_content payload)] else [])\<rparr>, w)
      | ClipImage \<Rightarrow> handle_remote_image E connect works payload b w)"

fun ui_of_state :: "connection_state \<Rightarrow> ui_state" where
  "ui_of_state Connecting = UiConnecting"
| "ui_of_state connection_state.Connected = UiConnected"
| "ui_of_state Disconnected = UiDisconnected"
| "ui_of_state (StateError message) = UiError message"

definition show_state :: "ui_state \<Rightarrow> bridge \<Rightarrow> bridge" where
  "show_state s b = b\<lparr>br_states := br_states b @ [s]\<rparr>"

definition bridge_on_state :: "connection_state \<Rightarrow> bridge \<Rightarrow> bridge" where
  "bridge_on_state state b = show_state (ui_of_state state) b"

section \<open>Start and stop\<close>

text \<open>\<open>stop\<close>: \<open>late\<close> are the states the worker reports before it has ended, \<open>outcome\<close> its panic.\<close>

definition bridge_stop :: "connection_state list \<Rightarrow> panic_payload option \<Rightarrow> bridge \<Rightarrow> bridge" where
  "bridge_stop late outcome b =
     (let b = (case br_client b of
                 None \<Rightarrow> b
               | Some client \<Rightarrow>
                   fold bridge_on_state (late @ List.map_filter (\<lambda>e. case e of OnState s \<Rightarrow> Some s | _ \<Rightarrow> None)
                     (snd (api_stop outcome client))) b)
      in show_state UiIdle (b\<lparr>br_client := None, br_native := None, br_poller := False\<rparr>))"

record pairing_config =
  pc_relay_url :: str
  pc_group_id :: str
  pc_key :: str

definition key_bytes :: "(str \<Rightarrow> bytes option) \<Rightarrow> pairing_config \<Rightarrow> bytes option" where
  "key_bytes b64url_decode cfg = b64url_decode (pc_key cfg)"

text \<open>
  What a start meets: the end of the old worker, the device id, the errors of building the client, the
  receive directory and whether it can be made, whether the native clipboard listener starts.
\<close>

record start_env =
  se_late :: "connection_state list"
  se_outcome :: "panic_payload option"
  se_device_id :: str
  se_http_error :: "str option"
  se_spawn_error :: "str option"
  se_receive_dir :: str
  se_dir_made :: bool
  se_native :: "str + clipboard_listener"

text \<open>The native listener when it starts, else the thread that polls every half second.\<close>

definition spawn_poller :: "bridge \<Rightarrow> bridge" where
  "spawn_poller b = b\<lparr>br_poller := True\<rparr>"

definition spawn_clipboard_handler :: "str + clipboard_listener \<Rightarrow> bridge \<Rightarrow> bridge" where
  "spawn_clipboard_handler started b =
     (case started of
        Inr l \<Rightarrow> b\<lparr>br_native := Some l\<rparr>
      | Inl e \<Rightarrow> spawn_poller b)"

definition bridge_start ::
  "(str \<Rightarrow> bytes option) \<Rightarrow> str \<Rightarrow> start_env \<Rightarrow> pairing_config \<Rightarrow> bridge \<Rightarrow> (str + unit) \<times> bridge" where
  "bridge_start b64url_decode name S cfg b =
     (let b = bridge_stop (se_late S) (se_outcome S) b
      in case key_bytes b64url_decode cfg of
           None \<Rightarrow> (Inl MSG_BAD_KEY, b)
         | Some key \<Rightarrow>
             (case client_new (se_http_error S) (se_spawn_error S) (pc_relay_url cfg) (pc_group_id cfg) key
                     (se_device_id S) name of
                Inl e \<Rightarrow> (Inl (MSG_START_FAILED @ ffi_error_text e), b)
              | Inr client \<Rightarrow>
                  (let client = (if se_dir_made S then set_file_receive_dir (se_receive_dir S) client else client)
                   in (Inr (), spawn_clipboard_handler (se_native S) (b\<lparr>br_client := Some client\<rparr>)))))"

section \<open>Lists for the interface\<close>

definition recent_images :: "bridge \<Rightarrow> image_entry list" where
  "recent_images b = is_history (br_images b)"

definition image_bytes_for :: "str \<Rightarrow> bridge \<Rightarrow> bytes option" where
  "image_bytes_for ident b = map_of (is_bytes (br_images b)) ident"

definition lan_peer_names :: "bridge \<Rightarrow> str list" where
  "lan_peer_names b = (case br_client b of Some c \<Rightarrow> lan_peers c | None \<Rightarrow> [])"

definition store_file :: "file_entry \<Rightarrow> bridge \<Rightarrow> bridge" where
  "store_file entry b =
     b\<lparr>br_files := store_file_history entry (br_files b), br_file_events := br_file_events b @ [entry]\<rparr>"

definition received_entry :: "nat \<Rightarrow> received_file_record \<Rightarrow> file_entry" where
  "received_entry ts file =
     \<lparr>fe_id = rr_transfer_id file, fe_file_name = rr_file_name file, fe_device_name = LAN_DEVICE,
      fe_size_bytes = rr_size_bytes file, fe_ts = ts, fe_direction = Received, fe_status = StReceived,
      fe_path = Some (rr_path file), fe_message = None\<rparr>"

definition drain_received_files :: "(nat \<Rightarrow> nat) \<Rightarrow> bridge \<Rightarrow> file_entry list \<times> bridge" where
  "drain_received_files clock b =
     (case br_client b of
        None \<Rightarrow> ([], b)
      | Some client \<Rightarrow>
          (case take_received_files client of
             (files, client) \<Rightarrow>
               (let entries = map (\<lambda>(i, f). received_entry (clock i) f) (enumerate 0 files)
                in (entries, fold store_file entries (b\<lparr>br_client := Some client\<rparr>)))))"

definition recent_file_transfers :: "(nat \<Rightarrow> nat) \<Rightarrow> bridge \<Rightarrow> file_entry list \<times> bridge" where
  "recent_file_transfers clock b = (let b = snd (drain_received_files clock b) in (br_files b, b))"

record lan_peer_dto =
  dto_device_id :: str
  dto_display_name :: str
  dto_candidate_count :: nat

definition lan_file_peers :: "(nat \<Rightarrow> nat) \<Rightarrow> bridge \<Rightarrow> lan_peer_dto list \<times> bridge" where
  "lan_file_peers clock b =
     (let b = snd (drain_received_files clock b)
      in (case br_client b of
            Some c \<Rightarrow> sort_key (\<lambda>p. (dto_display_name p, dto_device_id p))
              (map (\<lambda>p. \<lparr>dto_device_id = lr_device_id p, dto_display_name = lr_display_name p,
                         dto_candidate_count = lr_candidate_count p\<rparr>) (lan_peer_records c))
          | None \<Rightarrow> [], b))"

section \<open>Sending files\<close>

text \<open>One transfer: the ids and the times drawn, the file system and the dials it meets.\<close>

record transfer_env =
  te_local_id :: str
  te_uuid :: str
  te_pending_ts :: nat
  te_final_ts :: nat
  te_fs :: fs
  te_connect :: "socket_addr \<Rightarrow> conn dial"

text \<open>The metadata of a path: an error, or is it a regular file and its length.\<close>

type_synonym file_stat = "str + bool \<times> nat"

definition failed_entry :: "transfer_env \<Rightarrow> str \<Rightarrow> str \<Rightarrow> nat \<Rightarrow> str \<Rightarrow> file_entry" where
  "failed_entry T name target_name size_bytes message =
     \<lparr>fe_id = te_local_id T, fe_file_name = name, fe_device_name = target_name, fe_size_bytes = size_bytes,
      fe_ts = te_final_ts T, fe_direction = Sent, fe_status = StFailed, fe_path = None, fe_message = Some message\<rparr>"

definition final_entry ::
  "codec \<Rightarrow> transfer_env \<Rightarrow> client \<Rightarrow> str \<Rightarrow> str \<Rightarrow> path \<Rightarrow> file_stat \<Rightarrow> str \<Rightarrow> file_entry" where
  "final_entry C T client name target_name path meta target =
     (case meta of
        Inr (is_file, len) \<Rightarrow>
          if is_file then
            (case send_file_to_peer C (te_fs T) (te_uuid T) (te_connect T) target path None client of
               (Inr sent, _) \<Rightarrow>
                 \<lparr>fe_id = te_local_id T, fe_file_name = sf_file_name sent, fe_device_name = target_name,
                  fe_size_bytes = sf_bytes_sent sent, fe_ts = te_final_ts T, fe_direction = Sent,
                  fe_status = StSent, fe_path = None, fe_message = None\<rparr>
             | (Inl e, _) \<Rightarrow> failed_entry T name target_name len (ffi_error_text e))
          else failed_entry T name target_name 0 MSG_REGULAR_ONLY
      | Inl e \<Rightarrow> failed_entry T name target_name 0 (MSG_READ_FAILED @ e))"

definition send_one ::
  "codec \<Rightarrow> client \<Rightarrow> (str \<times> str) list \<Rightarrow> (path \<Rightarrow> file_stat) \<Rightarrow> transfer_env \<times> path \<times> str
     \<Rightarrow> file_entry list \<times> bridge \<Rightarrow> file_entry list \<times> bridge" where
  "send_one C client peer_names stat = (\<lambda>(T, path, target) (finals, b).
     let name = file_display_name (path_display path);
         meta = stat path;
         size_bytes = (case meta of Inr (_, len) \<Rightarrow> len | Inl _ \<Rightarrow> 0);
         target_name = (case map_of peer_names target of Some n \<Rightarrow> n | None \<Rightarrow> take 12 target);
         b = store_file (pending_entry (te_pending_ts T) (te_local_id T) name target_name size_bytes) b;
         entry = final_entry C T client name target_name path meta target
     in (finals @ [entry], store_file entry b))"

text \<open>The loop over the paths and, inside it, over the targets; \<open>env i\<close> is what the i-th transfer meets.\<close>

definition transfers :: "(nat \<Rightarrow> transfer_env) \<Rightarrow> path list \<Rightarrow> str list \<Rightarrow> (transfer_env \<times> path \<times> str) list" where
  "transfers env paths targets = map (\<lambda>(i, x). (env i, x)) (enumerate 0 (List.product paths targets))"

definition send_files_to_peers ::
  "codec \<Rightarrow> (path \<Rightarrow> file_stat) \<Rightarrow> (nat \<Rightarrow> transfer_env) \<Rightarrow> path list \<Rightarrow> str list \<Rightarrow> bridge
     \<Rightarrow> (str + file_entry list) \<times> bridge" where
  "send_files_to_peers C stat env paths target_device_ids b =
     (case br_client b of
        None \<Rightarrow> (Inl MSG_NOT_STARTED, b)
      | Some client \<Rightarrow>
          (let targets = filter (\<lambda>t. trim t \<noteq> []) target_device_ids
           in if targets = [] then (Inl MSG_NO_TARGET, b)
              else
                (let peer_names = map (\<lambda>p. (lr_device_id p, lr_display_name p)) (lan_peer_records client)
                 in case fold (send_one C client peer_names stat) (transfers env paths targets) ([], b) of
                      (finals, b) \<Rightarrow> (Inr finals, b))))"

section \<open>Runs\<close>

text \<open>What happens to a running bridge, in the order it happens.\<close>

datatype bridge_event =
    ClipboardChanged reading
  | Arrived "nat \<Rightarrow> socket_addr \<Rightarrow> conn dial" bool nat clip_payload
  | Picked bytes nat bytes
  | Dropped "str \<Rightarrow> disk_file option" "nat \<Rightarrow> nat \<times> bytes" "str list"
  | FilesChosen "path \<Rightarrow> file_stat" "nat \<Rightarrow> transfer_env" "path list" "str list"
  | TransfersListed "nat \<Rightarrow> nat"
  | StateChanged connection_state

fun bridge_step :: "('i, 'w) win_env \<Rightarrow> bridge_event \<Rightarrow> bridge \<times> 'w \<Rightarrow> bridge \<times> 'w" where
  "bridge_step E (ClipboardChanged r) (b, w) = handle_clipboard_change E r b w"
| "bridge_step E (Arrived connect works now payload) (b, w) = on_clip E connect works now payload b w"
| "bridge_step E (Picked nonce ts bytes) (b, w) = snd (send_image_bytes E nonce ts bytes b w)"
| "bridge_step E (Dropped disk draws paths) (b, w) = snd (send_image_paths E disk draws paths b w)"
| "bridge_step E (FilesChosen stat env paths targets) (b, w) =
     (snd (send_files_to_peers (we_codec E) stat env paths targets b), w)"
| "bridge_step E (TransfersListed clock) (b, w) = (snd (recent_file_transfers clock b), w)"
| "bridge_step E (StateChanged state) (b, w) = (bridge_on_state state b, w)"

abbreviation remember_all :: "str list \<Rightarrow> str list \<Rightarrow> str list" where
  "remember_all hs q \<equiv> fold (\<lambda>h q. snd (remember_hash h q)) hs q"

abbreviation opt_list :: "'a option \<Rightarrow> 'a list" where
  "opt_list x \<equiv> (case x of Some y \<Rightarrow> [y] | None \<Rightarrow> [])"

abbreviation hash_of :: "('i, 'w) win_env \<Rightarrow> bytes \<Rightarrow> str option" where
  "hash_of E bytes \<equiv> pixel_hash_hex (we_prims E) (we_lib E) bytes"

definition capped_hash :: "('i, 'w) win_env \<Rightarrow> normalized_png option \<Rightarrow> str list" where
  "capped_hash E x = (case x of
     Some png \<Rightarrow> if length (np_bytes png) > MAX_IMAGE_BYTES then [] else opt_list (hash_of E (np_bytes png))
   | None \<Rightarrow> [])"

fun loop_hashes ::
  "('i, 'w) win_env \<Rightarrow> (str \<Rightarrow> disk_file option) \<Rightarrow> (nat \<Rightarrow> nat \<times> bytes) \<Rightarrow> str list \<Rightarrow> nat \<Rightarrow> client option \<Rightarrow> 'w \<Rightarrow> str list" where
  "loop_hashes E disk draws [] i client w = []"
| "loop_hashes E disk draws (path # paths) i client w =
     (case normalize_image_file_at_path (we_lib E) disk path of
        None \<Rightarrow> loop_hashes E disk draws paths i client w
      | Some png \<Rightarrow> opt_list (hash_of E (np_bytes png))
          @ (case publish_image E (snd (draws i)) png (fst (draws i)) client w of
               (Inl e, client, w) \<Rightarrow> []
             | (Inr _, client, w) \<Rightarrow> loop_hashes E disk draws paths (Suc i) client w))"

text \<open>The pixel hashes of the images an event sends or receives, in order.\<close>

fun event_hashes :: "('i, 'w) win_env \<Rightarrow> bridge_event \<Rightarrow> bridge \<times> 'w \<Rightarrow> str list" where
  "event_hashes E (ClipboardChanged r) (b, w) = capped_hash E (read_image E r)"
| "event_hashes E (Arrived connect works now payload) (b, w) =
     (case (cp_kind payload, cp_image payload, br_client b) of
        (ClipImage, Some meta, Some client) \<Rightarrow>
          (case fst (fetch_image (we_codec E) connect (we_b64_decode E) (we_http E) meta client w) of
             Inr bytes \<Rightarrow> opt_list (hash_of E bytes)
           | Inl _ \<Rightarrow> [])
      | _ \<Rightarrow> [])"
| "event_hashes E (Picked nonce ts bytes) (b, w) = capped_hash E (encode_for_wire (we_lib E) bytes)"
| "event_hashes E (Dropped disk draws paths) (b, w) =
     loop_hashes E disk draws (supported_drag_image_paths paths) 0 (br_client b) w"
| "event_hashes E other s = []"

fun run_hashes :: "('i, 'w) win_env \<Rightarrow> bridge_event list \<Rightarrow> bridge \<times> 'w \<Rightarrow> str list" where
  "run_hashes E [] s = []"
| "run_hashes E (e # es) s = event_hashes E e s @ run_hashes E es (bridge_step E e s)"

section \<open>Facts\<close>

lemma note_hash_simps [simp]:
  "br_hashes (note_hash h b) = remember_all (opt_list h) (br_hashes b)"
  "br_client (note_hash h b) = br_client b" "br_echo (note_hash h b) = br_echo b"
  by (simp_all add: note_hash_def split: option.splits)

lemma build_history_entry_ts [simp]: "ie_ts (build_history_entry P L ts png name d) = ts"
  by (simp add: build_history_entry_def)

lemma keep_image_simps [simp]:
  "br_hashes (keep_image e x b) = br_hashes b" "br_client (keep_image e x b) = br_client b"
  "br_echo (keep_image e x b) = br_echo b"
  by (simp_all add: keep_image_def)

lemma store_file_simps [simp]:
  "br_hashes (store_file e b) = br_hashes b" "br_client (store_file e b) = br_client b"
  "br_echo (store_file e b) = br_echo b"
  by (simp_all add: store_file_def)

lemma store_files_simps [simp]:
  "br_hashes (fold store_file es b) = br_hashes b" "br_echo (fold store_file es b) = br_echo b"
  by (induction es arbitrary: b) simp_all

lemma try_publish_image_state:
  "br_hashes (fst (try_publish_image E nonce ts png b w)) = remember_all (capped_hash E (Some png)) (br_hashes b)
   \<and> br_echo (fst (try_publish_image E nonce ts png b w)) = br_echo b"
  by (auto simp: try_publish_image_def capped_hash_def Let_def split: option.splits prod.splits sum.splits)

lemma send_paths_loop_state:
  "br_hashes (fst (snd (send_paths_loop E disk draws paths i entries b w))) =
     remember_all (loop_hashes E disk draws paths i (br_client b) w) (br_hashes b)
   \<and> br_echo (fst (snd (send_paths_loop E disk draws paths i entries b w))) = br_echo b"
proof (induction paths arbitrary: i entries b w)
  case (Cons path paths)
  show ?case
  proof (cases "normalize_image_file_at_path (we_lib E) disk path")
    case (Some png)
    obtain r client w' where p: "publish_image E (snd (draws i)) png (fst (draws i)) (br_client b) w = (r, client, w')"
      by (metis prod_cases3)
    show ?thesis using Some p by (cases r) (simp_all add: Let_def Cons.IH)
  qed (simp add: Cons.IH)
qed simp

lemma send_one_state:
  "br_hashes (snd (send_one C client names stat t s)) = br_hashes (snd s)"
  "br_echo (snd (send_one C client names stat t s)) = br_echo (snd s)"
  by (simp_all add: send_one_def Let_def case_prod_unfold)

lemma send_all_state:
  "br_hashes (snd (fold (send_one C client names stat) ts s)) = br_hashes (snd s)"
  "br_echo (snd (fold (send_one C client names stat) ts s)) = br_echo (snd s)"
  by (induction ts arbitrary: s) (simp_all add: send_one_state)

lemma send_files_state:
  "br_hashes (snd (send_files_to_peers C stat env paths ids b)) = br_hashes b
   \<and> br_echo (snd (send_files_to_peers C stat env paths ids b)) = br_echo b"
  by (cases "br_client b") (simp_all add: send_files_to_peers_def Let_def case_prod_unfold send_all_state)

lemma try_publish_text_state:
  "br_hashes (try_publish_text E now ts text b) = br_hashes b \<and> br_echo (try_publish_text E now ts text b) = br_echo b"
  by (simp add: try_publish_text_def Let_def)

lemma clipboard_change_state:
  "br_hashes (fst (handle_clipboard_change E r b w)) = remember_all (capped_hash E (read_image E r)) (br_hashes b)
   \<and> br_echo (fst (handle_clipboard_change E r b w)) = br_echo b"
  by (cases "read_image E r"; cases "cb_text (rg_clipboard r)")
    (simp_all add: handle_clipboard_change_def try_publish_image_state try_publish_text_state capped_hash_def)

lemma show_remote_image_state:
  "br_hashes (show_remote_image E works name ts meta bytes b) = remember_all (opt_list (hash_of E bytes)) (br_hashes b)
   \<and> br_echo (show_remote_image E works name ts meta bytes b) = br_echo b"
  by (cases "hash_of E bytes") (simp_all add: show_remote_image_def Let_def case_prod_unfold)

lemma send_image_bytes_state:
  "br_hashes (fst (snd (send_image_bytes E nonce ts bytes b w))) =
     remember_all (capped_hash E (encode_for_wire (we_lib E) bytes)) (br_hashes b)
   \<and> br_echo (fst (snd (send_image_bytes E nonce ts bytes b w))) = br_echo b"
proof (cases "encode_for_wire (we_lib E) bytes")
  case (Some png)
  obtain r client w' where p: "publish_image E nonce png ts (br_client b) w = (r, client, w')" by (metis prod_cases3)
  show ?thesis using Some p by (cases r) (simp_all add: send_image_bytes_def Let_def capped_hash_def)
qed (simp add: send_image_bytes_def capped_hash_def)

lemma send_image_paths_state:
  "br_hashes (fst (snd (send_image_paths E disk draws paths b w))) =
     remember_all (loop_hashes E disk draws (supported_drag_image_paths paths) 0 (br_client b) w) (br_hashes b)
   \<and> br_echo (fst (snd (send_image_paths E disk draws paths b w))) = br_echo b"
proof -
  obtain r b' w' where p: "send_paths_loop E disk draws (supported_drag_image_paths paths) 0 [] b w = (r, b', w')"
    by (metis prod_cases3)
  have "br_hashes b' = remember_all (loop_hashes E disk draws (supported_drag_image_paths paths) 0 (br_client b) w) (br_hashes b)"
    "br_echo b' = br_echo b"
    using send_paths_loop_state [of E disk draws "supported_drag_image_paths paths" 0 "[]" b w] by (simp_all add: p)
  then show ?thesis using p by (cases r) (simp_all add: send_image_paths_def Let_def)
qed

lemma drain_state:
  "br_hashes (snd (drain_received_files clock b)) = br_hashes b \<and> br_echo (snd (drain_received_files clock b)) = br_echo b"
  by (cases "br_client b") (simp_all add: drain_received_files_def take_received_files_def Let_def)

lemma handle_remote_image_state:
  "br_hashes (fst (handle_remote_image E connect works p b w)) =
     remember_all (case (cp_image p, br_client b) of
       (Some meta, Some client) \<Rightarrow>
          (case fst (fetch_image (we_codec E) connect (we_b64_decode E) (we_http E) meta client w) of
             Inr bytes \<Rightarrow> opt_list (hash_of E bytes)
           | Inl _ \<Rightarrow> [])
      | _ \<Rightarrow> []) (br_hashes b)
   \<and> br_echo (fst (handle_remote_image E connect works p b w)) = br_echo b"
proof (cases "cp_image p")
  case (Some meta)
  show ?thesis
  proof (cases "br_client b")
    case c: (Some client)
    obtain r cl w' where f: "fetch_image (we_codec E) connect (we_b64_decode E) (we_http E) meta client w = (r, cl, w')"
      by (metis prod_cases3)
    show ?thesis using Some c f by (cases r) (simp_all add: handle_remote_image_def show_remote_image_state)
  qed (simp add: handle_remote_image_def Some)
qed (simp add: handle_remote_image_def)

text \<open>What an event does to the recent hashes; only a remote text touches the text echo.\<close>

definition remote_text :: "bridge_event \<Rightarrow> bool" where
  "remote_text e = (case e of Arrived connect works now p \<Rightarrow> cp_kind p = ClipText | _ \<Rightarrow> False)"

lemma bridge_step_hashes:
  "br_hashes (fst (bridge_step E e s)) = remember_all (event_hashes E e s) (br_hashes (fst s))"
proof (cases e; cases s)
  fix connect works now p b w
  assume "e = Arrived connect works now p" "s = (b, w)"
  then show ?thesis using handle_remote_image_state [of E connect works p b w] by (cases "cp_kind p") (simp_all add: on_clip_def)
qed (simp_all add: clipboard_change_state send_image_bytes_state send_image_paths_state send_files_state
    recent_file_transfers_def drain_state Let_def bridge_on_state_def show_state_def)

lemma bridge_step_echo: "\<not> remote_text e \<Longrightarrow> br_echo (fst (bridge_step E e s)) = br_echo (fst s)"
proof (cases e; cases s)
  fix connect works now p b w
  assume "\<not> remote_text e" "e = Arrived connect works now p" "s = (b, w)"
  then show ?thesis
    using handle_remote_image_state [of E connect works p b w] by (cases "cp_kind p") (simp_all add: on_clip_def remote_text_def)
qed (simp_all add: clipboard_change_state send_image_bytes_state send_image_paths_state send_files_state
    recent_file_transfers_def drain_state Let_def bridge_on_state_def show_state_def)

lemma run_hashes_eq:
  "br_hashes (fst (fold (bridge_step E) es s)) = remember_all (run_hashes E es s) (br_hashes (fst s))"
  by (induction es arbitrary: s) (simp_all add: bridge_step_hashes)

lemma run_echo:
  "\<forall>e \<in> set es. \<not> remote_text e \<Longrightarrow> br_echo (fst (fold (bridge_step E) es s)) = br_echo (fst s)"
  by (induction es arbitrary: s) (simp_all add: bridge_step_echo)

section \<open>The properties\<close>

lemma known_image_dropped:
  assumes "read_image E r = Some png" "hash_of E (np_bytes png) = Some h" "h \<in> set (br_hashes b)"
  shows "\<exists>q. handle_clipboard_change E r b w = (b\<lparr>br_hashes := q\<rparr>, w)"
proof (cases "length (np_bytes png) > MAX_IMAGE_BYTES")
  case True
  then have "handle_clipboard_change E r b w = (b\<lparr>br_hashes := br_hashes b\<rparr>, w)"
    using assms by (simp add: handle_clipboard_change_def try_publish_image_def)
  then show ?thesis by blast
next
  case False
  then show ?thesis
    using assms by (auto simp: handle_clipboard_change_def try_publish_image_def remember_hash_def)
qed

lemma known_remote_image_dropped:
  "hash_of E bytes = Some h \<Longrightarrow> h \<in> set (br_hashes b) \<Longrightarrow>
     \<exists>q. show_remote_image E works name ts meta bytes b = b\<lparr>br_hashes := q\<rparr>"
  by (auto simp: show_remote_image_def remember_hash_def)

lemma new_remote_image_shown:
  "hash_of E bytes = Some h \<Longrightarrow> h \<notin> set (br_hashes b) \<Longrightarrow>
     br_writes (show_remote_image E works name ts meta bytes b) = br_writes b @ write_image_to_clipboard (we_lib E) works bytes
     \<and> image_bytes_for h (show_remote_image E works name ts meta bytes b) = Some bytes"
  by (simp add: show_remote_image_def remember_hash_def keep_image_def image_bytes_for_def store_history_def
      case_prod_unfold Let_def update_conv')

lemma remote_image_remembered:
  "hash_of E bytes = Some h \<Longrightarrow> h \<in> set (br_hashes (show_remote_image E works name ts meta bytes b))"
  by (simp add: show_remote_image_def remember_hash_def keep_image_def Let_def trim_front_def RECENT_HASHES_CAP_def)

lemma new_image_published:
  assumes "read_image E r = Some png" "hash_of E (np_bytes png) = Some h" "h \<notin> set (br_hashes b)"
    "length (np_bytes png) \<le> MAX_IMAGE_BYTES"
  shows "(br_client (fst (handle_clipboard_change E r b w)), snd (handle_clipboard_change E r b w)) =
    snd (publish_image E (rg_nonce r) png (rg_ts r) (br_client b) w)"
proof -
  obtain res c w' where p: "publish_image E (rg_nonce r) png (rg_ts r) (br_client b) w = (res, c, w')"
    by (metis prod_cases3)
  show ?thesis
    using assms p by (cases res) (simp_all add: handle_clipboard_change_def try_publish_image_def remember_hash_def)
qed

text \<open>
  C34: An image goes round no loop. After any run of the bridge, an image whose pixels are those of one
  of the last 32 different images that were copied, sent or received is neither published when the
  clipboard reports it, nor written to the clipboard when it arrives: such an event changes nothing
  but the order of the hashes. Any other image that fits is published when copied; any other image
  that arrives is written to the clipboard and can be saved.
\<close>

theorem image_no_echo:
  assumes fresh: "br_hashes b0 = []" and run: "fold (bridge_step E) es (b0, w0) = (b, w)"
    and known: "K = set (last_distinct RECENT_HASHES_CAP (run_hashes E es (b0, w0)))"
    and copied: "read_image E r = Some png" "length (np_bytes png) \<le> MAX_IMAGE_BYTES" "hash_of E (np_bytes png) = Some h"
    and arrived: "hash_of E bytes = Some h'"
  shows "(if h \<in> K then \<exists>q. handle_clipboard_change E r b w = (b\<lparr>br_hashes := q\<rparr>, w)
      else (br_client (fst (handle_clipboard_change E r b w)), snd (handle_clipboard_change E r b w)) =
             snd (publish_image E (rg_nonce r) png (rg_ts r) (br_client b) w))
   \<and> (if h' \<in> K then \<exists>q. show_remote_image E works name ts meta bytes b = b\<lparr>br_hashes := q\<rparr>
      else br_writes (show_remote_image E works name ts meta bytes b) = br_writes b @ write_image_to_clipboard (we_lib E) works bytes
        \<and> image_bytes_for h' (show_remote_image E works name ts meta bytes b) = Some bytes)"
proof -
  have K: "set (br_hashes b) = K"
    using run_hashes_eq [of E es "(b0, w0)"] fresh run by (simp add: remember_run known)
  show ?thesis
    using known_image_dropped [OF copied(1,3)] new_image_published [OF copied(1,3) _ copied(2)]
      known_remote_image_dropped [OF arrived] new_remote_image_shown [OF arrived] K by simp
qed

definition demo_env :: "(bytes, unit) win_env" where
  "demo_env = \<lparr>we_codec = table_codec [], we_lib = demo_image_lib,
     we_http = \<lparr>http_put = \<lambda>_ _ w. (Inl [], w), http_get = \<lambda>_ w. (Inl [], w)\<rparr>,
     we_b64_encode = map unat, we_b64_decode = (\<lambda>s. Inr (map word_of_nat s)), we_name = lit ''PC''\<rparr>"

definition demo_reading :: "bytes \<Rightarrow> reading" where
  "demo_reading px = \<lparr>rg_clipboard = \<lparr>cb_bitmap = Some (1, 1, px), cb_files = None, cb_text = None\<rparr>,
     rg_disk = (\<lambda>p. None), rg_mono = 0, rg_ts = 0, rg_nonce = replicate 12 0\<rparr>"

lemma demo_read_image:
  "read_image demo_env (demo_reading [7]) = Some \<lparr>np_bytes = [7], np_mime = MIME_PNG, np_width = 1, np_height = 1\<rparr>"
  by (simp add: read_image_def read_clipboard_image_def read_clipboard_bitmap_image_def demo_env_def demo_reading_def
      demo_image_lib_def encode_dynamic_for_wire_def small_png_def normalized_def MAX_IMAGE_BYTES_def)

lemma demo_hash: "hash_of demo_env b = Some (sha256_hex demo_prims b)"
  by (simp add: pixel_hash_hex_def demo_env_def demo_image_lib_def table_codec_def)

definition demo_bridge :: bridge where
  "demo_bridge = fst (bridge_step demo_env (Picked (replicate 12 0) 0 [7]) (bridge_new, ()))"

theorem image_no_echo_witness:
  "\<exists>q. handle_clipboard_change demo_env (demo_reading [7]) demo_bridge () = (demo_bridge\<lparr>br_hashes := q\<rparr>, ())"
proof -
  have run: "fold (bridge_step demo_env) [Picked (replicate 12 0) 0 [7]] (bridge_new, ()) = (demo_bridge, ())"
    by (simp add: demo_bridge_def prod_eq_iff)
  have hashes: "run_hashes demo_env [Picked (replicate 12 0) 0 [7]] (bridge_new, ()) = [sha256_hex demo_prims [7]]"
  proof -
    have "encode_for_wire (we_lib demo_env) [7] = Some \<lparr>np_bytes = [7], np_mime = MIME_PNG, np_width = 1, np_height = 1\<rparr>"
      by (simp add: encode_for_wire_def demo_env_def demo_image_lib_def is_png_bytes_def is_jpeg_bytes_def
          encode_dynamic_for_wire_def small_png_def normalized_def MAX_IMAGE_BYTES_def)
    then show ?thesis by (simp add: capped_hash_def demo_hash MAX_IMAGE_BYTES_def)
  qed
  have empty: "br_hashes bridge_new = []" by (simp add: bridge_new_def)
  show ?thesis
    using image_no_echo [OF empty run refl demo_read_image _ demo_hash demo_hash [of "[7]"], unfolded hashes]
    by (simp add: last_distinct_def MAX_IMAGE_BYTES_def RECENT_HASHES_CAP_def)
qed

text \<open>
  C35: A text goes round no loop. Until another remote text arrives, the clipboard reporting the text
  that was last received publishes nothing for 10 s, whatever else happened in between; any other
  text, and that one later, is published as it is, once, if the client runs.
\<close>

theorem text_no_echo:
  assumes kind: "cp_kind p = ClipText" and quiet: "\<forall>e \<in> set es. \<not> remote_text e"
    and run: "fold (bridge_step E) es (on_clip E connect works now p b w) = (b1, w1)"
    and copied: "read_image E r = None" "cb_text (rg_clipboard r) = Some s" "s \<noteq> []"
  shows "handle_clipboard_change E r b1 w1 =
     (if s = cp_content p \<and> rg_mono r - now < ECHO_WINDOW then b1
      else b1\<lparr>br_client := map_option (\<lambda>c. snd (api_send_clip
             \<lparr>cp_kind = ClipText, cp_content = s, cp_device_name = we_name E, cp_ts = rg_ts r, cp_image = None\<rparr> c))
             (br_client b1)\<rparr>, w1)"
proof -
  have "br_echo b1 = Some (cp_content p, now)"
    using run_echo [OF quiet, of E "on_clip E connect works now p b w"] run kind by (simp add: on_clip_def)
  then show ?thesis
    using copied by (auto simp: handle_clipboard_change_def try_publish_text_def)
qed

definition demo_text_clip :: clip_payload where
  "demo_text_clip = \<lparr>cp_kind = ClipText, cp_content = [65], cp_device_name = [], cp_ts = 1, cp_image = None\<rparr>"

definition demo_text_reading :: "nat \<Rightarrow> reading" where
  "demo_text_reading now = \<lparr>rg_clipboard = \<lparr>cb_bitmap = None, cb_files = None, cb_text = Some [65]\<rparr>,
     rg_disk = (\<lambda>p. None), rg_mono = now, rg_ts = now, rg_nonce = []\<rparr>"

theorem text_no_echo_witness:
  "\<exists>b1. handle_clipboard_change demo_env (demo_text_reading 9000) b1 () = (b1, ())
     \<and> br_writes b1 = [WriteText [65]]"
proof -
  let ?b1 = "bridge_new\<lparr>br_echo := Some ([65], 0), br_writes := [WriteText [65]]\<rparr>"
  have "fold (bridge_step demo_env) [] (on_clip demo_env (\<lambda>i a. Refused) True 0 demo_text_clip bridge_new ()) = (?b1, ())"
    by (simp add: on_clip_def demo_text_clip_def bridge_new_def)
  note spec = text_no_echo [OF _ _ this, of "demo_text_reading 9000" "[65]"]
  have "handle_clipboard_change demo_env (demo_text_reading 9000) ?b1 () = (?b1, ())"
    using spec by (simp add: demo_text_clip_def demo_text_reading_def ECHO_WINDOW_def read_image_def
        read_clipboard_image_def read_clipboard_bitmap_image_def)
  then show ?thesis by (intro exI [of _ ?b1]) simp
qed

text \<open>
  An image whose upload fails is not retried by copying it again. The hash is remembered before
  the image is published: when publishing fails, copying the same image again does nothing, even if
  the relay could be reached by then.
\<close>

theorem failed_image_not_retried:
  assumes fits: "length (np_bytes png) \<le> MAX_IMAGE_BYTES" and h: "hash_of E (np_bytes png) = Some h"
    and new: "h \<notin> set (br_hashes b)"
    and fails: "fst (publish_image E nonce png ts (br_client b) w) = Inl e"
    and same: "we_codec E' = we_codec E" "we_lib E' = we_lib E"
  shows "case try_publish_image E nonce ts png b w of (b1, w1) \<Rightarrow>
     br_images b1 = br_images b \<and> (\<exists>q. try_publish_image E' nonce' ts' png b1 w' = (b1\<lparr>br_hashes := q\<rparr>, w'))"
proof -
  obtain c w1 where p: "publish_image E nonce png ts (br_client b) w = (Inl e, c, w1)"
    using fails by (metis eq_fst_iff)
  have "h \<in> set (snd (remember_hash h (br_hashes b)))"
    using new by (simp add: remember_hash_def trim_front_def RECENT_HASHES_CAP_def drop_Cons')
  moreover have h': "hash_of E' (np_bytes png) = Some h" using h same by simp
  moreover have "try_publish_image E nonce ts png b w =
      (b\<lparr>br_hashes := snd (remember_hash h (br_hashes b)), br_client := c\<rparr>, w1)"
    using fits h new p by (simp add: try_publish_image_def remember_hash_def)
  ultimately show ?thesis
    using fits by (auto simp: try_publish_image_def remember_hash_def [of h "snd _"])
qed

definition offline_env :: "(bytes, unit) win_env" where
  "offline_env = demo_env\<lparr>we_name := []\<rparr>"

definition demo_png :: normalized_png where
  "demo_png = \<lparr>np_bytes = [7], np_mime = MIME_PNG, np_width = 1, np_height = 1\<rparr>"

theorem failed_image_not_retried_witness:
  "case try_publish_image offline_env [] 0 demo_png bridge_new () of (b1, w1) \<Rightarrow>
     br_images b1 = br_images bridge_new
     \<and> (\<exists>q. try_publish_image demo_env [] 9 demo_png b1 () = (b1\<lparr>br_hashes := q\<rparr>, ()))"
proof (rule failed_image_not_retried)
  show "length (np_bytes demo_png) \<le> MAX_IMAGE_BYTES" by (simp add: demo_png_def MAX_IMAGE_BYTES_def)
  show "hash_of offline_env (np_bytes demo_png) = Some (sha256_hex demo_prims (np_bytes demo_png))"
    using demo_hash by (simp add: offline_env_def)
  show "sha256_hex demo_prims (np_bytes demo_png) \<notin> set (br_hashes bridge_new)" by (simp add: bridge_new_def)
  show "fst (publish_image offline_env [] demo_png 0 (br_client bridge_new) ()) = Inl (lit ''client not started'')"
    by (simp add: publish_image_def bridge_new_def)
qed (simp_all add: offline_env_def)

text \<open>Each transfer puts a pending entry into the history and then its final one in its place.\<close>

lemma final_entry_settled:
  "fe_id (final_entry C T client name target_name path meta target) = te_local_id T
   \<and> fe_status (final_entry C T client name target_name path meta target) \<in> {StSent, StFailed}"
  by (cases meta) (auto simp: final_entry_def failed_entry_def split: sum.splits prod.splits)

lemma remove_by_id_subset: "set (remove_by_id i xs) \<subseteq> set xs"
  by (induction xs) (auto simp: remove_by_id_def)

lemma remove_by_id_head: "fe_id p = i \<Longrightarrow> remove_by_id i (p # xs) = xs"
  by (simp add: remove_by_id_def)

lemma replace_pending:
  assumes "fe_id p = fe_id f"
  shows "store_file_history f (store_file_history p h) = f # take (HISTORY_LIMIT - 1) (remove_by_id (fe_id f) h)"
  using assms by (simp add: store_file_history_def HISTORY_LIMIT_def remove_by_id_head)

definition settled :: "file_entry \<Rightarrow> bool" where
  "settled e \<longleftrightarrow> fe_status e \<noteq> StSending"

definition pending_of :: "client \<Rightarrow> (str \<times> str) list \<Rightarrow> (path \<Rightarrow> file_stat) \<Rightarrow> transfer_env \<times> path \<times> str \<Rightarrow> file_entry" where
  "pending_of client peer_names stat = (\<lambda>(T, path, target).
     pending_entry (te_pending_ts T) (te_local_id T) (file_display_name (path_display path))
       (case map_of peer_names target of Some n \<Rightarrow> n | None \<Rightarrow> take 12 target)
       (case stat path of Inr (_, len) \<Rightarrow> len | Inl _ \<Rightarrow> 0))"

definition final_of :: "codec \<Rightarrow> client \<Rightarrow> (str \<times> str) list \<Rightarrow> (path \<Rightarrow> file_stat) \<Rightarrow> transfer_env \<times> path \<times> str \<Rightarrow> file_entry" where
  "final_of C client peer_names stat = (\<lambda>(T, path, target).
     final_entry C T client (file_display_name (path_display path))
       (case map_of peer_names target of Some n \<Rightarrow> n | None \<Rightarrow> take 12 target) path (stat path) target)"

lemma final_of_status:
  "fe_status (final_of C client names stat t) = StSent \<or> fe_status (final_of C client names stat t) = StFailed"
proof -
  obtain T path target where "t = (T, path, target)" by (metis prod_cases3)
  then show ?thesis using final_entry_settled by (simp add: final_of_def)
qed

lemma send_one_eq:
  "send_one C client names stat t (finals, b) =
     (finals @ [final_of C client names stat t],
      store_file (final_of C client names stat t) (store_file (pending_of client names stat t) b))"
  by (simp add: send_one_def Let_def final_of_def pending_of_def case_prod_unfold)

lemma same_id: "fe_id (pending_of client names stat t) = fe_id (final_of C client names stat t)"
  by (simp add: pending_of_def final_of_def case_prod_unfold final_entry_settled pending_entry_def)

lemma send_one_files:
  "br_files (snd (send_one C client names stat t (finals, b))) =
     final_of C client names stat t # take (HISTORY_LIMIT - 1) (remove_by_id (fe_id (final_of C client names stat t)) (br_files b))"
  by (simp add: send_one_eq store_file_def replace_pending [OF same_id])

lemma send_all_spec:
  assumes "fold (send_one C client names stat) ts (finals, b) = (finals', b')"
  shows "finals' = finals @ map (final_of C client names stat) ts
    \<and> br_file_events b' = br_file_events b
        @ concat (map (\<lambda>t. [pending_of client names stat t, final_of C client names stat t]) ts)
    \<and> (list_all settled (br_files b) \<longrightarrow> list_all settled (br_files b'))"
  using assms
proof (induction ts arbitrary: finals b)
  case (Cons t ts)
  let ?s = "send_one C client names stat t (finals, b)"
  have s: "?s = (finals @ [final_of C client names stat t], snd ?s)" by (simp add: send_one_eq)
  have ev: "br_file_events (snd ?s) = br_file_events b @ [pending_of client names stat t, final_of C client names stat t]"
    by (simp add: send_one_eq store_file_def)
  have "settled (final_of C client names stat t)"
    using final_of_status [of C client names stat t] by (auto simp: settled_def)
  then have st: "list_all settled (br_files b) \<Longrightarrow> list_all settled (br_files (snd ?s))"
    unfolding send_one_files using remove_by_id_subset by (fastforce simp: list_all_iff dest: in_set_takeD)
  have "fold (send_one C client names stat) ts (finals @ [final_of C client names stat t], snd ?s) = (finals', b')"
    using Cons.prems s by simp
  from Cons.IH [OF this] ev st show ?case by simp
qed simp


definition demo_transfer :: "nat \<Rightarrow> transfer_env" where
  "demo_transfer i = \<lparr>te_local_id = [76, of_nat i], te_uuid = [85, of_nat i], te_pending_ts = i, te_final_ts = Suc i,
     te_fs = demo_fs [1, 2, 3], te_connect = (\<lambda>_. Refused)\<rparr>"


text \<open>A text from another device: written once, and not published when the clipboard reports it.\<close>

lemma remote_text_written:
  assumes "cp_kind p = ClipText" "cp_content p = s"
  shows "\<exists>b'. on_clip E connect True now p b w = (b', w) \<and> br_writes b' = br_writes b @ [WriteText s]
    \<and> (\<forall>r. read_image E r = None \<longrightarrow> cb_text (rg_clipboard r) = Some s \<longrightarrow> rg_mono r - now < ECHO_WINDOW \<longrightarrow>
         handle_clipboard_change E r b' w = (b', w))"
  using assms by (auto simp: on_clip_def handle_clipboard_change_def try_publish_text_def)

text \<open>A copied text of a bridge with a client is queued as a clip, once.\<close>

lemma copied_text_queued:
  assumes "read_image E r = None" "cb_text (rg_clipboard r) = Some s" "s \<noteq> []" "\<And>t. br_echo b \<noteq> Some (s, t)"
    and "br_client b = Some cl" "cl_receiver cl"
  shows "br_client (fst (handle_clipboard_change E r b w)) = Some (cl\<lparr>cl_cmds := cl_cmds cl @ [SendClip
     \<lparr>cp_kind = ClipText, cp_content = s, cp_device_name = we_name E, cp_ts = rg_ts r, cp_image = None\<rparr>]\<rparr>)"
  using assms
  by (auto simp: handle_clipboard_change_def try_publish_text_def api_send_clip_def send_cmd_def split: option.splits)

text \<open>A file that the client has received heads the list the next time it is asked for, and is announced once.\<close>

lemma received_file_listed:
  assumes "br_client b = Some c" "cl_received c = []"
  shows "\<exists>b' es. recent_file_transfers clock (b\<lparr>br_client := Some (on_received_file f c)\<rparr>) =
       (received_entry (clock 0) (received_record f) # es, b')
     \<and> br_file_events b' = br_file_events b @ [received_entry (clock 0) (received_record f)] \<and> br_client b' = Some c"
  using assms
  by (simp add: recent_file_transfers_def drain_received_files_def take_received_files_def on_received_file_def
      push_received_def RECEIVED_FILES_CAP_def store_file_def store_file_history_def HISTORY_LIMIT_def Let_def)

text \<open>A bridge that is stopped has no client and shows itself idle; one that fails to start is stopped.\<close>

lemma bridge_on_states_client [simp]: "br_client (fold bridge_on_state ss b) = br_client b"
  by (induction ss arbitrary: b) (simp_all add: bridge_on_state_def show_state_def)

lemma bridge_stop_spec:
  "br_client (bridge_stop late outcome b) = None \<and> last (br_states (bridge_stop late outcome b)) = UiIdle"
  by (simp add: bridge_stop_def show_state_def Let_def)

lemma bridge_start_spec:
  "case bridge_start dec name S cfg b of
     (Inr _, b') \<Rightarrow> \<exists>key. dec (pc_key cfg) = Some key \<and> length key = KEY_LEN
        \<and> map_option cl_key (br_client b') = Some key \<and> (br_native b' = None) = br_poller b'
   | (Inl _, b') \<Rightarrow> br_client b' = None \<and> last (br_states b') = UiIdle"
  using bridge_stop_spec [of "se_late S" "se_outcome S" b]
  by (auto simp: bridge_start_def spawn_clipboard_handler_def spawn_poller_def bridge_stop_def show_state_def Let_def key_bytes_def client_new_def set_file_receive_dir_def
      split: option.splits sum.splits prod.splits if_splits)

end
