(* ===== verification/WinApp.thy ===== *)
theory WinApp
  imports WinBridge
begin

text \<open>
  The Windows application around the bridge: the pairing configuration and its store
  (\<^verbatim>\<open>clients/windows/src/pairing.rs\<close>) and the commands of the interface, the start-up and the
  window events (\<^verbatim>\<open>clients/windows/src/main.rs\<close>). JSON and base64url are parameters, and so are what
  the disk answers, the random bytes and the UUIDs that are drawn, the dialogs' answers. The bridge
  sits behind a mutex, which a panic may have poisoned.
\<close>

section \<open>The pairing configuration\<close>

definition DEFAULT_RELAY_URL :: str where "DEFAULT_RELAY_URL = lit ''wss://clip.wrlog.cn''"

record pairing_codec =
  pk_to_json :: "pairing_config \<Rightarrow> str + str"
  pk_from_json :: "str \<Rightarrow> str + pairing_config"
  pk_b64_encode :: "bytes \<Rightarrow> str"
  pk_b64_decode :: "str \<Rightarrow> bytes option"

definition make_new :: "pairing_codec \<Rightarrow> bytes \<Rightarrow> str \<Rightarrow> pairing_config" where
  "make_new P random uuid =
     \<lparr>pc_relay_url = DEFAULT_RELAY_URL, pc_group_id = uuid, pc_key = pk_b64_encode P random\<rparr>"

definition is_valid :: "pairing_codec \<Rightarrow> pairing_config \<Rightarrow> bool" where
  "is_valid P cfg \<longleftrightarrow>
     (case key_bytes (pk_b64_decode P) cfg of Some b \<Rightarrow> length b = 32 | None \<Rightarrow> False)
     \<and> pc_relay_url cfg \<noteq> [] \<and> pc_group_id cfg \<noteq> []"

section \<open>The store\<close>

text \<open>A file of the configuration directory, and what a write to it does: it may fail half way.\<close>

datatype disk_text = NoFile | NotText | HoldsText str

datatype write_outcome = WriteDone | WriteError str disk_text

record store_disk =
  sd_pairing :: disk_text
  sd_device_id :: disk_text

definition write_text :: "write_outcome \<Rightarrow> str \<Rightarrow> (str + unit) \<times> disk_text" where
  "write_text outcome s = (case outcome of WriteDone \<Rightarrow> (Inr (), HoldsText s) | WriteError e left \<Rightarrow> (Inl e, left))"

definition store_load :: "pairing_codec \<Rightarrow> store_disk \<Rightarrow> pairing_config option" where
  "store_load P d =
     (case sd_pairing d of
        HoldsText raw \<Rightarrow> (case pk_from_json P raw of Inr cfg \<Rightarrow> Some cfg | Inl _ \<Rightarrow> None)
      | _ \<Rightarrow> None)"

definition store_save ::
  "pairing_codec \<Rightarrow> write_outcome \<Rightarrow> pairing_config \<Rightarrow> store_disk \<Rightarrow> (str + unit) \<times> store_disk" where
  "store_save P outcome cfg d =
     (case pk_to_json P cfg of
        Inl e \<Rightarrow> (Inl e, d)
      | Inr json \<Rightarrow> (case write_text outcome json of (r, f) \<Rightarrow> (r, d\<lparr>sd_pairing := f\<rparr>)))"

text \<open>\<open>remove_file\<close>, whose error is ignored.\<close>

definition store_clear :: "bool \<Rightarrow> store_disk \<Rightarrow> store_disk" where
  "store_clear removed d = (if removed then d\<lparr>sd_pairing := NoFile\<rparr> else d)"

definition store_device_id :: "str \<Rightarrow> write_outcome \<Rightarrow> store_disk \<Rightarrow> str \<times> store_disk" where
  "store_device_id uuid outcome d =
     (let fresh = (uuid, d\<lparr>sd_device_id := snd (write_text outcome uuid)\<rparr>)
      in case sd_device_id d of
           HoldsText existing \<Rightarrow> if trim existing \<noteq> [] then (trim existing, d) else fresh
         | _ \<Rightarrow> fresh)"

section \<open>The application\<close>

record app =
  ap_bridge :: bridge
  ap_poisoned :: bool
  ap_disk :: store_disk
  ap_pumped :: nat
  ap_last :: ui_state
  ap_emitted :: "ui_state list"
  ap_window :: bool
  ap_exit :: "int option"
  ap_saved :: "(str \<times> bytes) list"

definition app_new :: "store_disk \<Rightarrow> app" where
  "app_new d = \<lparr>ap_bridge = bridge_new, ap_poisoned = False, ap_disk = d, ap_pumped = 0, ap_last = UiIdle,
     ap_emitted = [], ap_window = False, ap_exit = None, ap_saved = []\<rparr>"

record pairing_dto =
  pd_json :: str
  pd_qr_svg :: "str option"

text \<open>\<open>qr\<close> encodes and renders; it fails when the text is too long for a code.\<close>

definition render_qr :: "(bytes \<Rightarrow> str option) \<Rightarrow> str \<Rightarrow> str option" where
  "render_qr qr s = (let trimmed = trim s in if trimmed = [] then None else qr (as_bytes trimmed))"

definition MSG_POISONED :: str where
  "MSG_POISONED = lit ''poisoned lock: another task failed inside''"

definition MSG_BAD_PAIRING :: str where
  "MSG_BAD_PAIRING =
     [37197, 23545, 20449, 24687, 26080, 25928, 58]"

definition MSG_PAIRING_FIELDS :: str where
  "MSG_PAIRING_FIELDS =
     [37197, 23545, 20449, 24687, 26080, 25928, 58, 32570, 23569, 24517, 35201, 23383, 27573, 25110,
     23494, 38053, 38271, 24230, 19981, 31526]"

definition MSG_SAVE_FAILED :: str where
  "MSG_SAVE_FAILED =
     [20445, 23384, 22833, 36133, 58]"

definition MSG_BYTES_GONE :: str where
  "MSG_BYTES_GONE =
     [22270, 29255, 23383, 33410, 24050, 36807, 26399, 32, 40, 21382, 21490, 24050, 28165, 41]"

definition MSG_WRITE_FAILED :: str where
  "MSG_WRITE_FAILED =
     [20889, 20837, 22833, 36133, 58]"

definition MSG_NO_FILE :: str where
  "MSG_NO_FILE =
     [25991, 20214, 19981, 23384, 22312]"

definition MSG_EXPLORER :: str where
  "MSG_EXPLORER =
     [25171, 24320, 36164, 28304, 31649, 29702, 22120, 22833, 36133, 58]"

text \<open>What a command that starts the bridge meets: the old worker and the new one, the disk, a new UUID.\<close>

record cmd_env =
  ce_start :: start_env
  ce_save :: write_outcome
  ce_uuid :: str
  ce_id_write :: write_outcome

text \<open>\<open>Bridge::start\<close> with the device id of the store, which it asks for once the key has been decoded.\<close>

definition start_bridge ::
  "pairing_codec \<Rightarrow> str \<Rightarrow> cmd_env \<Rightarrow> pairing_config \<Rightarrow> app \<Rightarrow> (str + unit) \<times> app" where
  "start_bridge P name V cfg a =
     (let (ident, d) = (case key_bytes (pk_b64_decode P) cfg of
                          None \<Rightarrow> ([], ap_disk a)
                        | Some _ \<Rightarrow> store_device_id (ce_uuid V) (ce_id_write V) (ap_disk a));
          (r, b) = bridge_start (pk_b64_decode P) name ((ce_start V)\<lparr>se_device_id := ident\<rparr>) cfg (ap_bridge a)
      in (r, a\<lparr>ap_bridge := b, ap_disk := d\<rparr>))"

definition lock_and_start ::
  "pairing_codec \<Rightarrow> str \<Rightarrow> cmd_env \<Rightarrow> pairing_config \<Rightarrow> app \<Rightarrow> (str + unit) \<times> app" where
  "lock_and_start P name V cfg a = (if ap_poisoned a then (Inl MSG_POISONED, a) else start_bridge P name V cfg a)"

definition dto_of :: "(bytes \<Rightarrow> str option) \<Rightarrow> str \<Rightarrow> pairing_dto" where
  "dto_of qr json = \<lparr>pd_json = json, pd_qr_svg = render_qr qr json\<rparr>"

definition json_or :: "pairing_codec \<Rightarrow> str \<Rightarrow> pairing_config \<Rightarrow> str" where
  "json_or P alt cfg = (case pk_to_json P cfg of Inr json \<Rightarrow> json | Inl _ \<Rightarrow> alt)"

definition cmd_load_pairing :: "pairing_codec \<Rightarrow> (bytes \<Rightarrow> str option) \<Rightarrow> app \<Rightarrow> pairing_dto option" where
  "cmd_load_pairing P qr a = map_option (\<lambda>cfg. dto_of qr (json_or P [] cfg)) (store_load P (ap_disk a))"

text \<open>Saving and starting, as both commands do: the configuration is on disk before the bridge is started.\<close>

definition save_and_start ::
  "pairing_codec \<Rightarrow> str \<Rightarrow> cmd_env \<Rightarrow> pairing_config \<Rightarrow> app \<Rightarrow> (str + unit) \<times> app" where
  "save_and_start P name V cfg a =
     (case store_save P (ce_save V) cfg (ap_disk a) of
        (Inl e, d) \<Rightarrow> (Inl (MSG_SAVE_FAILED @ e), a\<lparr>ap_disk := d\<rparr>)
      | (Inr _, d) \<Rightarrow> lock_and_start P name V cfg (a\<lparr>ap_disk := d\<rparr>))"

definition cmd_save_pairing ::
  "pairing_codec \<Rightarrow> (bytes \<Rightarrow> str option) \<Rightarrow> str \<Rightarrow> cmd_env \<Rightarrow> str \<Rightarrow> app \<Rightarrow> (str + pairing_dto) \<times> app" where
  "cmd_save_pairing P qr name V json a =
     (case pk_from_json P json of
        Inl e \<Rightarrow> (Inl (MSG_BAD_PAIRING @ e), a)
      | Inr cfg \<Rightarrow>
          if \<not> is_valid P cfg then (Inl MSG_PAIRING_FIELDS, a)
          else case save_and_start P name V cfg a of
            (Inl e, a) \<Rightarrow> (Inl e, a)
          | (Inr _, a) \<Rightarrow> (Inr (dto_of qr (json_or P json cfg)), a))"

definition cmd_generate_pairing ::
  "pairing_codec \<Rightarrow> (bytes \<Rightarrow> str option) \<Rightarrow> str \<Rightarrow> cmd_env \<Rightarrow> bytes \<Rightarrow> str \<Rightarrow> app \<Rightarrow> (str + pairing_dto) \<times> app" where
  "cmd_generate_pairing P qr name V random uuid a =
     (let cfg = make_new P random uuid
      in case save_and_start P name V cfg a of
           (Inl e, a) \<Rightarrow> (Inl e, a)
         | (Inr _, a) \<Rightarrow> (Inr (dto_of qr (json_or P [] cfg)), a))"

text \<open>\<open>late\<close> and \<open>outcome\<close> are the old worker's last states and its panic.\<close>

definition cmd_clear_pairing ::
  "bool \<Rightarrow> connection_state list \<Rightarrow> panic_payload option \<Rightarrow> app \<Rightarrow> (str + unit) \<times> app" where
  "cmd_clear_pairing removed late outcome a =
     (let a = a\<lparr>ap_disk := store_clear removed (ap_disk a)\<rparr>
      in if ap_poisoned a then (Inl MSG_POISONED, a)
         else (Inr (), a\<lparr>ap_bridge := bridge_stop late outcome (ap_bridge a)\<rparr>))"

definition show_main_window :: "app \<Rightarrow> app" where
  "show_main_window a = a\<lparr>ap_window := True\<rparr>"

definition quit_app :: "connection_state list \<Rightarrow> panic_payload option \<Rightarrow> app \<Rightarrow> app" where
  "quit_app late outcome a =
     (if ap_poisoned a then a else a\<lparr>ap_bridge := bridge_stop late outcome (ap_bridge a)\<rparr>)\<lparr>ap_exit := Some 0\<rparr>"

text \<open>The start-up: a stored pairing that is valid starts the bridge, and none at all shows the window.\<close>

definition auto_start :: "pairing_codec \<Rightarrow> str \<Rightarrow> cmd_env \<Rightarrow> app \<Rightarrow> app" where
  "auto_start P name V a =
     (case store_load P (ap_disk a) of
        Some cfg \<Rightarrow> if is_valid P cfg then snd (lock_and_start P name V cfg a) else a
      | None \<Rightarrow> show_main_window a)"

text \<open>One turn of the task that passes the states on: the next one that the bridge has sent.\<close>

definition pump_state :: "app \<Rightarrow> app" where
  "pump_state a =
     (if ap_pumped a < length (br_states (ap_bridge a))
      then (let state = br_states (ap_bridge a) ! ap_pumped a
            in a\<lparr>ap_pumped := Suc (ap_pumped a), ap_last := state, ap_emitted := ap_emitted a @ [state]\<rparr>)
      else a)"

definition cmd_current_state :: "app \<Rightarrow> ui_state" where
  "cmd_current_state a = ap_last a"

text \<open>Closing the window hides it; an exit that no one asked for is prevented.\<close>

definition close_requested :: "app \<Rightarrow> app" where
  "close_requested a = a\<lparr>ap_window := False\<rparr>"

definition exit_requested :: "int option \<Rightarrow> bool" where
  "exit_requested code \<longleftrightarrow> code \<noteq> None"

section \<open>Commands on images and files\<close>

definition cmd_recent_images :: "app \<Rightarrow> image_entry list" where
  "cmd_recent_images a = (if ap_poisoned a then [] else recent_images (ap_bridge a))"

definition cmd_lan_peer_names :: "app \<Rightarrow> str list" where
  "cmd_lan_peer_names a = (if ap_poisoned a then [] else lan_peer_names (ap_bridge a))"

text \<open>The directory is the system's download directory; listing the peers first takes the files that arrived.\<close>

definition cmd_file_receive_dir :: "str \<Rightarrow> app \<Rightarrow> str" where
  "cmd_file_receive_dir dir a = (if ap_poisoned a then [] else dir)"

definition cmd_lan_file_peers :: "(nat \<Rightarrow> nat) \<Rightarrow> app \<Rightarrow> lan_peer_dto list \<times> app" where
  "cmd_lan_file_peers clock a =
     (if ap_poisoned a then ([], a)
      else case lan_file_peers clock (ap_bridge a) of (ps, b) \<Rightarrow> (ps, a\<lparr>ap_bridge := b\<rparr>))"

definition cmd_show_window :: "app \<Rightarrow> app" where
  "cmd_show_window a = show_main_window a"

definition cmd_quit :: "connection_state list \<Rightarrow> panic_payload option \<Rightarrow> app \<Rightarrow> app" where
  "cmd_quit late outcome a = quit_app late outcome a"

definition cmd_send_image_bytes ::
  "('i, 'w) win_env \<Rightarrow> bytes \<Rightarrow> nat \<Rightarrow> bytes \<Rightarrow> app \<Rightarrow> 'w \<Rightarrow> (str + image_entry) \<times> app \<times> 'w" where
  "cmd_send_image_bytes E nonce ts bytes a w =
     (if ap_poisoned a then (Inl MSG_POISONED, a, w)
      else case send_image_bytes E nonce ts bytes (ap_bridge a) w of
        (r, b, w) \<Rightarrow> (r, a\<lparr>ap_bridge := b\<rparr>, w))"

definition cmd_send_image_paths ::
  "('i, 'w) win_env \<Rightarrow> (str \<Rightarrow> disk_file option) \<Rightarrow> (nat \<Rightarrow> nat \<times> bytes) \<Rightarrow> str list \<Rightarrow> app \<Rightarrow> 'w
     \<Rightarrow> (str + image_entry list) \<times> app \<times> 'w" where
  "cmd_send_image_paths E disk draws paths a w =
     (if ap_poisoned a then (Inl MSG_POISONED, a, w)
      else case send_image_paths E disk draws (pathbufs_from_drag_strings paths) (ap_bridge a) w of
        (r, b, w) \<Rightarrow> (r, a\<lparr>ap_bridge := b\<rparr>, w))"

text \<open>Saving an image: \<open>chosen\<close> is the answer of the dialog, \<open>failed\<close> the error of the write.\<close>

definition cmd_save_image_to_file ::
  "str \<Rightarrow> str option \<Rightarrow> str option \<Rightarrow> app \<Rightarrow> (str + str option) \<times> app" where
  "cmd_save_image_to_file ident chosen failed a =
     (if ap_poisoned a then (Inl MSG_POISONED, a)
      else case image_bytes_for ident (ap_bridge a) of
        None \<Rightarrow> (Inl MSG_BYTES_GONE, a)
      | Some bytes \<Rightarrow>
          (case chosen of
             None \<Rightarrow> (Inr None, a)
           | Some path \<Rightarrow>
               (case failed of
                  Some e \<Rightarrow> (Inl (MSG_WRITE_FAILED @ e), a)
                | None \<Rightarrow> (Inr (Some path), a\<lparr>ap_saved := ap_saved a @ [(path, bytes)]\<rparr>))))"

definition send_chosen ::
  "('i, 'w) win_env \<Rightarrow> (path \<Rightarrow> file_stat) \<Rightarrow> (nat \<Rightarrow> transfer_env) \<Rightarrow> path list \<Rightarrow> str list \<Rightarrow> app
     \<Rightarrow> (str + file_entry list) \<times> app" where
  "send_chosen E stat env paths target_device_ids a =
     (if ap_poisoned a then (Inl MSG_POISONED, a)
      else case send_files_to_peers (we_codec E) stat env paths target_device_ids (ap_bridge a) of
        (r, b) \<Rightarrow> (r, a\<lparr>ap_bridge := b\<rparr>))"

definition cmd_pick_and_send_files ::
  "('i, 'w) win_env \<Rightarrow> (path \<Rightarrow> file_stat) \<Rightarrow> (nat \<Rightarrow> transfer_env) \<Rightarrow> path list option \<Rightarrow> str list \<Rightarrow> app
     \<Rightarrow> (str + file_entry list) \<times> app" where
  "cmd_pick_and_send_files E stat env picked target_device_ids a =
     (case picked of None \<Rightarrow> (Inr [], a) | Some paths \<Rightarrow> send_chosen E stat env paths target_device_ids a)"

text \<open>Dropped on the window; \<open>of_str\<close> is the path a string names.\<close>

definition cmd_send_file_paths ::
  "('i, 'w) win_env \<Rightarrow> (path \<Rightarrow> file_stat) \<Rightarrow> (nat \<Rightarrow> transfer_env) \<Rightarrow> (str \<Rightarrow> path) \<Rightarrow> str list \<Rightarrow> str list \<Rightarrow> app
     \<Rightarrow> (str + file_entry list) \<times> app" where
  "cmd_send_file_paths E stat env of_str target_device_ids paths a =
     (let paths = pathbufs_from_drag_strings paths
      in if paths = [] then (Inr [], a) else send_chosen E stat env (map of_str paths) target_device_ids a)"

definition cmd_recent_file_transfers :: "(nat \<Rightarrow> nat) \<Rightarrow> app \<Rightarrow> file_entry list \<times> app" where
  "cmd_recent_file_transfers clock a =
     (if ap_poisoned a then ([], a)
      else case recent_file_transfers clock (ap_bridge a) of (es, b) \<Rightarrow> (es, a\<lparr>ap_bridge := b\<rparr>))"

text \<open>\<open>reveal_file\<close>: the explorer is started with the path to select.\<close>

definition reveal_file :: "(str \<Rightarrow> str option) \<Rightarrow> str \<Rightarrow> (str + str) " where
  "reveal_file spawn_error path =
     (let arg = lit ''/select,'' @ path
      in case spawn_error arg of Some e \<Rightarrow> Inl (MSG_EXPLORER @ e) | None \<Rightarrow> Inr arg)"

definition cmd_reveal_file :: "(str \<Rightarrow> bool) \<Rightarrow> (str \<Rightarrow> str option) \<Rightarrow> str \<Rightarrow> str + str" where
  "cmd_reveal_file exists spawn_error path =
     (if \<not> exists path then Inl MSG_NO_FILE else reveal_file spawn_error path)"

section \<open>Runs of the application\<close>

text \<open>
  The commands, the events of the window and the start-up; what happens in the bridge by itself, a
  clipboard change, an arrival, a state of the worker, takes no lock of it. \<open>Panicked\<close> is a panic of a
  command that held the lock.
\<close>

datatype app_event =
    AutoStart cmd_env
  | SavePairing cmd_env str
  | GeneratePairing cmd_env bytes str
  | ClearPairing bool "connection_state list" "panic_payload option"
  | Quit "connection_state list" "panic_payload option"
  | ShowWindow
  | CloseWindow
  | PumpState
  | SaveImage str "str option" "str option"
  | SendImageBytes bytes nat bytes
  | SendImagePaths "str \<Rightarrow> disk_file option" "nat \<Rightarrow> nat \<times> bytes" "str list"
  | SendFiles "path \<Rightarrow> file_stat" "nat \<Rightarrow> transfer_env" "path list option" "str list"
  | ListTransfers "nat \<Rightarrow> nat"
  | ListPeers "nat \<Rightarrow> nat"
  | InBridge bridge_event
  | Panicked

record ('i, 'w) app_env =
  ae_pairing :: pairing_codec
  ae_qr :: "bytes \<Rightarrow> str option"
  ae_win :: "('i, 'w) win_env"

fun app_step :: "('i, 'w) app_env \<Rightarrow> app_event \<Rightarrow> app \<times> 'w \<Rightarrow> app \<times> 'w" where
  "app_step G (AutoStart V) (a, w) = (auto_start (ae_pairing G) (we_name (ae_win G)) V a, w)"
| "app_step G (SavePairing V json) (a, w) =
     (snd (cmd_save_pairing (ae_pairing G) (ae_qr G) (we_name (ae_win G)) V json a), w)"
| "app_step G (GeneratePairing V random uuid) (a, w) =
     (snd (cmd_generate_pairing (ae_pairing G) (ae_qr G) (we_name (ae_win G)) V random uuid a), w)"
| "app_step G (ClearPairing removed late outcome) (a, w) = (snd (cmd_clear_pairing removed late outcome a), w)"
| "app_step G (Quit late outcome) (a, w) = (cmd_quit late outcome a, w)"
| "app_step G ShowWindow (a, w) = (cmd_show_window a, w)"
| "app_step G CloseWindow (a, w) = (close_requested a, w)"
| "app_step G PumpState (a, w) = (pump_state a, w)"
| "app_step G (SaveImage ident chosen failed) (a, w) = (snd (cmd_save_image_to_file ident chosen failed a), w)"
| "app_step G (SendImageBytes nonce ts bytes) (a, w) = snd (cmd_send_image_bytes (ae_win G) nonce ts bytes a w)"
| "app_step G (SendImagePaths disk draws paths) (a, w) = snd (cmd_send_image_paths (ae_win G) disk draws paths a w)"
| "app_step G (SendFiles stat env picked targets) (a, w) =
     (snd (cmd_pick_and_send_files (ae_win G) stat env picked targets a), w)"
| "app_step G (ListTransfers clock) (a, w) = (snd (cmd_recent_file_transfers clock a), w)"
| "app_step G (ListPeers clock) (a, w) = (snd (cmd_lan_file_peers clock a), w)"
| "app_step G (InBridge e) (a, w) =
     (case bridge_step (ae_win G) e (ap_bridge a, w) of (b, w) \<Rightarrow> (a\<lparr>ap_bridge := b\<rparr>, w))"
| "app_step G Panicked (a, w) = (a\<lparr>ap_poisoned := True\<rparr>, w)"

section \<open>What a client is known by\<close>

definition creds :: "client \<Rightarrow> bytes \<times> str \<times> str \<times> str" where
  "creds c = (cl_key c, cl_group c, cl_base c, cl_device_id c)"

abbreviation br_creds :: "bridge \<Rightarrow> (bytes \<times> str \<times> str \<times> str) option" where
  "br_creds b \<equiv> map_option creds (br_client b)"

named_theorems creds_keep

text \<open>No operation of the client changes them; so no event of the bridge does.\<close>

lemma api_send_clip_creds [creds_keep]: "creds (snd (api_send_clip p c)) = creds c"
  by (simp add: api_send_clip_def send_cmd_def creds_def split: prod.splits)

lemma blob_cache_creds [creds_keep]: "creds (c\<lparr>cl_cache := x\<rparr>) = creds c" "creds (c\<lparr>cl_received := y\<rparr>) = creds c"
  by (simp_all add: creds_def)

lemma take_received_creds [creds_keep]: "creds (snd (take_received_files c)) = creds c"
  by (simp add: take_received_files_def creds_def)

lemma send_image_creds [creds_keep]:
  "creds (fst (snd (send_image P enc H nonce img mime wd ht name ts c w))) = creds c"
  by (auto simp: send_image_def send_cmd_def creds_def Let_def split: sum.splits prod.splits)

lemma fetch_image_creds [creds_keep]:
  "creds (fst (snd (fetch_image C connect dec H meta c w))) = creds c"
  by (auto simp: fetch_image_def creds_def Let_def split: sum.splits prod.splits option.splits)

lemma publish_image_creds [creds_keep]:
  "map_option creds (fst (snd (publish_image E nonce png ts client w))) = map_option creds client"
  by (auto simp: publish_image_def case_prod_unfold creds_keep split: option.splits)

lemma try_publish_text_creds [creds_keep]: "br_creds (try_publish_text E now ts s b) = br_creds b"
  by (simp add: try_publish_text_def Let_def option.map_comp comp_def creds_keep)

lemma try_publish_image_creds [creds_keep]: "br_creds (fst (try_publish_image E nonce ts png b w)) = br_creds b"
  using publish_image_creds [of E nonce png ts "br_client b" w]
  by (auto simp: try_publish_image_def Let_def split: option.splits prod.splits sum.splits)

lemma clipboard_change_creds [creds_keep]: "br_creds (fst (handle_clipboard_change E r b w)) = br_creds b"
  by (auto simp: handle_clipboard_change_def creds_keep split: option.splits)

lemma handle_remote_image_creds [creds_keep]: "br_creds (fst (handle_remote_image E connect works p b w)) = br_creds b"
proof (cases "cp_image p"; cases "br_client b")
  fix meta c assume p: "cp_image p = Some meta" and c: "br_client b = Some c"
  obtain r c' w' where f: "fetch_image (we_codec E) connect (we_b64_decode E) (we_http E) meta c w = (r, c', w')"
    by (metis prod_cases3)
  have "creds c' = creds c" using fetch_image_creds [of "we_codec E" connect "we_b64_decode E" "we_http E" meta c w] f by simp
  then show ?thesis using p c f
    by (cases r) (auto simp: handle_remote_image_def show_remote_image_def Let_def split: option.splits prod.splits)
qed (simp_all add: handle_remote_image_def)

lemma send_image_bytes_creds [creds_keep]: "br_creds (fst (snd (send_image_bytes E nonce ts bytes b w))) = br_creds b"
proof (cases "encode_for_wire (we_lib E) bytes")
  case (Some png)
  obtain r client w' where p: "publish_image E nonce png ts (br_client b) w = (r, client, w')" by (metis prod_cases3)
  then have "map_option creds client = br_creds b" using publish_image_creds [of E nonce png ts "br_client b" w] by simp
  then show ?thesis using Some p by (cases r) (simp_all add: send_image_bytes_def Let_def)
qed (simp add: send_image_bytes_def)

lemma send_paths_creds [creds_keep]:
  "br_creds (fst (snd (send_paths_loop E disk draws paths i entries b w))) = br_creds b"
proof (induction paths arbitrary: i entries b w)
  case (Cons path paths)
  show ?case
  proof (cases "normalize_image_file_at_path (we_lib E) disk path")
    case (Some png)
    obtain r client w' where p: "publish_image E (snd (draws i)) png (fst (draws i)) (br_client b) w = (r, client, w')"
      by (metis prod_cases3)
    then have "map_option creds client = br_creds b"
      using publish_image_creds [of E "snd (draws i)" png "fst (draws i)" "br_client b" w] by simp
    then show ?thesis using Some p by (cases r) (simp_all add: Let_def Cons.IH)
  qed (simp add: Cons.IH)
qed simp

lemma send_image_paths_creds [creds_keep]: "br_creds (fst (snd (send_image_paths E disk draws paths b w))) = br_creds b"
  using send_paths_creds [of E disk draws "supported_drag_image_paths paths" 0 "[]" b w]
  by (auto simp: send_image_paths_def Let_def split: prod.splits sum.splits)

lemma store_files_creds [creds_keep]: "br_creds (fold store_file es b) = br_creds b"
  by (induction es arbitrary: b) simp_all

lemma send_all_client:
  "br_client (snd (fold (send_one C client names stat) ts s)) = br_client (snd s)"
  by (induction ts arbitrary: s) (simp_all add: send_one_def Let_def case_prod_unfold)

lemma send_files_creds [creds_keep]: "br_creds (snd (send_files_to_peers C stat env paths ids b)) = br_creds b"
  by (cases "br_client b") (simp_all add: send_files_to_peers_def Let_def case_prod_unfold send_all_client)

lemma recent_transfers_creds [creds_keep]: "br_creds (snd (recent_file_transfers clock b)) = br_creds b"
  by (cases "br_client b")
    (simp_all add: recent_file_transfers_def drain_received_files_def take_received_files_def Let_def creds_keep)

lemma lan_file_peers_creds [creds_keep]: "br_creds (snd (lan_file_peers clock b)) = br_creds b"
  by (cases "br_client b")
    (simp_all add: lan_file_peers_def drain_received_files_def take_received_files_def Let_def creds_keep)

lemma bridge_step_creds [creds_keep]: "br_creds (fst (bridge_step E e s)) = br_creds (fst s)"
proof (cases e; cases s)
  fix connect works now p b w assume "e = Arrived connect works now p" "s = (b, w)"
  then show ?thesis using handle_remote_image_creds [of E connect works p b w]
    by (cases "cp_kind p") (simp_all add: on_clip_def)
qed (simp_all add: creds_keep bridge_on_state_def show_state_def)

section \<open>The bridge runs what is stored\<close>

text \<open>The libraries: JSON and base64url read back what they wrote.\<close>

definition pairing_codec_contract :: "pairing_codec \<Rightarrow> bool" where
  "pairing_codec_contract P \<longleftrightarrow>
     (\<forall>cfg. \<exists>json. pk_to_json P cfg = Inr json \<and> pk_from_json P json = Inr cfg)
     \<and> (\<forall>b. pk_b64_decode P (pk_b64_encode P b) = Some b)"

definition runs_as :: "pairing_codec \<Rightarrow> pairing_config \<Rightarrow> client \<Rightarrow> bool" where
  "runs_as P cfg c \<longleftrightarrow>
     pk_b64_decode P (pc_key cfg) = Some (cl_key c) \<and> cl_group c = pc_group_id cfg
     \<and> cl_base c = http_base (pc_relay_url cfg)"

definition known_as :: "store_disk \<Rightarrow> client \<Rightarrow> bool" where
  "known_as d c \<longleftrightarrow> (\<forall>t. sd_device_id d = HoldsText t \<and> trim t \<noteq> [] \<longrightarrow> cl_device_id c = trim t)"

definition app_inv :: "pairing_codec \<Rightarrow> app \<Rightarrow> bool" where
  "app_inv P a \<longleftrightarrow> ap_poisoned a \<or>
     (\<forall>c. br_client (ap_bridge a) = Some c \<longrightarrow>
        known_as (ap_disk a) c \<and> (\<exists>cfg. store_load P (ap_disk a) = Some cfg \<and> runs_as P cfg c))"

text \<open>A write that fails leaves the file as it was, and a UUID has no blanks.\<close>

definition intact :: "store_disk \<Rightarrow> cmd_env \<Rightarrow> bool" where
  "intact d V \<longleftrightarrow>
     (\<forall>e left. ce_save V = WriteError e left \<longrightarrow> left = sd_pairing d)
     \<and> (\<forall>e left. ce_id_write V = WriteError e left \<longrightarrow> left = sd_device_id d)
     \<and> trim (ce_uuid V) = ce_uuid V \<and> ce_uuid V \<noteq> []"

definition event_intact :: "app_event \<Rightarrow> app \<Rightarrow> bool" where
  "event_intact ev a \<longleftrightarrow>
     (case ev of AutoStart V \<Rightarrow> intact (ap_disk a) V | SavePairing V _ \<Rightarrow> intact (ap_disk a) V
      | GeneratePairing V _ _ \<Rightarrow> intact (ap_disk a) V | _ \<Rightarrow> True)"

inductive app_reach :: "('i, 'w) app_env \<Rightarrow> app \<times> 'w \<Rightarrow> bool" for G where
  launched: "app_reach G (app_new d, w)"
| stepped: "app_reach G s \<Longrightarrow> event_intact ev (fst s) \<Longrightarrow> app_reach G (app_step G ev s)"

lemma store_device_id_spec:
  assumes "trim uuid = uuid" "uuid \<noteq> []" "\<And>e left. outcome = WriteError e left \<Longrightarrow> left = sd_device_id d"
    and "store_device_id uuid outcome d = (ident, d')"
  shows "sd_pairing d' = sd_pairing d \<and> (\<forall>t. sd_device_id d' = HoldsText t \<and> trim t \<noteq> [] \<longrightarrow> ident = trim t)"
  using assms
  by (auto simp: store_device_id_def write_text_def Let_def split: disk_text.splits write_outcome.splits if_splits)

text \<open>Once a device id has been written, every later call answers it.\<close>

lemma device_id_sticky:
  assumes "trim uuid = uuid" "uuid \<noteq> []" "store_device_id uuid WriteDone d = (ident, d')"
  shows "store_device_id uuid' outcome d' = (ident, d')"
  using assms
  by (auto simp: store_device_id_def write_text_def Let_def split: disk_text.splits if_splits)

lemma bridge_start_client:
  assumes "bridge_start dec name S cfg b = (r, b')" and "br_client b' = Some c"
  shows "r = Inr () \<and> dec (pc_key cfg) = Some (cl_key c) \<and> length (cl_key c) = KEY_LEN \<and> cl_group c = pc_group_id cfg
     \<and> cl_base c = http_base (pc_relay_url cfg) \<and> cl_device_id c = se_device_id S"
  using assms bridge_stop_spec [of "se_late S" "se_outcome S" b]
  by (auto simp: bridge_start_def spawn_clipboard_handler_def spawn_poller_def Let_def key_bytes_def client_new_def
      set_file_receive_dir_def split: option.splits sum.splits if_splits)

lemma start_bridge_spec:
  assumes run: "start_bridge P name V cfg a = (r, a')" and env: "intact (ap_disk a) V"
  shows "ap_poisoned a' = ap_poisoned a \<and> sd_pairing (ap_disk a') = sd_pairing (ap_disk a)
     \<and> (\<forall>c. br_client (ap_bridge a') = Some c \<longrightarrow> runs_as P cfg c \<and> known_as (ap_disk a') c)"
proof (cases "key_bytes (pk_b64_decode P) cfg")
  case None
  then show ?thesis
    using run bridge_stop_spec by (auto simp: start_bridge_def bridge_start_def Let_def)
next
  case (Some key)
  obtain ident d where ident: "store_device_id (ce_uuid V) (ce_id_write V) (ap_disk a) = (ident, d)" by fastforce
  obtain r1 b where start: "bridge_start (pk_b64_decode P) name ((ce_start V)\<lparr>se_device_id := ident\<rparr>) cfg (ap_bridge a) = (r1, b)"
    by fastforce
  have a': "a' = a\<lparr>ap_bridge := b, ap_disk := d\<rparr>"
    using run Some ident start by (simp add: start_bridge_def)
  have "sd_pairing d = sd_pairing (ap_disk a) \<and> (\<forall>t. sd_device_id d = HoldsText t \<and> trim t \<noteq> [] \<longrightarrow> ident = trim t)"
    by (rule store_device_id_spec [OF _ _ _ ident]) (use env in \<open>auto simp: intact_def\<close>)
  then show ?thesis using a' bridge_start_client [OF start] by (auto simp: runs_as_def known_as_def)
qed

lemma lock_and_start_inv:
  assumes "lock_and_start P name V cfg a = (r, a')" and "intact (ap_disk a) V" and "store_load P (ap_disk a) = Some cfg"
  shows "app_inv P a'"
proof (cases "ap_poisoned a")
  case False
  with assms have run: "start_bridge P name V cfg a = (r, a')" by (simp add: lock_and_start_def)
  have "store_load P (ap_disk a') = store_load P (ap_disk a)"
    using start_bridge_spec [OF run assms(2)] by (simp add: store_load_def)
  then show ?thesis using start_bridge_spec [OF run assms(2)] assms(3) by (simp add: app_inv_def)
qed (use assms in \<open>simp add: lock_and_start_def app_inv_def\<close>)

lemma save_and_start_inv:
  assumes codec: "pairing_codec_contract P" and run: "save_and_start P name V cfg a = (r, a')"
    and env: "intact (ap_disk a) V" and inv: "app_inv P a"
  shows "app_inv P a'"
proof -
  from codec obtain json where json: "pk_to_json P cfg = Inr json" "pk_from_json P json = Inr cfg"
    by (auto simp: pairing_codec_contract_def)
  show ?thesis
  proof (cases "ce_save V")
    case WriteDone
    let ?d = "(ap_disk a)\<lparr>sd_pairing := HoldsText json\<rparr>"
    have "lock_and_start P name V cfg (a\<lparr>ap_disk := ?d\<rparr>) = (r, a')"
      using run WriteDone json by (simp add: save_and_start_def store_save_def write_text_def)
    then show ?thesis
      by (rule lock_and_start_inv) (use env json WriteDone in \<open>auto simp: intact_def store_load_def\<close>)
  next
    case (WriteError e left)
    then have "a' = a" using run env json by (auto simp: save_and_start_def store_save_def write_text_def intact_def)
    then show ?thesis using inv by simp
  qed
qed

lemma stop_inv: "br_client (ap_bridge a') = None \<Longrightarrow> app_inv P a'"
  by (simp add: app_inv_def)

lemma same_client_inv:
  assumes "app_inv P a" "br_creds (ap_bridge a') = br_creds (ap_bridge a)" "ap_disk a' = ap_disk a"
    and "ap_poisoned a' = ap_poisoned a"
  shows "app_inv P a'"
proof (cases "br_client (ap_bridge a')")
  case (Some c')
  then obtain c where "br_client (ap_bridge a) = Some c" "creds c = creds c'"
    using assms(2) by (cases "br_client (ap_bridge a)") auto
  then show ?thesis using Some assms by (auto simp: app_inv_def creds_def runs_as_def known_as_def)
qed (rule stop_inv)

lemma app_step_inv:
  assumes codec: "pairing_codec_contract (ae_pairing G)" and inv: "app_inv (ae_pairing G) a"
    and env: "event_intact ev a"
  shows "app_inv (ae_pairing G) (fst (app_step G ev (a, w)))"
proof (cases ev)
  case (AutoStart V)
  show ?thesis
  proof (cases "store_load (ae_pairing G) (ap_disk a)")
    case (Some cfg)
    obtain r a' where run: "lock_and_start (ae_pairing G) (we_name (ae_win G)) V cfg a = (r, a')" by fastforce
    have "app_inv (ae_pairing G) a'"
      by (rule lock_and_start_inv [OF run _ Some]) (use env AutoStart in \<open>simp add: event_intact_def\<close>)
    then show ?thesis using Some run inv AutoStart by (simp add: auto_start_def)
  qed (use inv AutoStart in \<open>simp add: auto_start_def show_main_window_def app_inv_def\<close>)
next
  case (SavePairing V json)
  show ?thesis
  proof (cases "pk_from_json (ae_pairing G) json")
    case (Inr cfg)
    obtain r a' where run: "save_and_start (ae_pairing G) (we_name (ae_win G)) V cfg a = (r, a')" by fastforce
    have "app_inv (ae_pairing G) a'"
      using save_and_start_inv [OF codec run _ inv] env SavePairing by (simp add: event_intact_def)
    then show ?thesis using Inr run inv SavePairing by (cases r) (simp_all add: cmd_save_pairing_def)
  qed (use inv SavePairing in \<open>simp add: cmd_save_pairing_def\<close>)
next
  case (GeneratePairing V random uuid)
  obtain r a' where run:
    "save_and_start (ae_pairing G) (we_name (ae_win G)) V (make_new (ae_pairing G) random uuid) a = (r, a')" by fastforce
  have "app_inv (ae_pairing G) a'"
    using save_and_start_inv [OF codec run _ inv] env GeneratePairing by (simp add: event_intact_def)
  then show ?thesis using run GeneratePairing by (cases r) (simp_all add: cmd_generate_pairing_def)
next
  case (ClearPairing removed late outcome)
  then show ?thesis
    using bridge_stop_spec by (cases "ap_poisoned a") (simp_all add: cmd_clear_pairing_def Let_def app_inv_def)
next
  case (Quit late outcome)
  then show ?thesis
    using bridge_stop_spec by (cases "ap_poisoned a") (simp_all add: cmd_quit_def quit_app_def app_inv_def)
next
  case PumpState
  then show ?thesis using inv by (simp add: pump_state_def Let_def app_inv_def)
next
  case (SaveImage ident chosen failed)
  then show ?thesis using inv
    by (auto simp: cmd_save_image_to_file_def app_inv_def split: option.splits)
next
  case (SendImageBytes nonce ts bytes)
  then show ?thesis
    by (intro same_client_inv [OF inv]) (auto simp: cmd_send_image_bytes_def case_prod_unfold creds_keep)
next
  case (SendImagePaths disk draws paths)
  then show ?thesis
    by (intro same_client_inv [OF inv]) (auto simp: cmd_send_image_paths_def case_prod_unfold creds_keep)
next
  case (SendFiles stat env picked targets)
  then show ?thesis
    by (intro same_client_inv [OF inv])
      (auto simp: cmd_pick_and_send_files_def send_chosen_def case_prod_unfold creds_keep split: option.splits)
next
  case (ListTransfers clock)
  then show ?thesis
    by (intro same_client_inv [OF inv]) (auto simp: cmd_recent_file_transfers_def case_prod_unfold creds_keep)
next
  case (ListPeers clock)
  then show ?thesis
    by (intro same_client_inv [OF inv]) (auto simp: cmd_lan_file_peers_def case_prod_unfold creds_keep)
next
  case (InBridge e)
  then show ?thesis
    using bridge_step_creds [of "ae_win G" e "(ap_bridge a, w)"]
    by (intro same_client_inv [OF inv]) (simp_all add: case_prod_unfold)
next
  case Panicked
  then show ?thesis by (simp add: app_inv_def)
qed (use inv in \<open>simp_all add: cmd_show_window_def show_main_window_def close_requested_def app_inv_def\<close>)

lemma app_reach_inv:
  "app_reach G s \<Longrightarrow> pairing_codec_contract (ae_pairing G) \<Longrightarrow> app_inv (ae_pairing G) (fst s)"
proof (induction rule: app_reach.induct)
  case (launched d w)
  then show ?case by (simp add: app_inv_def app_new_def bridge_new_def)
next
  case (stepped s ev)
  then show ?case using app_step_inv [of G "fst s" ev "snd s"] by simp
qed

lemma save_and_start_ok:
  assumes codec: "pairing_codec_contract P" and env: "intact (ap_disk a) V"
    and run: "save_and_start P name V cfg a = (Inr u, a')"
  shows "store_load P (ap_disk a') = Some cfg
     \<and> (\<exists>c. br_client (ap_bridge a') = Some c \<and> runs_as P cfg c \<and> length (cl_key c) = KEY_LEN)"
proof -
  from codec obtain json where json: "pk_to_json P cfg = Inr json" "pk_from_json P json = Inr cfg"
    by (auto simp: pairing_codec_contract_def)
  let ?d = "(ap_disk a)\<lparr>sd_pairing := HoldsText json\<rparr>"
  have save: "ce_save V = WriteDone"
    using run json by (cases "ce_save V") (auto simp: save_and_start_def store_save_def write_text_def)
  then have start: "start_bridge P name V cfg (a\<lparr>ap_disk := ?d\<rparr>) = (Inr u, a')"
    using run json by (auto simp: save_and_start_def store_save_def write_text_def lock_and_start_def split: if_splits)
  obtain S b where "bridge_start (pk_b64_decode P) name S cfg (ap_bridge a) = (Inr u, b)" "ap_bridge a' = b"
    using start by (auto simp: start_bridge_def Let_def split: prod.splits)
  then have "\<exists>c. br_client (ap_bridge a') = Some c \<and> length (cl_key c) = KEY_LEN"
    using bridge_start_spec [where dec = "pk_b64_decode P" and name = name and S = S and cfg = cfg and b = "ap_bridge a"]
    by auto
  moreover have "intact (ap_disk (a\<lparr>ap_disk := ?d\<rparr>)) V" using env save by (simp add: intact_def)
  ultimately show ?thesis
    using start_bridge_spec [OF start] json by (auto simp: store_load_def)
qed

lemma save_and_start_works:
  assumes codec: "pairing_codec_contract P" and key: "pk_b64_decode P (pc_key cfg) = Some key" "length key = KEY_LEN"
    and works: "ce_save V = WriteDone" "se_http_error (ce_start V) = None" "se_spawn_error (ce_start V) = None"
      "\<not> ap_poisoned a"
  shows "\<exists>a'. save_and_start P name V cfg a = (Inr (), a')"
proof -
  from codec obtain json where json: "pk_to_json P cfg = Inr json" by (auto simp: pairing_codec_contract_def)
  have "\<exists>b'. bridge_start (pk_b64_decode P) name ((ce_start V)\<lparr>se_device_id := ident\<rparr>) cfg b = (Inr (), b')" for ident b
    using key works by (simp add: bridge_start_def key_bytes_def client_new_def Let_def)
  then have "\<exists>a''. start_bridge P name V cfg a' = (Inr (), a'')" for a'
    by (fastforce simp: start_bridge_def case_prod_unfold Let_def prod_eq_iff)
  then show ?thesis
    using works json by (auto simp: save_and_start_def store_save_def write_text_def lock_and_start_def)
qed

text \<open>A concrete codec and surroundings, for the witnesses.\<close>

definition demo_pairing :: pairing_codec where
  "demo_pairing =
     \<lparr>pk_to_json = (\<lambda>cfg. Inr (length (pc_relay_url cfg) # length (pc_group_id cfg) # pc_relay_url cfg @ pc_group_id cfg @ pc_key cfg)),
      pk_from_json = (\<lambda>s. case s of
         m # n # r \<Rightarrow> Inr \<lparr>pc_relay_url = take m r, pc_group_id = take n (drop m r), pc_key = drop (m + n) r\<rparr>
       | _ \<Rightarrow> Inl []),
      pk_b64_encode = map unat, pk_b64_decode = (\<lambda>s. Some (map word_of_nat s))\<rparr>"

definition demo_cmd_env :: cmd_env where
  "demo_cmd_env =
     \<lparr>ce_start = \<lparr>se_late = [], se_outcome = None, se_device_id = [], se_http_error = None, se_spawn_error = None,
        se_receive_dir = [], se_dir_made = True, se_native = Inl []\<rparr>,
      ce_save = WriteDone, ce_uuid = [117], ce_id_write = WriteDone\<rparr>"

definition demo_app :: "(bytes, unit) app_env" where
  "demo_app = \<lparr>ae_pairing = demo_pairing, ae_qr = (\<lambda>_. None), ae_win = demo_env\<rparr>"

definition demo_disk :: store_disk where
  "demo_disk = \<lparr>sd_pairing = NoFile, sd_device_id = NoFile\<rparr>"

lemma demo_pairing_contract: "pairing_codec_contract demo_pairing"
proof -
  have "map (word_of_nat \<circ> unat) b = b" for b :: bytes by (induction b) simp_all
  then show ?thesis by (simp add: pairing_codec_contract_def demo_pairing_def)
qed

lemma demo_intact: "intact d demo_cmd_env"
  by (simp add: intact_def demo_cmd_env_def trim_def trim_where_def is_whitespace_def)

lemma demo_generates:
  "\<exists>a. save_and_start demo_pairing name demo_cmd_env (make_new demo_pairing (replicate 32 7) [71]) (app_new d) = (Inr (), a)"
  by (rule save_and_start_works [OF demo_pairing_contract, where key = "replicate 32 7"])
    (simp_all add: demo_pairing_def make_new_def KEY_LEN_def demo_cmd_env_def app_new_def)

text \<open>
  C39: The bridge runs what is stored. Whatever the commands, window events and clipboard events since
  the application was launched, and in whatever order, a running client has the group, the key and
  the relay of the pairing configuration that the store would load now, so that the next launch
  resumes the same pairing, and the device id of the store. It needs writes that fail to leave the
  file as it was, and a lock that no panic has poisoned.
\<close>

theorem app_runs_as_paired:
  assumes "pairing_codec_contract (ae_pairing G)" and "app_reach G (a, w)" and "\<not> ap_poisoned a"
    and "br_client (ap_bridge a) = Some c"
  shows "known_as (ap_disk a) c
     \<and> (\<exists>cfg. store_load (ae_pairing G) (ap_disk a) = Some cfg \<and> runs_as (ae_pairing G) cfg c)"
  using app_reach_inv [OF assms(2,1)] assms(3,4) by (simp add: app_inv_def)

theorem app_runs_as_paired_witness:
  "\<exists>a c. app_reach demo_app (a, ()) \<and> br_client (ap_bridge a) = Some c \<and> known_as (ap_disk a) c
     \<and> (\<exists>cfg. store_load demo_pairing (ap_disk a) = Some cfg \<and> runs_as demo_pairing cfg c)"
proof -
  obtain a where a: "save_and_start demo_pairing (we_name demo_env) demo_cmd_env (make_new demo_pairing (replicate 32 7) [71])
      (app_new demo_disk) = (Inr (), a)"
    using demo_generates by blast
  have "app_step demo_app (GeneratePairing demo_cmd_env (replicate 32 7) [71]) (app_new demo_disk, ()) = (a, ())"
    using a by (simp add: demo_app_def cmd_generate_pairing_def)
  then have reach: "app_reach demo_app (a, ())"
    using stepped [OF launched [of demo_app demo_disk "()"], of "GeneratePairing demo_cmd_env (replicate 32 7) [71]"] demo_intact
    by (simp add: event_intact_def)
  obtain c where c: "br_client (ap_bridge a) = Some c"
    using save_and_start_ok [OF demo_pairing_contract demo_intact a] by blast
  have "\<not> ap_poisoned a"
    using a demo_intact by (auto simp: save_and_start_def lock_and_start_def store_save_def app_new_def write_text_def
        demo_cmd_env_def demo_pairing_def start_bridge_def split: prod.splits)
  then show ?thesis
    using app_runs_as_paired [where G = demo_app and a = a and w = "()" and c = c] reach c demo_pairing_contract by (auto simp: demo_app_def)
qed

text \<open>
  C40: Two devices that share the text of a pairing are in one group. When one device generates a
  pairing, the text it shows, saved on another device whose disk and client work, starts a client of
  the same relay, group and key there; both then show that text and its code whenever they are
  asked.
\<close>

theorem paired_devices_agree:
  assumes codec: "pairing_codec_contract P" and uuid: "uuid \<noteq> []"
    and made: "cmd_generate_pairing P qr nameA VA random uuid a = (Inr dto, a')"
    and works: "ce_save VB = WriteDone" "se_http_error (ce_start VB) = None" "se_spawn_error (ce_start VB) = None"
      "\<not> ap_poisoned b"
    and joined: "cmd_save_pairing P qr nameB VB (pd_json dto) b = (res, b')"
    and ids: "intact (ap_disk a) VA" "intact (ap_disk b) VB"
  shows "res = Inr dto \<and> cmd_load_pairing P qr a' = Some dto \<and> cmd_load_pairing P qr b' = Some dto
     \<and> (\<exists>cA cB. br_client (ap_bridge a') = Some cA \<and> br_client (ap_bridge b') = Some cB
          \<and> cl_key cA = cl_key cB \<and> cl_group cA = cl_group cB \<and> cl_base cA = cl_base cB)"
proof -
  let ?cfg = "make_new P random uuid"
  from codec obtain json where json: "pk_to_json P ?cfg = Inr json" "pk_from_json P json = Inr ?cfg"
    by (auto simp: pairing_codec_contract_def)
  have a: "save_and_start P nameA VA ?cfg a = (Inr (), a')" and dto: "dto = dto_of qr json"
    using made json by (auto simp: cmd_generate_pairing_def Let_def json_or_def split: sum.splits prod.splits)
  from save_and_start_ok [OF codec ids(1) a] obtain cA where
    A: "store_load P (ap_disk a') = Some ?cfg" "br_client (ap_bridge a') = Some cA" "runs_as P ?cfg cA" "length (cl_key cA) = KEY_LEN"
    by blast
  have key: "pk_b64_decode P (pc_key ?cfg) = Some (cl_key cA)" using A(3) by (simp add: runs_as_def)
  from save_and_start_works [OF codec key A(4) works] obtain b1 where
    b: "save_and_start P nameB VB ?cfg b = (Inr (), b1)" by blast
  have valid: "is_valid P ?cfg"
    using key A(4) uuid by (simp add: is_valid_def key_bytes_def make_new_def DEFAULT_RELAY_URL_def lit_def KEY_LEN_def)
  have B: "res = Inr dto" "b' = b1"
    using joined dto json valid b by (simp_all add: cmd_save_pairing_def dto_of_def json_or_def)
  from save_and_start_ok [OF codec ids(2) b] obtain cB where
    "store_load P (ap_disk b') = Some ?cfg" "br_client (ap_bridge b') = Some cB" "runs_as P ?cfg cB"
    using B by blast
  then show ?thesis
    using A B dto json by (auto simp: cmd_load_pairing_def json_or_def runs_as_def)
qed

theorem paired_devices_agree_witness:
  "\<exists>dto a' b'. fst (cmd_generate_pairing demo_pairing (\<lambda>_. None) [] demo_cmd_env (replicate 32 7) [71] (app_new demo_disk)) = Inr dto
     \<and> cmd_save_pairing demo_pairing (\<lambda>_. None) [] demo_cmd_env (pd_json dto) (app_new demo_disk) = (Inr dto, b')
     \<and> cmd_load_pairing demo_pairing (\<lambda>_. None) b' = Some dto"
proof -
  obtain a where a: "save_and_start demo_pairing [] demo_cmd_env (make_new demo_pairing (replicate 32 7) [71])
      (app_new demo_disk) = (Inr (), a)"
    using demo_generates by blast
  then obtain dto where made:
    "cmd_generate_pairing demo_pairing (\<lambda>_. None) [] demo_cmd_env (replicate 32 7) [71] (app_new demo_disk) = (Inr dto, a)"
    by (simp add: cmd_generate_pairing_def)
  obtain res b' where joined:
    "cmd_save_pairing demo_pairing (\<lambda>_. None) [] demo_cmd_env (pd_json dto) (app_new demo_disk) = (res, b')" by fastforce
  show ?thesis
    using paired_devices_agree [OF demo_pairing_contract _ made _ _ _ _ joined demo_intact demo_intact] made joined
    by (simp add: demo_cmd_env_def app_new_def)
qed

end
