(* ===== verification/Spec2Isabelle.thy ===== *)
theory Spec2Isabelle
  imports RelayMain ClientApi LanNode WinApp
begin

text \<open>
  A verification library for ClipBridge, a clipboard that devices of one group share. It models the
  Rust code of the repository: the core library (\<^verbatim>\<open>src/core\<close>), the relay server (\<^verbatim>\<open>src/relay\<close>) and
  the Windows application (\<^verbatim>\<open>src/clients/windows\<close>).

  The program. Each device runs a client. Its worker keeps a WebSocket session with the relay and a
  LAN node that finds and dials the other devices of the group. A clip that is copied is sealed under
  the group key and published to the relay, which forwards it to the other connections of the group and
  keeps the last three; the same clip goes to the LAN sessions. A receiver drops what it has seen, opens
  the rest and hands it to the host, which writes it to the system clipboard and must not send it
  back. Images travel as blobs beside the clip: uploaded to the relay's blob store, cached by their
  sender, and fetched from a LAN peer or the relay. Files travel on a LAN stream of their own.

  The theories, in the order in which they build on each other, and the code they translate:

  \<^item> \<open>Prelude\<close>: strings as lists of Unicode scalar values, byte strings, Rust's string functions,
    results, association lists; the interfaces \<open>machine\<close> (an invariant over runs) and \<open>bounded_log\<close> (a
    queue that drops its oldest entry), which the components below interpret.
  \<^item> \<open>Net\<close>: addresses at their width, their parsing and printing.
  \<^item> \<open>Crypto\<close>: \<^verbatim>\<open>core/src/crypto.rs\<close> and the key of \<^verbatim>\<open>core/src/group.rs\<close>. \<open>Protocol\<close>: the messages of
    \<^verbatim>\<open>core/src/protocol.rs\<close>.
  \<^item> \<open>FileTransfer\<close>: \<^verbatim>\<open>core/src/file_transfer.rs\<close>: file names, destinations, the incoming and the outgoing
    file over an explicit file system whose calls may fail.
  \<^item> \<open>LanFrame\<close>, \<open>LanTransfer\<close>, \<open>BlobCache\<close>, \<open>LanPeers\<close>, \<open>LanNode\<close>: \<^verbatim>\<open>core/src/lan.rs\<close>: the sealed frames,
    the file and blob transfers on a stream, the cache of ciphertexts, discovery and the peer maps,
    the peer session, the registry of live sessions, the wait for a flag, the node's life cycle.
  \<^item> \<open>Dedup\<close>, \<open>ClientSession\<close>, \<open>ClientRun\<close>, \<open>ClientApi\<close>: \<^verbatim>\<open>core/src/client.rs\<close> and \<^verbatim>\<open>core/src/blob.rs\<close>: the
    dedup cache, one relay session, the worker's loop with its backoff and standby, what a host
    calls.
  \<^item> \<open>Stores\<close>, \<open>RelayBlob\<close>: \<^verbatim>\<open>relay/src/blob.rs\<close>, \<^verbatim>\<open>blob_routes.rs\<close>, \<^verbatim>\<open>lib.rs\<close>: the blob store with its time
    to live and its budget, the two HTTP routes. \<open>RelayHub\<close>: \<^verbatim>\<open>relay/src/hub.rs\<close>: recent clips and
    rendezvous. \<open>RelayWs\<close>: \<^verbatim>\<open>relay/src/ws.rs\<close>: the connections. \<open>RelayMain\<close>: \<^verbatim>\<open>relay/src/main.rs\<close>: the start
    from the environment, and the process as the interleaving of requests and connections.
  \<^item> \<open>WinListener\<close>: \<^verbatim>\<open>clipboard_listener.rs\<close>; \<open>WinImage\<close>, \<open>WinBridge\<close>: \<^verbatim>\<open>bridge.rs\<close>; \<open>WinApp\<close>: \<^verbatim>\<open>pairing.rs\<close> and
    \<^verbatim>\<open>main.rs\<close>, all of the Windows client.
  \<^item> This theory: what spans the three programs, an image through the relay, a copied text from one
    device's clipboard to another's, by the relay and by the LAN, a file from one host to another, and a
    copied image from one device's cache to another's clipboard.

  How the code corresponds to the model. A struct is a \<open>record\<close> with its fields in their order, an enum
  a \<open>datatype\<close>, a \<open>HashMap\<close> an association list with distinct keys, a \<open>VecDeque\<close> a list with its front
  first, a \<open>Result\<close> a sum with the error on the left; a panic is a value of its own where it can
  happen. A function that changes state takes the state and returns it. A mutex makes one operation
  atomic, so operations are the steps of the interleavings. A loop over a \<open>select!\<close> takes the list of the
  branches that are ready, in their order, each with the clock and the flags it reads; a \<open>biased\<close>
  select and the deadlines decide which branches may run. Times are milliseconds. Connections and
  sockets are what was read from them and what was written to them; a write may fail where the code
  handles it.

  What the groups of lemmas show.

  \<^item> Content: files and blobs arrive as they were sent, a receive leaves a new checked file or nothing
    (\<open>LanTransfer\<close>); frames are read back in order, and only what a member sealed is accepted
    (\<open>LanFrame\<close>, \<open>LanNode\<close>); names are safe and destinations free (\<open>FileTransfer\<close>).
  \<^item> Stores: both content-addressed stores keep their bounds over every run of requests, and what was
    stored is found until its time or its turn is over (\<open>RelayBlob\<close>, \<open>BlobCache\<close>, by \<open>content_store\<close>).
  \<^item> Delivery: clips stay in their group and under their sender's id, are not sent back to it, reach the
    listener once over both transports and only when the group key opens them (\<open>RelayWs\<close>, \<open>ClientSession\<close>,
    \<open>ClientRun\<close>); a session sends nothing but ciphertext and its group's messages, by \<open>session_invariant\<close>.
  \<^item> Liveness: silent sessions end by their deadlines, backoff is bounded, a waiter for a flag returns
    under any interleaving, a dropped listener stops, every file transfer settles.
  \<^item> Peers: the peer maps after a snapshot, one initiator for each pair of devices, the registry and its
    count, the node across suspend and resume (\<open>LanPeers\<close>, \<open>LanNode\<close>).
  \<^item> Windows: encodings within the limit, bounded histories, no echo of texts and images, a raw pointer
    that is never used when dead, and a running client that is always that of the stored pairing.

  Bounds and fuel. The bounds are those of the source (clips in the cache, blobs, frames, hashes,
  histories, candidates). Loops are structural, or end by a measure on what is left to read. Only
  \<open>wait_until_flag\<close> counts its steps; its theorem gives a number of steps that is always enough once
  the flag has its value. A script of events that ends leaves the loop running, which the result
  shows.

  Parameters, because their code is not in the repository: SHA-256, the AEAD, base64, JSON, the
  random generator and UUIDs, the HTTP library, mDNS, the image library, the QR renderer, the file
  dialogs and the calls into Windows. What the theorems rely on of them are named hypotheses:
  \<open>aead_contract\<close>, \<open>sha_contract\<close>, \<open>pairing_codec_contract\<close>, \<open>def_proc_contract\<close>, and round trips of the
  encoders; each has a concrete instance in the witnesses.

  Not modelled: logging; the mDNS daemon's own threads; the tray menu and the widgets; the generated bindings; a panic inside a callback
  of the clipboard listener; memory exhaustion; a peer that stalls for ever where the code sets no
  deadline. The clients for other systems are not written in Rust.
\<close>

section \<open>An image through the relay\<close>

text \<open>
  The HTTP library of a client that reaches the relay: a request for the URL of a blob is answered as
  the relay's router answers it, for groups and digests without a slash.
\<close>

definition reaches_relay :: "prims \<Rightarrow> nat \<Rightarrow> str \<Rightarrow> blob_store http \<Rightarrow> bool" where
  "reaches_relay P now base H \<longleftrightarrow>
     (\<forall>g s body w. 47 \<notin> set g \<longrightarrow> 47 \<notin> set s \<longrightarrow>
        (\<exists>t. http_put H (blob_url base g s) body w =
           (case relay_app P now (PutBlob g s body) w of (r, w') \<Rightarrow>
              (Inr \<lparr>hr_status = http_status r, hr_bytes = Inr (http_body r), hr_text = t\<rparr>, w')))
        \<and> (\<exists>t. http_get H (blob_url base g s) w =
           (case relay_app P now (GetBlob g s) w of (r, w') \<Rightarrow>
              (Inr \<lparr>hr_status = http_status r, hr_bytes = Inr (http_body r), hr_text = t\<rparr>, w'))))"

lemma reaches_put:
  assumes "reaches_relay P now base H" "47 \<notin> set g" "47 \<notin> set s" "relay_app P now (PutBlob g s body) w = (r, w')"
  shows "upload H base g s body w =
    (if http_status r = 204 \<or> http_status r = 200 then Inr ()
     else fst (upload H base g s body w), w')"
proof -
  obtain t where "http_put H (blob_url base g s) body w =
      (Inr \<lparr>hr_status = http_status r, hr_bytes = Inr (http_body r), hr_text = t\<rparr>, w')"
    using assms(1) [unfolded reaches_relay_def, rule_format, OF assms(2,3), of body w] assms(4) by auto
  then show ?thesis by (simp add: upload_def)
qed

lemma reaches_get:
  assumes "reaches_relay P now base H" "47 \<notin> set g" "47 \<notin> set s"
    "relay_app P now (GetBlob g s) w = (Response 200 b, w')"
  shows "download H base g s w = (Inr b, w')"
proof -
  obtain t where "http_get H (blob_url base g s) w =
      (Inr \<lparr>hr_status = 200, hr_bytes = Inr b, hr_text = t\<rparr>, w')"
    using assms(1) [unfolded reaches_relay_def, rule_format, OF assms(2,3), of _ w] assms(4) by auto
  then show ?thesis by (simp add: download_def)
qed

lemma sha_no_slash: "47 \<notin> set (sha256_hex P b)"
  using sha256_hex_lower [of P b] by (auto simp: list_all_iff is_lower_hex_def is_ascii_digit_def)


definition demo_http :: "prims \<Rightarrow> nat \<Rightarrow> str \<Rightarrow> blob_store http" where
  "demo_http P now base =
     (let route = (\<lambda>url. Option.bind (strip_prefix (base @ lit ''/blob/'') url) (split_once 47));
          reply = (\<lambda>(r, w). (Inr \<lparr>hr_status = http_status r, hr_bytes = Inr (http_body r), hr_text = Inr []\<rparr>, w))
      in \<lparr>http_put = (\<lambda>url body w. case route url of
              Some (g, s) \<Rightarrow> reply (relay_app P now (PutBlob g s body) w) | None \<Rightarrow> (Inl [], w)),
          http_get = (\<lambda>url w. case route url of
              Some (g, s) \<Rightarrow> reply (relay_app P now (GetBlob g s) w) | None \<Rightarrow> (Inl [], w))\<rparr>)"

lemma demo_http_reaches: "reaches_relay P now base (demo_http P now base)"
proof -
  have route: "Option.bind (strip_prefix (base @ lit ''/blob/'') (blob_url base g s)) (split_once 47) = Some (g, s)"
    if "47 \<notin> set g" for g s
  proof -
    have "blob_url base g s = (base @ lit ''/blob/'') @ (g @ 47 # s)" by (simp add: blob_url_def lit_eval)
    then show ?thesis by (simp only: strip_prefix_append Option.bind.simps split_once_append [OF that])
  qed
  show ?thesis
    unfolding reaches_relay_def demo_http_def Let_def
    by (auto simp: route split: prod.splits)
qed


section \<open>A copied text on another device\<close>

text \<open>
  C1: A text that is copied on one device reaches the clipboard of another of its group. The clipboard
  event on the first device queues the clip; a turn of its session publishes it sealed; the relay
  forwards it to the connection of the second device, in the same group, after the clips it has still
  to take (there must be room in its queue); a turn of that device's session opens it, once, and its bridge writes the text to the
  clipboard, and does not publish it back when the clipboard reports it within ten seconds.
\<close>

theorem copied_text_arrives:
  assumes aead: "aead_contract (cc_prims CA)" and prims: "cc_prims CB = cc_prims CA" and pair: "sc_key ctxB = sc_key ctxA"
    and copied: "read_image EA r = None" "cb_text (rg_clipboard r) = Some s" "s \<noteq> []" "\<And>t. br_echo bA \<noteq> Some (s, t)"
    and client: "br_client bA = Some cA" "cl_receiver cA"
    and p: "p = \<lparr>cp_kind = ClipText, cp_content = s, cp_device_name = we_name EA, cp_ts = rg_ts r, cp_image = None\<rparr>"
    and json: "cc_payload_enc CA p = Inr plain" "cc_payload_dec CB plain = Some p"
    and nonce: "nonce = sc_nonce ctxA (length (ss_out stA))" "length nonce = NONCE_LEN"
    and sealed: "encrypt (cc_prims CA) nonce (sc_key ctxA) plain = Inr (ct, n)"
    and m: "m = Publish (sc_group ctxA) ct nonce (rg_ts r)" "parse (client_enc m) = Inr m"
    and m': "m' = SClip ct nonce (rg_ts r) (sc_device_id ctxA)" "cc_server_dec CB (server_enc m') = Inr m'"
    and sending: "\<not> se_idle_mode envA" "se_now envA < session_deadline stA" "sc_send_error ctxA (length (ss_out stA)) = None"
    and first: "map_of (rl_conns rl) i = Some ci" "wc_group ci = Some (sc_group ctxA)" "wc_device ci = Some (sc_device_id ctxA)"
    and second: "map_of (rl_conns rl) j = Some cj" "i \<noteq> j" "wc_rx cj = Some (sc_group ctxA, q, False)" "length q < BROADCAST_CAP"
      "wc_device cj = Some (sc_device_id ctxB)"
    and live: "\<not> idle_expired now ci" "\<not> idle_expired now' cj"
    and hearing: "\<not> se_idle_mode envB" "se_now envB < session_deadline stB" "sc_device_id ctxA \<noteq> sc_device_id ctxB"
      "fst (dedup_insert (se_now envB) (sc_device_id ctxA) (rg_ts r) (ss_dedup stB))"
  shows "br_client (fst (handle_clipboard_change EA r bA w)) = Some (cA\<lparr>cl_cmds := cl_cmds cA @ [SendClip p]\<rparr>)
   \<and> (\<exists>stA' s1 s2 cj' stB'.
        session_turn CA ctxA envA (SvCmd (Some (SendClip p))) stA = (Inr None, stA') \<and> ss_out stA' = ss_out stA @ [TextMsg m]
      \<and> relay_trans parse rl (now, EvIn i (Some (WsText (client_enc m)))) s1 \<and> (broadcast_turn parse now' j ^^ Suc (length q)) s1 s2
      \<and> map_of (rl_conns s2) j = Some cj'
      \<and> wc_out cj' = wc_out cj @ map forwarded (filter (\<lambda>x. Some (rc_sender x) \<noteq> wc_device cj) q) @ [SendText m']
      \<and> (\<forall>es s3. relay_run parse s1 es s3 \<longrightarrow> (\<forall>e \<in> set es. leaves_alone parse j (snd e)) \<longrightarrow>
           Suc (length q) + length (filter (publishes parse \<circ> snd) es) \<le> BROADCAST_CAP \<longrightarrow>
           Suc (length q) \<le> length (filter (\<lambda>e. snd e = EvBroadcast j) es) \<longrightarrow>
           (\<exists>cj3 new rest. map_of (rl_conns s3) j = Some cj3 \<and> wc_out cj3 = wc_out cj @ new
              \<and> filter is_clip new = map forwarded (filter (\<lambda>x. Some (rc_sender x) \<noteq> wc_device cj) q) @ SendText m' # rest))
      \<and> session_turn CB ctxB envB (SvFrame (Some (TextIn (server_enc m')))) stB = (Inr None, stB')
      \<and> ss_events stB' = ss_events stB @ [OnClip p])
   \<and> (\<exists>bB'. on_clip EB connect True nowB p bB wB = (bB', wB) \<and> br_writes bB' = br_writes bB @ [WriteText s]
        \<and> (\<forall>r'. read_image EB r' = None \<longrightarrow> cb_text (rg_clipboard r') = Some s \<longrightarrow> rg_mono r' - nowB < ECHO_WINDOW \<longrightarrow>
             handle_clipboard_change EB r' bB' wB = (bB', wB)))"
proof -
  have n: "n = nonce" and opens: "decrypt (cc_prims CB) (sc_key ctxB) nonce ct = Inr plain"
    using decrypt_encrypt [OF aead nonce(2) sealed] prims pair by simp_all
  have queued: "br_client (fst (handle_clipboard_change EA r bA w)) = Some (cA\<lparr>cl_cmds := cl_cmds cA @ [SendClip p]\<rparr>)"
    unfolding p by (rule copied_text_queued [OF copied client])
  obtain stA' where sent: "session_turn CA ctxA envA (SvCmd (Some (SendClip p))) stA = (Inr None, stA')"
    "ss_out stA' = ss_out stA @ [TextMsg m]"
    using session_sends_clip [OF sending json(1) sealed [unfolded n nonce(1)]] by (auto simp: p m(1) nonce(1))
  have other: "wc_device cj \<noteq> Some (sc_device_id ctxA)" using second(5) hearing(3) by simp
  have parsed: "parse (client_enc m) = Inr (Publish (sc_group ctxA) ct nonce (rg_ts r))" using m by simp
  obtain s1 s2 cj' where relayed: "relay_trans parse rl (now, EvIn i (Some (WsText (client_enc m)))) s1"
    "(broadcast_turn parse now' j ^^ Suc (length q)) s1 s2" "map_of (rl_conns s2) j = Some cj'"
    "wc_out cj' = wc_out cj @ map forwarded (filter (\<lambda>x. Some (rc_sender x) \<noteq> wc_device cj) q) @ [SendText m']"
    "\<forall>es s3. relay_run parse s1 es s3 \<longrightarrow> (\<forall>e \<in> set es. leaves_alone parse j (snd e)) \<longrightarrow>
           Suc (length q) + length (filter (publishes parse \<circ> snd) es) \<le> BROADCAST_CAP \<longrightarrow>
           Suc (length q) \<le> length (filter (\<lambda>e. snd e = EvBroadcast j) es) \<longrightarrow>
           (\<exists>cj3 new rest. map_of (rl_conns s3) j = Some cj3 \<and> wc_out cj3 = wc_out cj @ new
              \<and> filter is_clip new = map forwarded (filter (\<lambda>x. Some (rc_sender x) \<noteq> wc_device cj) q) @ SendText m' # rest)"
    using relay_forwards [where parse = parse and t = "client_enc m", OF first second(1-4) other live parsed]
    unfolding m'(1) by blast
  obtain stB' where "session_turn CB ctxB envB (SvFrame (Some (TextIn (server_enc m')))) stB = (Inr None, stB')"
    "ss_events stB' = ss_events stB @ [OnClip p]"
    using session_hears_clip [OF hearing(1,2) m'(2) [unfolded m'(1)] hearing(3,4) opens json(2)] m'(1) by blast
  moreover have "\<exists>bB'. on_clip EB connect True nowB p bB wB = (bB', wB) \<and> br_writes bB' = br_writes bB @ [WriteText s]
        \<and> (\<forall>r'. read_image EB r' = None \<longrightarrow> cb_text (rg_clipboard r') = Some s \<longrightarrow> rg_mono r' - nowB < ECHO_WINDOW \<longrightarrow>
             handle_clipboard_change EB r' bB' wB = (bB', wB))"
    by (rule remote_text_written) (simp_all add: p)
  ultimately show ?thesis using queued sent relayed by blast
qed

definition demo_sender :: session_ctx where
  "demo_sender = \<lparr>sc_relay_url = [], sc_group = [1], sc_key = replicate 32 0, sc_device_id = [2], sc_device_name = [],
     sc_send_error = (\<lambda>n. None), sc_nonce = (\<lambda>n. replicate 12 0)\<rparr>"

definition demo_receiver :: session_ctx where
  "demo_receiver = demo_sender\<lparr>sc_device_id := [3]\<rparr>"

definition demo_clip_message :: server_message where
  "demo_clip_message = SClip (replicate 16 0 @ [9]) (replicate 12 0) 0 [2]"

definition demo_text_codec :: client_codec where
  "demo_text_codec = \<lparr>cc_prims = demo_prims, cc_payload_enc = (\<lambda>p. Inr [9]),
     cc_payload_dec = (\<lambda>b. Some \<lparr>cp_kind = ClipText, cp_content = [65], cp_device_name = lit ''PC'', cp_ts = 0, cp_image = None\<rparr>),
     cc_server_dec = (\<lambda>t. Inr demo_clip_message)\<rparr>"

definition demo_conn :: "str \<Rightarrow> ws_conn" where
  "demo_conn did = (ws_conn_new 0 (V4 0))\<lparr>wc_group := Some [1], wc_device := Some did, wc_rx := Some ([1], [], False)\<rparr>"

theorem copied_text_arrives_witness:
  "\<exists>stB'. session_turn demo_text_codec demo_receiver (ClientSession.demo_env 0) (SvFrame (Some (TextIn [])))
       demo_session_state = (Inr None, stB')
     \<and> ss_events stB' = [OnClip \<lparr>cp_kind = ClipText, cp_content = [65], cp_device_name = lit ''PC'', cp_ts = 0, cp_image = None\<rparr>]"
proof -
  let ?b = "bridge_new\<lparr>br_client := Some demo_client\<rparr>"
  let ?rl = "\<lparr>rl_hub = hub_new, rl_conns = [(0, demo_conn [2]), (1, demo_conn [3])]\<rparr>"
  have sealed: "encrypt demo_prims (replicate 12 0) (replicate 32 0) [9] = Inr (replicate 16 0 @ [9], replicate 12 0)"
    by (simp add: encrypt_def demo_prims_def)
  have live: "cl_receiver demo_client" "0 < session_deadline demo_session_state"
    "fst (dedup_insert 0 [2] 0 (ss_dedup demo_session_state))"
    by (simp_all add: demo_client_def client_new_def KEY_LEN_def demo_session_defs session_deadline_def
        C_IDLE_TIMEOUT_def dedup_insert_def)
  note arrives = copied_text_arrives [where CA = demo_text_codec and CB = demo_text_codec and ctxA = demo_sender
      and ctxB = demo_receiver and EA = WinBridge.demo_env and r = "demo_text_reading 0" and s = "[65]" and bA = ?b
      and cA = demo_client and plain = "[9]" and stA = demo_session_state and ct = "replicate 16 0 @ [9]"
      and nonce = "replicate 12 0" and n = "replicate 12 0" and m = "Publish [1] (replicate 16 0 @ [9]) (replicate 12 0) 0"
      and parse = "\<lambda>_. Inr (Publish [1] (replicate 16 0 @ [9]) (replicate 12 0) 0)" and client_enc = "\<lambda>_. []"
      and m' = demo_clip_message and server_enc = "\<lambda>_. []" and envA = "ClientSession.demo_env 0"
      and envB = "ClientSession.demo_env 0" and stB = demo_session_state and rl = ?rl and i = 0 and j = 1
      and ci = "demo_conn [2]" and cj = "demo_conn [3]" and q = "[]" and now = 0 and now' = 0]
  have no_image: "read_image WinBridge.demo_env (demo_text_reading 0) = None"
    by (simp add: read_image_def read_clipboard_image_def read_clipboard_bitmap_image_def demo_text_reading_def)
  have aead: "aead_contract (cc_prims demo_text_codec)" by (simp add: demo_text_codec_def demo_aead)
  show ?thesis
    by (rule rev_mp [OF arrives [THEN conjunct2, THEN conjunct1, OF aead]])
      (use sealed live no_image in \<open>auto simp: demo_text_codec_def demo_sender_def demo_receiver_def demo_clip_message_def
        demo_conn_def ws_conn_new_def bridge_new_def demo_text_reading_def NONCE_LEN_def idle_expired_def BROADCAST_CAP_def
        WS_IDLE_TIMEOUT_def ClientSession.demo_env_def demo_session_state_def session_state_new_def WinBridge.demo_env_def\<close>)
qed

text \<open>
  C2: Over the LAN the text arrives whether or not the relay takes it. The turn of the first device's
  session broadcasts the clip to its LAN node before it seals it for the relay, so also when the
  write to the relay fails. The LAN session with the second device writes it after the clips that
  are still waiting for it; that device's session reads them back in order; the clip reaches its
  listener, unless it has come over the relay already, and its bridge writes the text to the
  clipboard without sending it back.
\<close>

theorem copied_text_arrives_on_lan:
  assumes copied: "read_image EA r = None" "cb_text (rg_clipboard r) = Some s" "s \<noteq> []" "\<And>t. br_echo bA \<noteq> Some (s, t)"
    and client: "br_client bA = Some cA" "cl_receiver cA"
    and p: "p = \<lparr>cp_kind = ClipText, cp_content = s, cp_device_name = we_name EA, cp_ts = rg_ts r, cp_image = None\<rparr>"
    and sending: "\<not> se_idle_mode envA" "se_now envA < session_deadline stA" "se_lan envA = Some networks"
    and out: "out = \<lparr>ol_sender = sc_device_id ctxA, ol_ts = rg_ts r, ol_payload = p\<rparr>"
    and link: "codec_contract (px_codec X)" "px_codec Y = px_codec X" "px_key Y = px_key X"
    and wire: "nonces_ok c" "c_limit c = None" "list_all (\<lambda>x. sendable (px_codec X) (px_key X) (clip_message x)) (waiting @ [out])"
    and times: "t < seenA + LAN_IDLE_TIMEOUT" "paced seenB ts" "length ts = Suc (length (filter (\<lambda>x. ol_sender x \<noteq> sc_device_id ctxB) waiting))"
    and fresh: "sc_device_id ctxA \<noteq> sc_device_id ctxB" "fst (dedup_insert now (sc_device_id ctxA) (rg_ts r) (ss_dedup stB))"
  shows "br_client (fst (handle_clipboard_change EA r bA w)) = Some (cA\<lparr>cl_cmds := cl_cmds cA @ [SendClip p]\<rparr>)
   \<and> ss_broadcast (snd (session_turn CA ctxA envA (SvCmd (Some (SendClip p))) stA)) = ss_broadcast stA @ [(sc_device_id ctxA, rg_ts r, p)]
   \<and> ln_out (lan_broadcast (sc_device_id ctxA) (rg_ts r) p node) = ln_out node @ [out]
   \<and> (\<exists>c' bytes d'.
        peer_loop X (sc_device_id ctxB) seenA (map (out_event t) (waiting @ [out])) c n = (None, c', n) \<and> c_out c' = c_out c @ bytes
      \<and> peer_loop Y did seenB (map frame_event ts) (d\<lparr>c_in := bytes\<rparr>) m = (None, d',
          m\<lparr>nh_inbound := nh_inbound m @ map arrived (filter (\<lambda>x. ol_sender x \<noteq> sc_device_id ctxB) waiting) @ [arrived out]\<rparr>))
   \<and> ss_events (drain_lan_clip ctxB now (arrived out) stB) = ss_events stB @ [OnClip p]
   \<and> (\<exists>bB'. on_clip EB connect True nowB p bB wB = (bB', wB) \<and> br_writes bB' = br_writes bB @ [WriteText s]
        \<and> (\<forall>r'. read_image EB r' = None \<longrightarrow> cb_text (rg_clipboard r') = Some s \<longrightarrow> rg_mono r' - nowB < ECHO_WINDOW \<longrightarrow>
             handle_clipboard_change EB r' bB' wB = (bB', wB)))"
proof -
  let ?kept = "filter (\<lambda>x. ol_sender x \<noteq> sc_device_id ctxB) (waiting @ [out])"
  have kept: "?kept = filter (\<lambda>x. ol_sender x \<noteq> sc_device_id ctxB) waiting @ [out]" using fresh(1) by (simp add: out)
  obtain c' where sent: "peer_loop X (sc_device_id ctxB) seenA (map (out_event t) (waiting @ [out])) c n = (None, c', n)"
    using out_events_written [OF link(1) times(1) wire(1,2) wire(3) [unfolded list_all_iff]] by blast
  obtain frames where frames: "list_all2 (frame_of (px_codec Y) (px_key Y)) (map clip_message ?kept) frames"
    and bytes: "c_out c' = c_out c @ concat frames"
    using out_events_sent [OF link(1) wire(1) sent] link(2,3) by auto
  have "peer_loop Y did seenB (map frame_event ts) (d\<lparr>c_in := concat frames\<rparr>) m =
      (None, d\<lparr>c_in := []\<rparr>, m\<lparr>nh_inbound := nh_inbound m @ map arrived ?kept\<rparr>)"
    using frame_events_delivered [OF frames _ times(2), where rest = "[]" and c = "d\<lparr>c_in := concat frames\<rparr>"] times(3) kept
    by simp
  then have "\<exists>c' bytes d'.
        peer_loop X (sc_device_id ctxB) seenA (map (out_event t) (waiting @ [out])) c n = (None, c', n) \<and> c_out c' = c_out c @ bytes
      \<and> peer_loop Y did seenB (map frame_event ts) (d\<lparr>c_in := bytes\<rparr>) m = (None, d',
          m\<lparr>nh_inbound := nh_inbound m @ map arrived (filter (\<lambda>x. ol_sender x \<noteq> sc_device_id ctxB) waiting) @ [arrived out]\<rparr>)"
    using sent bytes unfolding kept by auto
  moreover have "ss_events (drain_lan_clip ctxB now (arrived out) stB) = ss_events stB @ [OnClip p]"
    using fresh by (simp add: drain_lan_clip_def arrived_def out emit_def case_prod_unfold Let_def)
  moreover have "ss_broadcast (snd (session_turn CA ctxA envA (SvCmd (Some (SendClip p))) stA))
      = ss_broadcast stA @ [(sc_device_id ctxA, rg_ts r, p)]"
    using session_broadcasts_clip [OF sending] by (simp add: p)
  moreover have "br_client (fst (handle_clipboard_change EA r bA w)) = Some (cA\<lparr>cl_cmds := cl_cmds cA @ [SendClip p]\<rparr>)"
    unfolding p by (rule copied_text_queued [OF copied client])
  moreover have "\<exists>bB'. on_clip EB connect True nowB p bB wB = (bB', wB) \<and> br_writes bB' = br_writes bB @ [WriteText s]
        \<and> (\<forall>r'. read_image EB r' = None \<longrightarrow> cb_text (rg_clipboard r') = Some s \<longrightarrow> rg_mono r' - nowB < ECHO_WINDOW \<longrightarrow>
             handle_clipboard_change EB r' bB' wB = (bB', wB))"
    by (rule remote_text_written) (simp_all add: p)
  moreover have "ln_out (lan_broadcast (sc_device_id ctxA) (rg_ts r) p node) = ln_out node @ [out]"
    by (simp add: lan_broadcast_def out)
  ultimately show ?thesis by blast
qed

definition demo_lan_out :: outgoing_lan where
  "demo_lan_out = \<lparr>ol_sender = [2], ol_ts = 0, ol_payload =
     \<lparr>cp_kind = ClipText, cp_content = [65], cp_device_name = lit ''PC'', cp_ts = 0, cp_image = None\<rparr>\<rparr>"

definition demo_lan_link :: peer_context where
  "demo_lan_link = link_context\<lparr>px_codec := table_codec [clip_message demo_lan_out]\<rparr>"

theorem copied_text_arrives_on_lan_witness:
  "\<exists>c' bytes d'. peer_loop demo_lan_link [3] 0 [out_event 1 demo_lan_out] (plain_conn []) demo_shared = (None, c', demo_shared)
     \<and> c_out c' = bytes
     \<and> peer_loop demo_lan_link [2] 0 [frame_event 9] (plain_conn bytes) demo_shared =
         (None, d', demo_shared\<lparr>nh_inbound := [arrived demo_lan_out]\<rparr>)"
proof -
  let ?b = "bridge_new\<lparr>br_client := Some demo_client\<rparr>" and ?env = "(ClientSession.demo_env 0)\<lparr>se_lan := Some []\<rparr>"
  have live: "cl_receiver demo_client" "0 < session_deadline demo_session_state"
    "fst (dedup_insert 0 [2] 0 (ss_dedup demo_session_state))"
    by (simp_all add: demo_client_def client_new_def KEY_LEN_def demo_session_defs session_deadline_def
        C_IDLE_TIMEOUT_def dedup_insert_def)
  have no_image: "read_image WinBridge.demo_env (demo_text_reading 0) = None"
    by (simp add: read_image_def read_clipboard_image_def read_clipboard_bitmap_image_def demo_text_reading_def)
  have codec: "codec_contract (px_codec demo_lan_link)"
    "sendable (px_codec demo_lan_link) (px_key demo_lan_link) (clip_message demo_lan_out)"
    by (simp_all add: demo_lan_link_def table_codec_contract table_codec_sendable)
  note arrives = copied_text_arrives_on_lan [where EA = WinBridge.demo_env and r = "demo_text_reading 0" and s = "[65]"
      and bA = ?b and cA = demo_client and p = "ol_payload demo_lan_out" and envA = ?env and stA = demo_session_state
      and out = demo_lan_out and ctxA = demo_sender and ctxB = demo_receiver and X = demo_lan_link and Y = demo_lan_link
      and c = "plain_conn []" and waiting = "[]" and t = 1 and seenA = 0 and seenB = 0 and ts = "[9]" and now = 0
      and stB = demo_session_state and n = demo_shared and m = demo_shared and did = "[2]" and d = "plain_conn []"]
  show ?thesis
    by (rule rev_mp [OF arrives [THEN conjunct2, THEN conjunct2, THEN conjunct2, THEN conjunct1]])
      (use live no_image codec in \<open>auto simp: demo_lan_out_def demo_sender_def demo_receiver_def bridge_new_def
        demo_text_reading_def ClientSession.demo_env_def WinBridge.demo_env_def LAN_IDLE_TIMEOUT_def demo_shared_def\<close>)
qed

section \<open>A file on another device\<close>

text \<open>
  C3: A file sent to a device arrives there and is shown. The host of one device sends a file to a
  peer: the client dials the addresses it knows, and the stream of the first that connects brings
  the peer's hello, its ping and its acceptance. The peer's LAN session, fed with what the client
  wrote, ends without an error, answers with exactly such frames, and leaves the content under a
  new name in its directory and nothing else; and its host lists the file first, with that path.
\<close>

theorem sent_file_arrives:
  fixes X :: peer_context
  assumes C: "codec_contract (px_codec X)" "sha_contract (crypto (px_codec X))"
    and group: "px_key X = cl_key cA" "target = px_self X" "cl_device_id cA \<noteq> target"
    and offer: "outgoing_open (crypto (px_codec X)) fsA uuid (cl_device_id cA) target source mime default_file_config = Inr og"
    and quiet: "\<forall>call. \<not> fs_faults fsA call" "\<forall>call. \<not> fs_faults (nh_fs n) call"
    and msgs: "\<forall>m \<in> set ([Hello (cl_device_id cA) PROTO_VERSION (cl_device_name cA), FileOfferMsg (og_offer og), FileComplete uuid]
                         @ chunk_msgs uuid (og_chunk_bytes og) 0 (og_rest og)). sendable (px_codec X) (cl_key cA) m"
      "\<forall>m \<in> {Hello target PROTO_VERSION (px_name X), Ping, FileAccept uuid}. sendable (px_codec X) (cl_key cA) m"
    and answers: "frame_of (px_codec X) (cl_key cA) (Hello target PROTO_VERSION (px_name X)) fh"
      "frame_of (px_codec X) (cl_key cA) Ping fp" "frame_of (px_codec X) (cl_key cA) (FileAccept uuid) fa"
    and dial: "dial_first connect (candidates_for_peer (cl_peer_addrs cA) target) = Some (plain_conn (fh @ fp @ fa))"
    and inbound: "\<not> ps_hello_late S" "ps_class_late S = None" "px_expected X = None"
    and size: "length (og_rest og) \<le> max_file_bytes default_file_config" and uuid: "trim uuid \<noteq> []"
    and dest: "nh_receive_dir n = Some dir" "unique_destination_path (nh_fs n) dir (fo_file_name (og_offer og)) = Inr d"
      "\<not> fs_exists (nh_fs n) (part_path_for d uuid)"
    and host: "br_client bB = Some cB" "cl_received cB = []"
  shows "\<exists>sent ca rf fsB cb es b'.
     send_file_to_peer (px_codec X) fsA uuid connect target source mime cA = (Inr sent, Some ca)
     \<and> sf_bytes_sent sent = length (og_rest og)
     \<and> run_peer X S (plain_conn (c_out ca)) n = (Some (Inr ()), cb, n\<lparr>nh_fs := fsB, nh_received := nh_received n @ [rf]\<rparr>)
     \<and> (\<exists>fh fp fa. c_out cb = fh @ fp @ fa \<and> frame_of (px_codec X) (cl_key cA) (Hello target PROTO_VERSION (px_name X)) fh
          \<and> frame_of (px_codec X) (cl_key cA) Ping fp \<and> frame_of (px_codec X) (cl_key cA) (FileAccept uuid) fa)
     \<and> fs_content fsA source = Some (og_rest og) \<and> fs_content fsB (rf_path rf) = Some (og_rest og)
     \<and> fst (rf_path rf) = dir \<and> \<not> fs_exists (nh_fs n) (rf_path rf)
     \<and> fs_entries fsB = (fs_entries (nh_fs n))(rf_path rf := fs_entries fsB (rf_path rf))
     \<and> recent_file_transfers clock (bB\<lparr>br_client := Some (on_received_file rf cB)\<rparr>) =
         (received_entry (clock 0) (received_record rf) # es, b')
     \<and> fe_path (received_entry (clock 0) (received_record rf)) = Some (path_display (rf_path rf))"
proof -
  let ?C = "px_codec X" and ?key = "cl_key cA" and ?c = "plain_conn (fh @ fp @ fa)"
  let ?req = "\<lparr>sr_source = cl_device_id cA, sr_source_name = cl_device_name cA, sr_target = target,
                      sr_path = source, sr_mime = mime, sr_config = default_file_config\<rparr>"
  have cands: "candidates_for_peer (cl_peer_addrs cA) target \<noteq> []" using dial by auto
  have reads: "\<forall>p. \<not> fs_faults fsA (FRead p)" using quiet(1) by simp
  obtain sent ca where sent: "send_file_to_stream ?C fsA uuid ?key ?req ?c = (Inr sent, ca)"
    using send_file_ok [OF C(1), where c = ?c and request = ?req and fs = fsA and uuid = uuid and og = og and key = ?key
        and v = PROTO_VERSION and name = "px_name X" and fh = fh and k = 1 and fps = "[fp]" and fa = fa] offer reads msgs(1) answers
    by auto
  have send: "send_file_to_peer ?C fsA uuid connect target source mime cA = (Inr sent, Some ca)"
    using cands dial sent by (simp add: send_file_to_peer_def lan_send_file_def send_file_to_candidates_def Let_def)
  obtain og' frames where og': "outgoing_open (crypto ?C) fsA uuid (sr_source ?req) (sr_target ?req) (sr_path ?req) (sr_mime ?req)
      (sr_config ?req) = Inr og'"
    and frames': "list_all2 (frame_of ?C ?key)
      ([Hello (sr_source ?req) PROTO_VERSION (sr_source_name ?req), FileOfferMsg (og_offer og')]
       @ chunk_msgs (fo_transfer_id (og_offer og')) (og_chunk_bytes og') 0 (og_rest og')
       @ [FileComplete (fo_transfer_id (og_offer og'))]) frames"
    and out: "c_out ca = c_out ?c @ concat frames" and bytes: "sf_bytes_sent sent = length (og_rest og')"
    by (rule send_file_sent [OF C(1) nonces_ok_plain sent])
  have "og' = og" using og' offer by simp
  then have frames: "list_all2 (frame_of ?C ?key)
      ([Hello (cl_device_id cA) PROTO_VERSION (cl_device_name cA), FileOfferMsg (og_offer og)]
       @ chunk_msgs uuid (og_chunk_bytes og) 0 (og_rest og) @ [FileComplete uuid]) frames"
    and bytes': "sf_bytes_sent sent = length (og_rest og)"
    using frames' bytes outgoing_open_Inr(6) [OF offer] by simp_all
  have stream: "c_in (plain_conn (c_out ca)) = concat frames" "nonces_ok (plain_conn (c_out ca))" "c_limit (plain_conn (c_out ca)) = None"
    using out by simp_all
  have other: "cl_device_id cA \<noteq> px_self X" using group by simp
  have replies: "sendable ?C ?key (Hello (px_self X) PROTO_VERSION (px_name X))" "sendable ?C ?key Ping" "sendable ?C ?key (FileAccept uuid)"
    using msgs(2) group(2) by simp_all
  obtain rf fsB cb where recv: "run_peer X S (plain_conn (c_out ca)) n =
      (Some (Inr ()), cb, n\<lparr>nh_fs := fsB, nh_received := nh_received n @ [rf]\<rparr>)"
    and at: "fs_content fsB (rf_path rf) = Some (og_rest og)" "fst (rf_path rf) = dir" "\<not> fs_exists (nh_fs n) (rf_path rf)"
      "delivered (crypto ?C) (nh_fs n) (og_offer og) rf fsB"
    and reply: "\<exists>fh fp fa. frame_of ?C ?key (Hello target PROTO_VERSION (px_name X)) fh \<and> frame_of ?C ?key Ping fp
          \<and> frame_of ?C ?key (FileAccept uuid) fa \<and> c_out cb = c_out (plain_conn (c_out ca)) @ fh @ fp @ fa"
    using run_peer_receives [where X = X and c = "plain_conn (c_out ca)" and n = n and S = S, unfolded group(1),
        OF C offer [unfolded group(2)] frames stream inbound other size uuid quiet(2) dest replies]
    unfolding group(2) by blast
  obtain es b' where "recent_file_transfers clock (bB\<lparr>br_client := Some (on_received_file rf cB)\<rparr>) =
         (received_entry (clock 0) (received_record rf) # es, b')"
    using received_file_listed [OF host] by blast
  moreover have "fs_entries fsB = (fs_entries (nh_fs n))(rf_path rf := fs_entries fsB (rf_path rf))"
    using at(4) by (auto simp: delivered_def)
  moreover have "fe_path (received_entry (clock 0) (received_record rf)) = Some (path_display (rf_path rf))"
    by (simp add: received_entry_def received_record_def)
  moreover have "\<exists>fh fp fa. c_out cb = fh @ fp @ fa \<and> frame_of ?C ?key (Hello target PROTO_VERSION (px_name X)) fh
      \<and> frame_of ?C ?key Ping fp \<and> frame_of ?C ?key (FileAccept uuid) fa"
    using reply by auto
  ultimately show ?thesis
    using send bytes' recv at(1-3) outgoing_open_Inr(1) [OF offer]
    by - (rule exI [of _ sent], rule exI [of _ ca], rule exI [of _ rf], rule exI [of _ fsB], rule exI [of _ cb],
        rule exI [of _ es], rule exI [of _ b'], intro conjI; assumption)
qed

definition demo_file_sender :: client where
  "demo_file_sender = demo_client\<lparr>cl_peer_addrs :=
     [([1], \<lparr>pa_device_id = lit ''B'', pa_display_name = None, pa_candidates = [SockV4 9 80]\<rparr>)]\<rparr>"

definition demo_file_node :: node_shared where
  "demo_file_node = demo_shared\<lparr>nh_receive_dir := Some (lit ''/s''), nh_fs := demo_fs [9]\<rparr>"

definition demo_file_link :: "codec \<Rightarrow> peer_context" where
  "demo_file_link C = \<lparr>px_codec = C, px_key = replicate 32 0, px_self = lit ''B'', px_name = lit ''Bob'', px_expected = None,
     px_registry_key = []\<rparr>"

theorem sent_file_arrives_witness:
  "\<exists>C connect sent ca rf fsB cb.
     send_file_to_peer C (demo_fs [1, 2, 3]) (lit ''u1'') connect (lit ''B'') (lit ''/s'', lit ''a.txt'') None demo_file_sender
       = (Inr sent, Some ca)
     \<and> run_peer (demo_file_link C) (demo_script\<lparr>ps_hello_late := False\<rparr>) (plain_conn (c_out ca)) demo_file_node
       = (Some (Inr ()), cb, demo_file_node\<lparr>nh_fs := fsB, nh_received := [rf]\<rparr>)
     \<and> fs_content fsB (rf_path rf) = Some [1, 2, 3]"
proof -
  let ?open = "\<lambda>P. outgoing_open P (demo_fs [1, 2, 3]) (lit ''u1'') (lit ''A'') (lit ''B'') (lit ''/s'', lit ''a.txt'') None default_file_config"
  obtain og where og: "?open demo_prims = Inr og"
    using demo_open by (auto simp: demo_request_def)
  note i = outgoing_open_Inr [OF og]
  have rest: "og_rest og = [1, 2, 3]" using i(1) by (simp add: fs_content_def demo_fs_def)
  have name: "fo_file_name (og_offer og) = lit ''a.txt''"
    using i(9) [of "lit ''a.txt''"] by (simp add: path_file_name_def demo_name) (simp add: lit_eval)
  let ?ms = "[Hello (lit ''A'') PROTO_VERSION (lit ''Alice''), FileOfferMsg (og_offer og), FileComplete (lit ''u1''),
      FileChunk (lit ''u1'') 0 [1, 2, 3], Hello (lit ''B'') PROTO_VERSION (lit ''Bob''), Ping, FileAccept (lit ''u1'')]"
  let ?C = "table_codec ?ms" and ?key = "replicate 32 0 :: bytes"
  have snd: "sendable ?C ?key m" if "m \<in> set ?ms" for m by (rule table_codec_sendable [OF that]) simp
  obtain fh fp fa where f: "frame_of ?C ?key (Hello (lit ''B'') PROTO_VERSION (lit ''Bob'')) fh" "frame_of ?C ?key Ping fp"
    "frame_of ?C ?key (FileAccept (lit ''u1'')) fa"
    using sendable_frame [OF table_codec_contract snd] by (metis list.set_intros(1,2))
  have crypto: "crypto ?C = demo_prims" by (simp add: table_codec_def)
  have sender: "cl_key demo_file_sender = ?key" "cl_device_id demo_file_sender = lit ''A''" "cl_device_name demo_file_sender = lit ''Alice''"
    "candidates_for_peer (cl_peer_addrs demo_file_sender) (lit ''B'') = [SockV4 9 80]"
    by (simp_all add: demo_file_sender_def demo_client_def client_new_def KEY_LEN_def candidates_for_peer_def)
  have link: "px_codec (demo_file_link ?C) = ?C" "px_key (demo_file_link ?C) = ?key" "px_self (demo_file_link ?C) = lit ''B''"
    "px_name (demo_file_link ?C) = lit ''Bob''" "px_expected (demo_file_link ?C) = None"
    by (simp_all add: demo_file_link_def)
  have node: "nh_fs demo_file_node = demo_fs [9]" "nh_receive_dir demo_file_node = Some (lit ''/s'')" "nh_received demo_file_node = []"
    by (simp_all add: demo_file_node_def demo_shared_def)
  have dest: "unique_destination_path (demo_fs [9]) (lit ''/s'') (fo_file_name (og_offer og)) = Inr (lit ''/s'', lit ''a (1).txt'')"
    unfolding name by (rule demo_dest)
  have part: "\<not> fs_exists (demo_fs [9]) (part_path_for (lit ''/s'', lit ''a (1).txt'') (lit ''u1''))" by code_simp
  have uuid: "trim (lit ''u1'') \<noteq> []" and ids: "lit ''A'' \<noteq> lit ''B''" by code_simp+
  have quiet: "\<forall>call. \<not> fs_faults (demo_fs b) call" for b by (simp add: demo_fs_def)
  have chunks: "chunk_msgs (lit ''u1'') (og_chunk_bytes og) 0 (og_rest og) = [FileChunk (lit ''u1'') 0 [1, 2, 3]]"
    using i(8) by (simp only: rest demo_chunks)
  have size: "length (og_rest og) \<le> max_file_bytes default_file_config"
    by (simp add: rest default_file_config_def DEFAULT_MAX_FILE_BYTES_def)
  have msgs: "\<forall>m \<in> set ([Hello (lit ''A'') PROTO_VERSION (lit ''Alice''), FileOfferMsg (og_offer og), FileComplete (lit ''u1'')]
        @ chunk_msgs (lit ''u1'') (og_chunk_bytes og) 0 (og_rest og)). sendable ?C ?key m"
    "\<forall>m \<in> {Hello (lit ''B'') PROTO_VERSION (lit ''Bob''), Ping, FileAccept (lit ''u1'')}. sendable ?C ?key m"
    unfolding chunks using snd by simp_all
  have dial: "dial_first (\<lambda>_. dial.Connected (plain_conn (fh @ fp @ fa))) [SockV4 9 80] = Some (plain_conn (fh @ fp @ fa))" by simp
  have script: "\<not> ps_hello_late (demo_script\<lparr>ps_hello_late := False\<rparr>)" "ps_class_late (demo_script\<lparr>ps_hello_late := False\<rparr>) = None"
    by (simp_all add: demo_script_def)
  have host: "br_client (bridge_new\<lparr>br_client := Some demo_client\<rparr>) = Some demo_client" "cl_received demo_client = []"
    by (simp_all add: demo_client_def client_new_def KEY_LEN_def)
  note t = sent_file_arrives [where X = "demo_file_link ?C" and cA = demo_file_sender and target = "lit ''B''" and n = demo_file_node
      and S = "demo_script\<lparr>ps_hello_late := False\<rparr>" and bB = "bridge_new\<lparr>br_client := Some demo_client\<rparr>" and cB = demo_client
      and clock = "\<lambda>_. 0" and connect = "\<lambda>_. dial.Connected (plain_conn (fh @ fp @ fa))", unfolded link sender node crypto,
      OF table_codec_contract demo_sha refl refl ids og quiet quiet msgs f dial script refl size uuid refl dest part host]
  then obtain sent ca rf fsB cb where
    "send_file_to_peer ?C (demo_fs [1, 2, 3]) (lit ''u1'') (\<lambda>_. dial.Connected (plain_conn (fh @ fp @ fa))) (lit ''B'')
       (lit ''/s'', lit ''a.txt'') None demo_file_sender = (Inr sent, Some ca)"
    "run_peer (demo_file_link ?C) (demo_script\<lparr>ps_hello_late := False\<rparr>) (plain_conn (c_out ca)) demo_file_node
       = (Some (Inr ()), cb, demo_file_node\<lparr>nh_fs := fsB, nh_received := [] @ [rf]\<rparr>)"
    "fs_content fsB (rf_path rf) = Some (og_rest og)"
    by blast
  then show ?thesis unfolding rest append_Nil by blast
qed

section \<open>A copied image on another device\<close>

text \<open>
  C4: An image that is copied on one device reaches the clipboard of another of its group from the
  first one's cache; the second one asks the relay for nothing. The clipboard event on the first device puts the
  ciphertext into its cache, uploads it, and queues the clip. The LAN session of that device that is
  asked for the digest serves the ciphertext. The other device, when the clip arrives, asks its LAN
  peers in turn; those before the first device may be out of reach or answer with anything that has
  another digest. The stream of that session gives it the image, byte for byte, which its bridge writes
  to the clipboard, unless its pixels are among those it has just seen, and does not publish back when
  the clipboard reports it.
\<close>

theorem copied_image_arrives_on_lan:
  fixes X :: peer_context
  assumes C: "codec_contract (px_codec X)" "we_codec EA = px_codec X" "we_codec EB = px_codec X"
    and envs: "we_lib EB = we_lib EA" "\<And>b. we_b64_decode EB (we_b64_encode EA b) = Inr b"
    and group: "px_key X = cl_key cA" "cl_key cB = cl_key cA" "cl_device_id cB \<noteq> px_self X"
    and copied: "read_image EA r = Some png" "hash_of EA (np_bytes png) = Some h" "h \<notin> set (br_hashes bA)"
      "length (np_bytes png) \<le> MAX_IMAGE_BYTES"
    and clients: "br_client bA = Some cA" "cl_receiver cA" "br_client bB = Some cB"
    and enc: "length (rg_nonce r) = NONCE_LEN" "encrypt (crypto (px_codec X)) (rg_nonce r) (cl_key cA) (np_bytes png) = Inr (ct, n)"
    and sha: "sha = sha256_hex (crypto (px_codec X)) ct"
    and cache: "cache_inv (cl_cache cA)" "blob_cache_get sha (cl_cache cA) = None"
    and relay: "upload (we_http EA) (cl_base cA) (cl_group cA) sha ct w = (Inr (), w')"
    and inbound: "\<not> ps_hello_late S" "ps_class_late S = None" "px_expected X = None"
    and asks: "frame_of (px_codec X) (cl_key cA) (Hello (cl_device_id cB) PROTO_VERSION (cl_device_name cB)) f1"
      "frame_of (px_codec X) (cl_key cA) (BlobRequest sha) f2"
    and msgs: "\<forall>m \<in> {Hello (cl_device_id cB) PROTO_VERSION (cl_device_name cB), BlobRequest sha}. sendable (px_codec X) (cl_key cA) m"
      "\<forall>m \<in> {Hello (px_self X) PROTO_VERSION (px_name X), Ping} \<union> set (blob_msgs ct 0). sendable (px_codec X) (cl_key cA) m"
    and peers: "cl_lan_peers cB > 0" "map (\<lambda>e. pa_candidates (snd e)) (cl_peer_addrs cB) = before @ cands # after"
  shows "\<exists>cA' p ca.
     br_client (fst (handle_clipboard_change EA r bA w)) = Some cA' \<and> snd (handle_clipboard_change EA r bA w) = w'
     \<and> cl_cmds cA' = cl_cmds cA @ [SendClip p]
     \<and> run_peer X S (plain_conn (f1 @ f2)) (m\<lparr>nh_cache := cl_cache cA'\<rparr>) = (Some (Inr ()), ca, m\<lparr>nh_cache := cl_cache cA'\<rparr>)
     \<and> (\<forall>connect. (\<forall>k < length before. \<forall>b. lan_fetch_blob (px_codec X) (connect k) (before ! k) (cl_key cB) (cl_device_id cB)
            (cl_device_name cB) sha (length (np_bytes png) + 1024) = Some b \<longrightarrow> sha256_hex (crypto (px_codec X)) b \<noteq> sha) \<longrightarrow>
         dial_first (connect (length before)) cands = Some (plain_conn (c_out ca)) \<longrightarrow>
         (\<exists>bB'. on_clip EB connect works now p bB u = (bB', u)
            \<and> (h \<notin> set (br_hashes bB) \<longrightarrow>
                 br_writes bB' = br_writes bB @ write_image_to_clipboard (we_lib EB) works (np_bytes png)
                 \<and> image_bytes_for h bB' = Some (np_bytes png))
            \<and> (\<forall>r' png'. read_image EB r' = Some png' \<longrightarrow> hash_of EB (np_bytes png') = Some h \<longrightarrow>
                 (\<exists>q. handle_clipboard_change EB r' bB' u = (bB'\<lparr>br_hashes := q\<rparr>, u)))))"
proof -
  let ?C = "px_codec X" and ?key = "cl_key cA" and ?img = "np_bytes png" and ?P = "crypto (px_codec X)"
  have aead: "aead_contract ?P" using C(1) by (simp add: codec_contract_def)
  note dec = decrypt_encrypt [OF aead enc]
  have ct: "ct \<noteq> []" "length ct \<le> length ?img + 1024" "length ct \<le> BLOB_CACHE_MAX_BYTES"
    using dec(2) copied(4) by (auto simp: AEAD_TAG_LEN_def MAX_IMAGE_BYTES_def BLOB_CACHE_MAX_BYTES_def)
  have max: "min USIZE_MAX (length ?img + 1024) = length ?img + 1024"
    using copied(4) by (simp add: USIZE_MAX_def MAX_IMAGE_BYTES_def)
  let ?meta = "\<lparr>im_mime_type = np_mime png, im_width = np_width png, im_height = np_height png, im_size_bytes = length ?img,
                 im_sha256_hex = sha, im_nonce_b64 = we_b64_encode EA n\<rparr>"
  let ?p = "\<lparr>cp_kind = ClipImage, cp_content = [], cp_device_name = we_name EA, cp_ts = rg_ts r, cp_image = Some ?meta\<rparr>"
  let ?cA = "cA\<lparr>cl_cache := blob_cache_insert sha ct (cl_cache cA), cl_cmds := cl_cmds cA @ [SendClip ?p]\<rparr>"
  have "publish_image EA (rg_nonce r) png (rg_ts r) (br_client bA) w = (Inr (), Some ?cA, w')"
    using clients(1,2) enc(2) relay by (simp add: publish_image_def send_image_def send_cmd_def Let_def C(2) sha)
  then have published: "br_client (fst (handle_clipboard_change EA r bA w)) = Some ?cA" "snd (handle_clipboard_change EA r bA w) = w'"
    using new_image_published [OF copied(1,2,3,4), of w] by simp_all
  have cached: "blob_cache_get sha (cl_cache ?cA) = Some ct"
    using cache_get_insert [OF cache(1) ct(3), of sha] cache(2) by simp
  obtain ca fh fp frames where served: "run_peer X S (plain_conn (f1 @ f2)) (m\<lparr>nh_cache := cl_cache ?cA\<rparr>) =
      (Some (Inr ()), ca, m\<lparr>nh_cache := cl_cache ?cA\<rparr>)"
    and stream: "c_out ca = fh @ fp @ concat frames" "frame_of ?C ?key (Hello (px_self X) PROTO_VERSION (px_name X)) fh"
      "frame_of ?C ?key Ping fp" "list_all2 (frame_of ?C ?key) (blob_msgs ct 0) frames"
    using run_peer_serves [where X = X and S = S and n = "m\<lparr>nh_cache := cl_cache ?cA\<rparr>", unfolded group(1),
        OF C(1) asks inbound group(3), of ct] cached ct(1) msgs(2) by auto
  have shown: "\<exists>bB'. on_clip EB connect works now ?p bB u = (bB', u)
            \<and> (h \<notin> set (br_hashes bB) \<longrightarrow>
                 br_writes bB' = br_writes bB @ write_image_to_clipboard (we_lib EB) works ?img
                 \<and> image_bytes_for h bB' = Some ?img)
            \<and> (\<forall>r' png'. read_image EB r' = Some png' \<longrightarrow> hash_of EB (np_bytes png') = Some h \<longrightarrow>
                 (\<exists>q. handle_clipboard_change EB r' bB' u = (bB'\<lparr>br_hashes := q\<rparr>, u)))"
    if others: "\<forall>k < length before. \<forall>b. lan_fetch_blob ?C (connect k) (before ! k) (cl_key cB) (cl_device_id cB)
        (cl_device_name cB) sha (length ?img + 1024) = Some b \<longrightarrow> sha256_hex ?P b \<noteq> sha"
      and dial: "dial_first (connect (length before)) cands = Some (plain_conn (c_out ca))" for connect
  proof -
    have got: "lan_fetch_blob ?C (connect (0 + length before)) cands (cl_key cB) (cl_device_id cB) (cl_device_name cB) sha
        (length ?img + 1024) = Some ct"
      unfolding group(2) add_0
      by (rule fetch_blob_served [OF C(1) _ _ stream(2-4) ct(1,2) dial [unfolded stream(1)]]) (use msgs(1) in auto)
    have plain: "decrypt ?P (cl_key cB) n ct = Inr ?img" unfolding group(2) by (rule dec(1))
    have "fetch_from_peers ?C connect cB sha n (length ?img + 1024) 0 (before @ cands # after) = Some (ct, ?img)"
      by (rule fetch_from_peers_at [where i = 0 and connect = connect and before = before, OF _ got sha [symmetric] plain])
        (unfold add_0, rule others)
    then have fetched: "fetch_image ?C connect (we_b64_decode EB) (we_http EB) ?meta cB u =
        (Inr ?img, cB\<lparr>cl_cache := blob_cache_insert sha ct (cl_cache cB)\<rparr>, u)"
      using peers(1,2) enc(1) dec(3) by (simp add: fetch_image_def envs(2) max Let_def)
    let ?bB = "bB\<lparr>br_client := Some (cB\<lparr>cl_cache := blob_cache_insert sha ct (cl_cache cB)\<rparr>)\<rparr>"
    let ?bB' = "show_remote_image EB works (we_name EA) (rg_ts r) ?meta ?img ?bB"
    have hash: "hash_of EB ?img = Some h" using copied(2) C(2,3) envs(1) by simp
    have "on_clip EB connect works now ?p bB u = (?bB', u)"
      using fetched by (simp add: on_clip_def handle_remote_image_def clients(3) C(3))
    moreover have "h \<notin> set (br_hashes bB) \<longrightarrow> br_writes ?bB' = br_writes bB @ write_image_to_clipboard (we_lib EB) works ?img
        \<and> image_bytes_for h ?bB' = Some ?img"
      using new_remote_image_shown [OF hash, of ?bB works "we_name EA" "rg_ts r" ?meta] by simp
    moreover have "\<forall>r' png'. read_image EB r' = Some png' \<longrightarrow> hash_of EB (np_bytes png') = Some h \<longrightarrow>
        (\<exists>q. handle_clipboard_change EB r' ?bB' u = (?bB'\<lparr>br_hashes := q\<rparr>, u))"
      by (intro allI impI, rule known_image_dropped [OF _ _ remote_image_remembered [OF hash]])
    ultimately show ?thesis by - (rule exI [of _ ?bB'], intro conjI; assumption)
  qed
  have "cl_cmds ?cA = cl_cmds cA @ [SendClip ?p]" by simp
  then show ?thesis
    by - (rule exI [of _ ?cA], rule exI [of _ ?p], rule exI [of _ ca], intro conjI allI impI;
        (rule published served | assumption | rule shown; assumption))
qed

definition demo_image_win :: "codec \<Rightarrow> (bytes, unit) win_env" where
  "demo_image_win C = \<lparr>we_codec = C, we_lib = demo_image_lib,
     we_http = \<lparr>http_put = \<lambda>_ _ w. (Inr \<lparr>hr_status = 204, hr_bytes = Inr [], hr_text = Inr []\<rparr>, w), http_get = \<lambda>_ w. (Inl [], w)\<rparr>,
     we_b64_encode = map unat, we_b64_decode = (\<lambda>s. Inr (map word_of_nat s)), we_name = lit ''PC''\<rparr>"

definition demo_image_sender :: "codec \<Rightarrow> peer_context" where
  "demo_image_sender C = (demo_file_link C)\<lparr>px_self := lit ''A'', px_name := lit ''Alice''\<rparr>"

definition demo_image_receiver :: client where
  "demo_image_receiver = demo_file_sender\<lparr>cl_device_id := lit ''B'', cl_device_name := lit ''Bob'', cl_lan_peers := 1\<rparr>"

theorem copied_image_arrives_on_lan_witness:
  "\<exists>C f1 f2 cA' p ca bB'.
     br_client (fst (handle_clipboard_change (demo_image_win C) (demo_reading [7]) (bridge_new\<lparr>br_client := Some demo_client\<rparr>) ())) = Some cA'
     \<and> cl_cmds cA' = [SendClip p]
     \<and> run_peer (demo_image_sender C) (demo_script\<lparr>ps_hello_late := False\<rparr>) (plain_conn (f1 @ f2)) (demo_shared\<lparr>nh_cache := cl_cache cA'\<rparr>)
         = (Some (Inr ()), ca, demo_shared\<lparr>nh_cache := cl_cache cA'\<rparr>)
     \<and> on_clip (demo_image_win C) (\<lambda>_ _. dial.Connected (plain_conn (c_out ca))) True 0 p
         (bridge_new\<lparr>br_client := Some demo_image_receiver\<rparr>) () = (bB', ())
     \<and> br_writes bB' = [WriteImage 1 1 [7]]"
proof -
  let ?ct = "replicate 16 0 @ [7] :: bytes"
  let ?sha = "sha256_hex demo_prims ?ct"
  let ?B = "Hello (lit ''B'') PROTO_VERSION (lit ''Bob'')" and ?A = "Hello (lit ''A'') PROTO_VERSION (lit ''Alice'')"
  let ?ms = "[?B, BlobRequest ?sha, ?A, Ping, BlobChunk ?ct True]"
  let ?C = "table_codec ?ms" and ?key = "replicate 32 0 :: bytes"
  let ?E = "demo_image_win ?C" and ?X = "demo_image_sender ?C" and ?S = "demo_script\<lparr>ps_hello_late := False\<rparr>"
  let ?bA = "bridge_new\<lparr>br_client := Some demo_client\<rparr>" and ?bB = "bridge_new\<lparr>br_client := Some demo_image_receiver\<rparr>"
  have snd: "sendable ?C ?key m" if "m \<in> set ?ms" for m by (rule table_codec_sendable [OF that]) simp
  obtain f1 f2 where f: "frame_of ?C ?key ?B f1" "frame_of ?C ?key (BlobRequest ?sha) f2"
    using sendable_frame [OF table_codec_contract snd] by (metis list.set_intros(1,2))
  have crypto: "crypto ?C = demo_prims" by (simp add: table_codec_def)
  have link: "px_codec ?X = ?C" "px_key ?X = ?key" "px_self ?X = lit ''A''" "px_name ?X = lit ''Alice''" "px_expected ?X = None"
    by (simp_all add: demo_image_sender_def demo_file_link_def)
  have sender: "cl_key demo_client = ?key" "cl_receiver demo_client" "cl_cache demo_client = blob_cache_new" "cl_cmds demo_client = []"
    by (simp_all add: demo_client_def client_new_def KEY_LEN_def)
  have receiver: "cl_key demo_image_receiver = ?key" "cl_device_id demo_image_receiver = lit ''B''"
    "cl_device_name demo_image_receiver = lit ''Bob''" "0 < cl_lan_peers demo_image_receiver"
    "map (\<lambda>e. pa_candidates (snd e)) (cl_peer_addrs demo_image_receiver) = [] @ [SockV4 9 80] # []"
    by (simp_all add: demo_image_receiver_def demo_file_sender_def demo_client_def client_new_def KEY_LEN_def)
  have win: "we_codec ?E = ?C" "\<And>b. we_b64_decode ?E (we_b64_encode ?E b) = Inr b" "we_lib ?E = demo_image_lib"
    by (simp_all add: demo_image_win_def o_def)
  let ?png = "\<lparr>np_bytes = [7], np_mime = MIME_PNG, np_width = 1, np_height = 1\<rparr>"
  have png: "read_image ?E (demo_reading [7]) = Some ?png"
    using demo_read_image by (simp add: read_image_def win(3)) (simp add: WinBridge.demo_env_def)
  have hash: "hash_of ?E (np_bytes ?png) = Some (sha256_hex demo_prims [7])"
    by (simp add: pixel_hash_hex_def win demo_image_lib_def crypto)
  have empty: "br_hashes ?bA = []" "br_hashes ?bB = []" "br_writes ?bB = []" "br_client ?bA = Some demo_client"
    "br_client ?bB = Some demo_image_receiver" by (simp_all add: bridge_new_def)
  have nonce: "rg_nonce (demo_reading [7]) = replicate 12 0" by (simp add: demo_reading_def)
  have sealed: "encrypt (crypto ?C) (rg_nonce (demo_reading [7])) ?key (np_bytes ?png) = Inr (?ct, replicate 12 0)"
    unfolding crypto nonce by (simp add: encrypt_def demo_prims_def)
  have up: "upload (we_http ?E) (cl_base demo_client) (cl_group demo_client) ?sha ?ct () = (Inr (), ())"
    by (simp add: upload_def demo_image_win_def)
  have script: "\<not> ps_hello_late ?S" "ps_class_late ?S = None" by (simp_all add: demo_script_def)
  have chunks: "blob_msgs ?ct 0 = [BlobChunk ?ct True]" by (simp add: blob_msgs.simps BLOB_CHUNK_def)
  have ids: "lit ''B'' \<noteq> lit ''A''" by code_simp
  have msgs: "\<forall>m \<in> {?B, BlobRequest ?sha}. sendable ?C ?key m" "\<forall>m \<in> {?A, Ping} \<union> set (blob_msgs ?ct 0). sendable ?C ?key m"
    unfolding chunks using snd by simp_all
  have new: "sha256_hex demo_prims [7] \<notin> set (br_hashes ?bA)" "length (np_bytes ?png) \<le> MAX_IMAGE_BYTES"
    "length (rg_nonce (demo_reading [7])) = NONCE_LEN" "cache_inv (cl_cache demo_client)"
    "blob_cache_get ?sha (cl_cache demo_client) = None"
    unfolding empty sender nonce
    by (simp_all add: MAX_IMAGE_BYTES_def NONCE_LEN_def cache_inv_new blob_cache_get_def
        blob_cache_new_def [THEN arg_cong [of _ _ bc_map]])
  note arrives = copied_image_arrives_on_lan [where X = ?X and EA = ?E and EB = ?E and r = "demo_reading [7]" and bA = ?bA and bB = ?bB
      and cA = demo_client and cB = demo_image_receiver and w = "()" and u = "()" and S = ?S and m = demo_shared and now = 0
      and works = True and before = "[]" and cands = "[SockV4 9 80]" and after = "[]", unfolded link sender(1) win(1),
      OF table_codec_contract refl refl refl win(2) refl receiver(1) _ png hash [unfolded win(1)] new(1,2) empty(4) sender(2) empty(5) new(3) sealed,
      unfolded crypto receiver(2,3), OF ids refl new(4,5) up script refl f msgs receiver(4,5)]
  then obtain cA' p ca where sent: "br_client (fst (handle_clipboard_change ?E (demo_reading [7]) ?bA ())) = Some cA'"
    "cl_cmds cA' = cl_cmds demo_client @ [SendClip p]"
    "run_peer ?X ?S (plain_conn (f1 @ f2)) (demo_shared\<lparr>nh_cache := cl_cache cA'\<rparr>) = (Some (Inr ()), ca, demo_shared\<lparr>nh_cache := cl_cache cA'\<rparr>)"
    and shown: "\<forall>connect. dial_first (connect 0) [SockV4 9 80] = Some (plain_conn (c_out ca)) \<longrightarrow>
      (\<exists>bB'. on_clip ?E connect True 0 p ?bB () = (bB', ())
        \<and> (sha256_hex demo_prims [7] \<notin> set (br_hashes ?bB) \<longrightarrow>
             br_writes bB' = br_writes ?bB @ write_image_to_clipboard (we_lib ?E) True (np_bytes ?png)))"
    unfolding list.size(3) not_less0 simp_thms by blast
  have fresh: "sha256_hex demo_prims [7] \<notin> set (br_hashes ?bB)" unfolding empty by simp
  have dial: "dial_first ((\<lambda>_ _. dial.Connected (plain_conn (c_out ca))) (0 :: nat)) [SockV4 9 80] = Some (plain_conn (c_out ca))" by simp
  obtain bB' where "on_clip ?E (\<lambda>_ _. dial.Connected (plain_conn (c_out ca))) True 0 p ?bB () = (bB', ())"
    and "br_writes bB' = br_writes ?bB @ write_image_to_clipboard (we_lib ?E) True (np_bytes ?png)"
    using shown [rule_format, OF dial] fresh by blast
  moreover from this(2) have "br_writes bB' = [WriteImage 1 1 [7]]"
    unfolding empty win(3) by (simp add: write_image_to_clipboard_def demo_image_lib_def)
  ultimately show ?thesis using sent unfolding sender(4) append_Nil by blast
qed

end
